(* ===== verification/Otel_Prelude.thy ===== *)
theory Otel_Prelude
  imports Main "HOL-Library.Char_ord" "HOL-Library.List_Lexorder" "HOL-Library.Product_Lexorder"
    "HOL-Library.Code_Target_Numeral"
begin

text \<open>
  Shared ground of the development: the collections of rewrite rules the component theories
  fill, the result type of fallible Go functions, and the generic lemmas on lists, options and
  finite maps that several components use.

  Conventions. A Go string is a byte sequence, so it is a \<^typ>\<open>string\<close> (a list of 8-bit
  characters). A Go function that returns \<open>(T, error)\<close> is a function into
  \<^typ>\<open>'e + 'a\<close>, \<^term>\<open>Inl\<close> the error. A Go map is a partial function. A Go
  \<open>range\<close> over a map visits its keys in an unspecified order: the model takes the order
  as an argument and the theorems hold for every order (locale \<open>map_range\<close>).
\<close>

named_theorems go_string_simps \<open>rewrite rules of the Go string functions\<close>
named_theorems go_time_simps \<open>rewrite rules of the Go time functions\<close>
named_theorems store_simps \<open>rewrite rules of the sample store\<close>
named_theorems monitor_simps \<open>rewrite rules of the alert monitors\<close>

section \<open>Fallible computations\<close>

definition bind_result :: "'e + 'a \<Rightarrow> ('a \<Rightarrow> 'e + 'b) \<Rightarrow> 'e + 'b" where
  "bind_result r f = (case r of Inl e \<Rightarrow> Inl e | Inr x \<Rightarrow> f x)"

lemma bind_result_simps [simp]:
  "bind_result (Inl e) f = Inl e"
  "bind_result (Inr x) f = f x"
  by (simp_all add: bind_result_def)

lemma bind_result_Inr_iff: "bind_result r f = Inr y \<longleftrightarrow> (\<exists>x. r = Inr x \<and> f x = Inr y)"
  by (cases r) auto

section \<open>Lists\<close>

lemma take_Suc_append_nth: "i < length xs \<Longrightarrow> take (Suc i) xs = take i xs @ [xs ! i]"
  by (simp add: take_Suc_conv_app_nth)

lemma dropWhile_sorted_eq_filter:
  fixes f :: "'a \<Rightarrow> 'b::linorder"
  assumes "sorted (map f xs)"
  shows "dropWhile (\<lambda>x. f x < c) xs = filter (\<lambda>x. c \<le> f x) xs"
  using assms
proof (induction xs)
  case Nil
  then show ?case by simp
next
  case (Cons x xs)
  show ?case
  proof (cases "f x < c")
    case True
    with Cons show ?thesis by simp
  next
    case False
    with Cons.prems have "\<forall>y\<in>set xs. c \<le> f y" by (auto intro: order_trans)
    with False show ?thesis by simp
  qed
qed

lemma sorted_map_drop: "sorted (map f xs) \<Longrightarrow> sorted (map f (drop n xs))"
  by (simp flip: drop_map)

lemma sorted_map_take_le_drop:
  assumes "sorted (map f xs)" and "x \<in> set (take n xs)" and "y \<in> set (drop n xs)"
  shows "f x \<le> f y"
proof -
  have "sorted (map f (take n xs) @ map f (drop n xs))"
    using assms(1) by (metis append_take_drop_id map_append)
  with assms(2,3) show ?thesis by (auto simp: sorted_append)
qed

lemma sum_list_map_update:
  fixes f :: "'a \<Rightarrow> 'b::comm_monoid_add"
  shows "p < length xs \<Longrightarrow> sum_list (map f (xs[p := x])) + f (xs ! p) = sum_list (map f xs) + f x"
  by (induction xs arbitrary: p) (auto split: nat.split simp: ac_simps)

section \<open>Finite maps\<close>

lemma finite_dom_upd [simp]: "finite (dom m) \<Longrightarrow> finite (dom (m(k \<mapsto> v)))"
  by simp

lemma finite_dom_del [simp]: "finite (dom m) \<Longrightarrow> finite (dom (m(k := None)))"
  by simp

lemma sum_dom_upd:
  fixes f :: "'v \<Rightarrow> int"
  assumes "finite (dom m)"
  shows "(\<Sum>i\<in>dom (m(k \<mapsto> v)). f (the ((m(k \<mapsto> v)) i))) =
    (\<Sum>i\<in>dom m. f (the (m i))) - (case m k of None \<Rightarrow> 0 | Some w \<Rightarrow> f w) + f v"
proof -
  have eq: "(\<Sum>i\<in>dom m - {k}. f (the ((m(k \<mapsto> v)) i))) = (\<Sum>i\<in>dom m - {k}. f (the (m i)))"
    by (rule sum.cong) auto
  have "(\<Sum>i\<in>dom (m(k \<mapsto> v)). f (the ((m(k \<mapsto> v)) i))) =
      (\<Sum>i\<in>insert k (dom m - {k}). f (the ((m(k \<mapsto> v)) i)))"
    by (rule sum.cong) auto
  also have "\<dots> = f v + (\<Sum>i\<in>dom m - {k}. f (the (m i)))"
    using assms eq by (subst sum.insert) auto
  finally have new: "(\<Sum>i\<in>dom (m(k \<mapsto> v)). f (the ((m(k \<mapsto> v)) i))) =
      f v + (\<Sum>i\<in>dom m - {k}. f (the (m i)))" .
  show ?thesis
  proof (cases "m k")
    case None
    then have "dom m - {k} = dom m" by (auto simp: dom_def)
    with None new show ?thesis by simp
  next
    case (Some w)
    with assms new show ?thesis by (simp add: sum.remove [of "dom m" k] domI)
  qed
qed

lemma sum_dom_del:
  fixes f :: "'v \<Rightarrow> int"
  assumes "finite (dom m)" and "m k = Some w"
  shows "(\<Sum>i\<in>dom (m(k := None)). f (the ((m(k := None)) i))) =
    (\<Sum>i\<in>dom m. f (the (m i))) - f w"
proof -
  have "(\<Sum>i\<in>dom (m(k := None)). f (the ((m(k := None)) i))) = (\<Sum>i\<in>dom m - {k}. f (the (m i)))"
    by (rule sum.cong) auto
  with assms show ?thesis by (simp add: sum.remove [of "dom m" k] domI)
qed

section \<open>The order in which a map is visited\<close>

text \<open>
  \<open>rng m\<close> is the order in which one \<open>for k, v := range m\<close> loop visits the keys of
  \<open>m\<close>. Go fixes only that every key is visited once.
\<close>

locale map_range =
  fixes rng :: "('k \<rightharpoonup> 'v) \<Rightarrow> 'k list"
  assumes rng_distinct: "finite (dom m) \<Longrightarrow> distinct (rng m)"
    and rng_set: "finite (dom m) \<Longrightarrow> set (rng m) = dom m"
begin

lemma rng_Nil_iff: "finite (dom m) \<Longrightarrow> rng m = [] \<longleftrightarrow> m = Map.empty"
  using rng_set [of m] by (metis dom_eq_empty_conv set_empty)

lemma rng_mem: "finite (dom m) \<Longrightarrow> k \<in> set (rng m) \<longleftrightarrow> (\<exists>v. m k = Some v)"
  by (simp add: rng_set dom_def)

end

text \<open>Visiting the keys in ascending order is one such order.\<close>

definition ascending_keys :: "('k::linorder \<rightharpoonup> 'v) \<Rightarrow> 'k list" where
  "ascending_keys m = sorted_list_of_set (dom m)"

interpretation ascending: map_range ascending_keys
  by unfold_locales (simp_all add: ascending_keys_def)

lemma ascending_keys_empty [simp]: "ascending_keys Map.empty = []"
  by (simp add: ascending_keys_def)

lemma ascending_keys_upd [simp]:
  "finite (dom m) \<Longrightarrow> ascending_keys (m(k \<mapsto> v)) = insort k (remove1 k (ascending_keys m))"
  by (simp add: ascending_keys_def sorted_list_of_set_insert_remove sorted_list_of_set_remove)

end
