(* ===== verification/Go_Strings.thy ===== *)
theory Go_Strings
  imports Otel_Prelude
begin

text \<open>
  The functions of Go's \<open>strings\<close> package that the program calls, on byte strings:
  prefixes and suffixes, \<open>Split\<close> and \<open>Join\<close> on a one-byte separator,
  \<open>IndexByte\<close>, and decimal rendering of integers. The lemmas are the round trips the
  path and configuration parsers rest on.
\<close>

section \<open>Prefixes and suffixes\<close>

definition has_prefix :: "string \<Rightarrow> string \<Rightarrow> bool" where
  "has_prefix s p \<longleftrightarrow> length p \<le> length s \<and> take (length p) s = p"

definition has_suffix :: "string \<Rightarrow> string \<Rightarrow> bool" where
  "has_suffix s p \<longleftrightarrow> length p \<le> length s \<and> drop (length s - length p) s = p"

definition trim_prefix :: "string \<Rightarrow> string \<Rightarrow> string" where
  "trim_prefix s p = (if has_prefix s p then drop (length p) s else s)"

definition trim_suffix :: "string \<Rightarrow> string \<Rightarrow> string" where
  "trim_suffix s p = (if has_suffix s p then take (length s - length p) s else s)"

lemma has_prefix_append [simp]: "has_prefix (p @ s) p"
  by (simp add: has_prefix_def)

lemma has_suffix_append [simp]: "has_suffix (s @ p) p"
  by (simp add: has_suffix_def)

lemma has_prefix_Cons [simp]: "has_prefix s [c] \<longleftrightarrow> (\<exists>t. s = c # t)"
  by (cases s) (auto simp: has_prefix_def)

lemma has_prefix_iff: "has_prefix s p \<longleftrightarrow> (\<exists>t. s = p @ t)"
  unfolding has_prefix_def by (metis append_eq_conv_conj append_take_drop_id length_append le_add1)

lemma has_prefix_code [code]:
  "has_prefix s [] = True"
  "has_prefix [] (d # ds) = False"
  "has_prefix (c # cs) (d # ds) = (c = d \<and> has_prefix cs ds)"
  by (auto simp: has_prefix_def)

lemma has_suffix_iff: "has_suffix s p \<longleftrightarrow> (\<exists>t. s = t @ p)"
proof
  assume "has_suffix s p"
  then have "s = take (length s - length p) s @ p"
    unfolding has_suffix_def by (metis append_take_drop_id)
  then show "\<exists>t. s = t @ p" ..
qed auto

lemma trim_prefix_append [simp]: "trim_prefix (p @ s) p = s"
  by (simp add: trim_prefix_def)

lemma trim_prefix_Cons [simp]: "trim_prefix (c # s) [c] = s"
  using trim_prefix_append [of "[c]" s] by simp

lemma trim_suffix_append [simp]: "trim_suffix (s @ p) p = s"
  by (simp add: trim_suffix_def)

section \<open>Split and Join on one byte\<close>

fun split_byte :: "char \<Rightarrow> string \<Rightarrow> string list" where
  "split_byte c [] = [[]]"
| "split_byte c (x # xs) =
     (if x = c then [] # split_byte c xs
      else case split_byte c xs of [] \<Rightarrow> [[x]] | w # ws \<Rightarrow> (x # w) # ws)"

fun join_byte :: "char \<Rightarrow> string list \<Rightarrow> string" where
  "join_byte c [] = []"
| "join_byte c [w] = w"
| "join_byte c (w # ws) = w @ c # join_byte c ws"

lemma split_byte_not_Nil [simp]: "split_byte c s \<noteq> []"
  by (cases s) (auto split: list.splits)

lemma join_byte_Cons: "ws \<noteq> [] \<Longrightarrow> join_byte c (w # ws) = w @ c # join_byte c ws"
  by (cases ws) auto

lemma join_split_byte [simp, go_string_simps]: "join_byte c (split_byte c s) = s"
proof (induction s)
  case Nil
  then show ?case by simp
next
  case (Cons x xs)
  show ?case
  proof (cases "x = c")
    case True
    with Cons show ?thesis by (simp add: join_byte_Cons)
  next
    case False
    obtain w ws where ws: "split_byte c xs = w # ws"
      by (cases "split_byte c xs") auto
    with False Cons show ?thesis by (cases ws) auto
  qed
qed

lemma split_byte_word [simp]: "c \<notin> set w \<Longrightarrow> split_byte c w = [w]"
  by (induction w) auto

lemma split_byte_append: "c \<notin> set w \<Longrightarrow> split_byte c (w @ c # s) = w # split_byte c s"
  by (induction w) auto

lemma split_join_byte [go_string_simps]:
  assumes "ws \<noteq> []" and "\<forall>w\<in>set ws. c \<notin> set w"
  shows "split_byte c (join_byte c ws) = ws"
  using assms by (induction c ws rule: join_byte.induct) (auto simp: split_byte_append)

lemma split_byte_no_sep: "w \<in> set (split_byte c s) \<Longrightarrow> c \<notin> set w"
proof (induction s arbitrary: w)
  case Nil
  then show ?case by simp
next
  case (Cons x xs)
  obtain v vs where vs: "split_byte c xs = v # vs"
    by (cases "split_byte c xs") auto
  with Cons show ?case by (auto split: if_splits)
qed

section \<open>IndexByte\<close>

fun index_byte :: "string \<Rightarrow> char \<Rightarrow> nat option" where
  "index_byte [] c = None"
| "index_byte (x # xs) c = (if x = c then Some 0 else map_option Suc (index_byte xs c))"

lemma index_byte_None_iff: "index_byte s c = None \<longleftrightarrow> c \<notin> set s"
  by (induction s) auto

lemma index_byte_Some:
  "index_byte s c = Some i \<Longrightarrow> i < length s \<and> s ! i = c \<and> c \<notin> set (take i s)"
proof (induction s arbitrary: i)
  case Nil
  then show ?case by simp
next
  case (Cons x xs)
  then show ?case by (cases i) (auto split: if_splits)
qed

lemma index_byte_append: "c \<notin> set w \<Longrightarrow> index_byte (w @ c # s) c = Some (length w)"
  by (induction w) auto

section \<open>Decimal integers\<close>

definition digit_char :: "nat \<Rightarrow> char" where
  "digit_char d = char_of (48 + d)"

definition is_digit :: "char \<Rightarrow> bool" where
  "is_digit c \<longleftrightarrow> 48 \<le> (of_char c :: nat) \<and> (of_char c :: nat) \<le> 57"

definition digit_val :: "char \<Rightarrow> nat" where
  "digit_val c = of_char c - 48"

fun nat_digits :: "nat \<Rightarrow> string" where
  "nat_digits n = (if n < 10 then [digit_char n] else nat_digits (n div 10) @ [digit_char (n mod 10)])"

declare nat_digits.simps [simp del]

definition int_digits :: "int \<Rightarrow> string" where
  "int_digits i = (if i < 0 then CHR ''-'' # nat_digits (nat (- i)) else nat_digits (nat i))"

fun digits_val :: "nat \<Rightarrow> string \<Rightarrow> nat" where
  "digits_val acc [] = acc"
| "digits_val acc (c # cs) = digits_val (10 * acc + digit_val c) cs"

lemma of_char_digit_char: "d < 10 \<Longrightarrow> (of_char (digit_char d) :: nat) = 48 + d"
  by (simp add: digit_char_def of_char_of)

lemma digit_char_facts [simp]:
  assumes "d < 10"
  shows "is_digit (digit_char d)" and "digit_val (digit_char d) = d"
  using assms by (simp_all add: is_digit_def digit_val_def of_char_digit_char)

lemma nat_digits_is_digit: "c \<in> set (nat_digits n) \<Longrightarrow> is_digit c"
proof (induction n rule: nat_digits.induct)
  case (1 n)
  then show ?case
    by (subst (asm) nat_digits.simps) (auto split: if_splits)
qed

lemma nat_digits_not_Nil [simp]: "nat_digits n \<noteq> []"
  by (subst nat_digits.simps) simp

lemma digits_val_append: "digits_val acc (xs @ ys) = digits_val (digits_val acc xs) ys"
  by (induction acc xs rule: digits_val.induct) auto

lemma digits_val_nat_digits [go_string_simps]: "digits_val 0 (nat_digits n) = n"
proof (induction n rule: nat_digits.induct)
  case (1 n)
  show ?case
  proof (cases "n < 10")
    case True
    then show ?thesis by (subst nat_digits.simps) simp
  next
    case False
    with "1" show ?thesis by (subst nat_digits.simps) (simp add: digits_val_append)
  qed
qed

lemma nat_digits_inj: "nat_digits m = nat_digits n \<Longrightarrow> m = n"
  using digits_val_nat_digits by metis

section \<open>White space\<close>

text \<open>
  \<open>TrimSpace\<close> and \<open>Fields\<close> go by \<open>unicode.IsSpace\<close> on the decoded runes. The
  UTF-8 encodings of the white-space runes start with a byte that occurs in no other place of a
  valid encoding, so on bytes the runes are found by looking for their encodings.
\<close>

definition white_space :: "string list" where
  "white_space =
    [[CHR 0x09], [CHR 0x0A], [CHR 0x0B], [CHR 0x0C], [CHR 0x0D], [CHR 0x20], [CHR 0xC2, CHR 0x85],
     [CHR 0xC2, CHR 0xA0], [CHR 0xE1, CHR 0x9A, CHR 0x80], [CHR 0xE2, CHR 0x80, CHR 0x80],
     [CHR 0xE2, CHR 0x80, CHR 0x81], [CHR 0xE2, CHR 0x80, CHR 0x82], [CHR 0xE2, CHR 0x80, CHR 0x83],
     [CHR 0xE2, CHR 0x80, CHR 0x84], [CHR 0xE2, CHR 0x80, CHR 0x85], [CHR 0xE2, CHR 0x80, CHR 0x86],
     [CHR 0xE2, CHR 0x80, CHR 0x87], [CHR 0xE2, CHR 0x80, CHR 0x88], [CHR 0xE2, CHR 0x80, CHR 0x89],
     [CHR 0xE2, CHR 0x80, CHR 0x8A], [CHR 0xE2, CHR 0x80, CHR 0xA8], [CHR 0xE2, CHR 0x80, CHR 0xA9],
     [CHR 0xE2, CHR 0x80, CHR 0xAF], [CHR 0xE2, CHR 0x81, CHR 0x9F], [CHR 0xE3, CHR 0x80, CHR 0x80]]"

definition space_len :: "string \<Rightarrow> nat" where
  "space_len s = (case filter (has_prefix s) white_space of [] \<Rightarrow> 0 | w # ws \<Rightarrow> length w)"

definition space_len_end :: "string \<Rightarrow> nat" where
  "space_len_end s = (case filter (has_suffix s) white_space of [] \<Rightarrow> 0 | w # ws \<Rightarrow> length w)"

lemma white_space_facts:
  "list_all (\<lambda>w. w \<noteq> [] \<and> (CHR '' '' \<in> set w \<longrightarrow> w = '' '')) white_space" "'' '' \<in> set white_space"
  by code_simp+

lemma white_space_not_Nil: "w \<in> set white_space \<Longrightarrow> w \<noteq> []"
  using white_space_facts(1) by (simp add: list_all_iff)

lemma space_in_white_space: "w \<in> set white_space \<Longrightarrow> CHR '' '' \<in> set w \<Longrightarrow> w = '' ''"
  using white_space_facts(1) by (simp add: list_all_iff)

lemma filter_first: "filter P xs = y # ys \<Longrightarrow> y \<in> set xs \<and> P y"
  by (auto simp: filter_eq_Cons_iff)

lemma space_len_le: "space_len s \<le> length s"
proof (cases "filter (has_prefix s) white_space")
  case Nil
  then show ?thesis by (simp add: space_len_def)
next
  case (Cons w ws)
  then have "has_prefix s w" by (auto dest: filter_first)
  with Cons show ?thesis by (simp add: space_len_def has_prefix_def)
qed

lemma space_len_Nil [simp]: "space_len [] = 0"
  using space_len_le [of "[]"] by simp

lemma space_len_end_le: "space_len_end s \<le> length s"
proof (cases "filter (has_suffix s) white_space")
  case Nil
  then show ?thesis by (simp add: space_len_end_def)
next
  case (Cons w ws)
  then have "has_suffix s w" by (auto dest: filter_first)
  with Cons show ?thesis by (simp add: space_len_end_def has_suffix_def)
qed

function trim_left :: "string \<Rightarrow> string" where
  "trim_left s = (if space_len s = 0 then s else trim_left (drop (space_len s) s))"
  by pat_completeness auto
termination
proof (relation "measure length", goal_cases)
  case (2 s)
  then show ?case using space_len_le [of s] by auto
qed simp

function trim_right :: "string \<Rightarrow> string" where
  "trim_right s = (if space_len_end s = 0 then s else trim_right (take (length s - space_len_end s) s))"
  by pat_completeness auto
termination
proof (relation "measure length", goal_cases)
  case (2 s)
  then show ?case using space_len_end_le [of s] by auto
qed simp

declare trim_left.simps [simp del] trim_right.simps [simp del]

definition trim_space :: "string \<Rightarrow> string" where
  "trim_space s = trim_right (trim_left s)"

fun take_word :: "string \<Rightarrow> string \<times> string" where
  "take_word [] = ([], [])"
| "take_word (c # cs) =
     (if space_len (c # cs) > 0 then ([], c # cs)
      else case take_word cs of (w, rest) \<Rightarrow> (c # w, rest))"

lemma trim_left_length: "length (trim_left s) \<le> length s"
proof (induction s rule: trim_left.induct)
  case (1 s)
  then show ?case by (subst trim_left.simps) (auto intro: order_trans)
qed

lemma trim_left_no_space: "space_len (trim_left s) = 0"
proof (induction s rule: trim_left.induct)
  case (1 s)
  then show ?case by (subst trim_left.simps) auto
qed

lemma take_word_length: "length (snd (take_word s)) \<le> length s"
  by (induction s) (auto split: prod.splits)

lemma take_word_shorter:
  "space_len s = 0 \<Longrightarrow> s \<noteq> [] \<Longrightarrow> length (snd (take_word s)) < length s"
  using take_word_length by (cases s) (auto split: prod.splits simp: less_Suc_eq_le, metis snd_conv take_word_length)

function go_fields :: "string \<Rightarrow> string list" where
  "go_fields s =
     (let t = trim_left s
      in if t = [] then [] else fst (take_word t) # go_fields (snd (take_word t)))"
  by pat_completeness auto
termination
proof (relation "measure length", goal_cases)
  case (2 s t)
  then have "length (snd (take_word t)) < length t"
    by (intro take_word_shorter) (auto simp: trim_left_no_space)
  also have "\<dots> \<le> length s" using 2 trim_left_length by simp
  finally show ?case by simp
qed simp

declare go_fields.simps [simp del]

text \<open>A word: not empty, and no white space starts anywhere in it.\<close>

fun spaceless :: "string \<Rightarrow> bool" where
  "spaceless [] = True"
| "spaceless (c # cs) = (space_len (c # cs) = 0 \<and> spaceless cs)"

definition is_word :: "string \<Rightarrow> bool" where
  "is_word w \<longleftrightarrow> w \<noteq> [] \<and> spaceless w"

lemma space_len_zero_iff: "space_len s = 0 \<longleftrightarrow> (\<forall>w\<in>set white_space. \<not> has_prefix s w)"
proof (cases "filter (has_prefix s) white_space")
  case Nil
  then show ?thesis by (simp add: space_len_def filter_empty_conv)
next
  case (Cons w ws)
  then have "w \<in> set white_space" "has_prefix s w" by (auto dest: filter_first)
  then show ?thesis using Cons white_space_not_Nil by (auto simp: space_len_def)
qed

lemma space_len_before_space:
  assumes "u \<noteq> []"
  shows "space_len (u @ CHR '' '' # t) = 0 \<longleftrightarrow> space_len u = 0"
proof -
  have "has_prefix (u @ CHR '' '' # t) w \<longleftrightarrow> has_prefix u w" if w: "w \<in> set white_space" for w
  proof
    assume "has_prefix (u @ CHR '' '' # t) w"
    then obtain r where r: "u @ CHR '' '' # t = w @ r" by (auto simp: has_prefix_iff)
    show "has_prefix u w"
    proof (cases "length w \<le> length u")
      case True
      then have "w = take (length w) u" using r by (metis append_eq_conv_conj take_append append_Nil2 diff_is_0_eq take_0)
      with True show ?thesis by (simp add: has_prefix_def)
    next
      case False
      then have "w ! length u = CHR '' ''" using r by (metis not_le nth_append nth_append_length)
      then have "CHR '' '' \<in> set w" using False by (metis not_le nth_mem)
      then have "w = '' ''" by (rule space_in_white_space [OF w])
      with False assms show ?thesis by (cases u) auto
    qed
  next
    assume "has_prefix u w"
    then show "has_prefix (u @ CHR '' '' # t) w" by (auto simp: has_prefix_iff)
  qed
  then show ?thesis by (simp add: space_len_zero_iff)
qed

lemma space_len_space: "space_len (CHR '' '' # s) \<noteq> 0"
  using white_space_facts(2) unfolding space_len_zero_iff by force

lemma take_word_spaceless: "spaceless w \<Longrightarrow> take_word w = (w, [])"
  by (induction w) auto

lemma take_word_before_space: "spaceless w \<Longrightarrow> take_word (w @ CHR '' '' # t) = (w, CHR '' '' # t)"
proof (induction w)
  case Nil
  then show ?case using space_len_space [of t] by simp
next
  case (Cons c w)
  then have "space_len ((c # w) @ CHR '' '' # t) = 0" by (subst space_len_before_space) simp_all
  with Cons show ?case by simp
qed

lemma take_word_parts: "take_word s = (w, rest) \<Longrightarrow> s = w @ rest \<and> (rest = [] \<or> space_len rest \<noteq> 0)"
  by (induction s arbitrary: w) (auto split: if_splits prod.splits)

lemma fields_Nil [simp]: "go_fields [] = []"
  by (subst go_fields.simps) (simp add: trim_left.simps)

lemma fields_word: "is_word w \<Longrightarrow> go_fields w = [w]"
  by (subst go_fields.simps, subst trim_left.simps)
    (cases w; simp add: is_word_def take_word_spaceless del: take_word.simps)

lemma space_len_single: "space_len (CHR '' '' # s) = 1"
proof -
  have "has_prefix (CHR '' '' # s) w \<longleftrightarrow> w = '' ''" if w: "w \<in> set white_space" for w
  proof
    assume "has_prefix (CHR '' '' # s) w"
    moreover obtain c cs where c: "w = c # cs" using white_space_not_Nil [OF w] by (cases w) auto
    ultimately have "CHR '' '' \<in> set w" by (auto simp: has_prefix_iff)
    then show "w = '' ''" by (rule space_in_white_space [OF w])
  qed auto
  then have "filter (has_prefix (CHR '' '' # s)) white_space = filter (\<lambda>w. w = '' '') white_space"
    by (rule filter_cong [OF refl])
  also have "\<dots> = ['' '']" by code_simp
  finally show ?thesis by (simp add: space_len_def)
qed

lemma fields_space: "go_fields (CHR '' '' # s) = go_fields s"
proof -
  have "trim_left (CHR '' '' # s) = trim_left s"
    by (subst trim_left.simps) (simp add: space_len_single)
  then show ?thesis by (subst (1 2) go_fields.simps) simp
qed

lemma fields_word_space:
  assumes "is_word w"
  shows "go_fields (w @ CHR '' '' # t) = w # go_fields t"
proof -
  have "space_len (w @ CHR '' '' # t) = 0"
    using assms by (cases w) (auto simp: is_word_def space_len_before_space [of "_ # _", simplified])
  then have "trim_left (w @ CHR '' '' # t) = w @ CHR '' '' # t" by (subst trim_left.simps) simp
  then show ?thesis
    using assms by (subst go_fields.simps) (simp add: is_word_def take_word_before_space fields_space)
qed

lemma fields_join [go_string_simps]: "list_all is_word ws \<Longrightarrow> go_fields (join_byte CHR '' '' ws) = ws"
  by (induction "CHR '' ''" ws rule: join_byte.induct) (auto simp: fields_word fields_word_space)

text \<open>What \<open>Fields\<close> returns are words.\<close>

lemma take_word_spaceless_iff: "space_len s = 0 \<Longrightarrow> s \<noteq> [] \<Longrightarrow> fst (take_word s) \<noteq> []"
  by (cases s) (auto split: prod.splits)

lemma fields_not_Nil: "w \<in> set (go_fields s) \<Longrightarrow> w \<noteq> []"
proof (induction s rule: go_fields.induct)
  case (1 s)
  show ?case
  proof (cases "trim_left s = []")
    case True
    with "1.prems" show ?thesis by (subst (asm) go_fields.simps) simp
  next
    case False
    then have "fst (take_word (trim_left s)) \<noteq> []"
      by (intro take_word_spaceless_iff trim_left_no_space)
    moreover have "w = fst (take_word (trim_left s)) \<or> w \<in> set (go_fields (snd (take_word (trim_left s))))"
      using "1.prems" False by (subst (asm) go_fields.simps) (simp add: Let_def)
    ultimately show ?thesis using "1.IH" [OF refl False] by auto
  qed
qed

section \<open>Lines\<close>

text \<open>
  \<open>bufio.Scanner\<close> over lines: a final line break ends the last line, a carriage return before
  a line break is dropped, and a line that does not fit the 64 KiB buffer ends the scan.
\<close>

definition drop_cr :: "string \<Rightarrow> string" where
  "drop_cr s = trim_suffix s [CHR 0x0D]"

definition raw_lines :: "string \<Rightarrow> string list" where
  "raw_lines content =
     (let ls = split_byte (CHR 0x0A) content in if last ls = [] then butlast ls else ls)"

definition max_token :: nat where "max_token = 64 * 1024"

definition scan_lines :: "string \<Rightarrow> string list \<times> bool" where
  \<comment> \<open>the lines delivered, and whether a line was too long\<close>
  "scan_lines content =
     (let ls = raw_lines content; ok = takeWhile (\<lambda>l. length l < max_token) ls
      in (map drop_cr ok, length ok < length ls))"

section \<open>Clean paths\<close>

text \<open>
  \<open>path.Clean\<close> and \<open>path.Join\<close> by the rules of their documentation: empty and \<open>.\<close>
  elements vanish, \<open>..\<close> takes the element before it away, and vanishes at the root.
\<close>

fun clean_step :: "bool \<Rightarrow> string \<Rightarrow> string list \<Rightarrow> string list" where
  \<comment> \<open>the elements kept so far, the last first\<close>
  "clean_step rooted w acc =
     (if w = [] \<or> w = ''.'' then acc
      else if w = ''..'' then
        (case acc of
           [] \<Rightarrow> if rooted then [] else [w]
         | v # vs \<Rightarrow> if v = ''..'' then w # acc else vs)
      else w # acc)"

definition path_clean :: "string \<Rightarrow> string" where
  "path_clean s =
     (let rooted = has_prefix s ''/'';
          ws = rev (fold (clean_step rooted) (split_byte CHR ''/'' s) [])
      in if rooted then CHR ''/'' # join_byte CHR ''/'' ws
         else if ws = [] then ''.'' else join_byte CHR ''/'' ws)"

definition path_join :: "string list \<Rightarrow> string" where
  "path_join elems =
     (let es = filter (\<lambda>e. e \<noteq> []) elems
      in if es = [] then [] else path_clean (join_byte CHR ''/'' es))"

definition clean_word :: "string \<Rightarrow> bool" where
  "clean_word w \<longleftrightarrow> w \<noteq> [] \<and> w \<noteq> ''.'' \<and> w \<noteq> ''..'' \<and> CHR ''/'' \<notin> set w"

definition clean_absolute :: "string \<Rightarrow> bool" where
  "clean_absolute s \<longleftrightarrow> (\<exists>ws. s = CHR ''/'' # join_byte CHR ''/'' ws \<and> list_all clean_word ws)"

lemma clean_step_words:
  "list_all clean_word acc \<Longrightarrow> CHR ''/'' \<notin> set w \<Longrightarrow> list_all clean_word (clean_step True w acc)"
  by (cases acc) (auto simp: clean_word_def)

lemma fold_clean_words:
  "list_all clean_word acc \<Longrightarrow> list_all (\<lambda>w. CHR ''/'' \<notin> set w) ws \<Longrightarrow>
    list_all clean_word (fold (clean_step True) ws acc)"
  by (induction ws arbitrary: acc) (auto simp: clean_step_words simp del: clean_step.simps)

lemma path_clean_absolute: "has_prefix s ''/'' \<Longrightarrow> clean_absolute (path_clean s)"
proof -
  assume abs: "has_prefix s ''/''"
  let ?ws = "rev (fold (clean_step True) (split_byte CHR ''/'' s) [])"
  have "list_all (\<lambda>w. CHR ''/'' \<notin> set w) (split_byte CHR ''/'' s)"
    by (auto simp: list_all_iff dest: split_byte_no_sep)
  then have "list_all clean_word (fold (clean_step True) (split_byte CHR ''/'' s) [])"
    by (intro fold_clean_words) simp_all
  then have "list_all clean_word ?ws" by (simp only: list_all_iff set_rev)
  moreover have "path_clean s = CHR ''/'' # join_byte CHR ''/'' ?ws"
    using abs by (simp add: path_clean_def Let_def del: has_prefix_Cons)
  ultimately show ?thesis unfolding clean_absolute_def by blast
qed

lemma clean_absolute_prefix: "clean_absolute s \<Longrightarrow> has_prefix s ''/''"
  by (auto simp: clean_absolute_def)

lemma fold_clean_id:
  "list_all clean_word ws \<Longrightarrow> fold (clean_step rooted) ws acc = rev ws @ acc"
  by (induction ws arbitrary: acc) (auto simp: clean_word_def)

lemma path_clean_id: "clean_absolute s \<Longrightarrow> path_clean s = s"
proof -
  assume "clean_absolute s"
  then obtain ws where s: "s = CHR ''/'' # join_byte CHR ''/'' ws" and ws: "list_all clean_word ws"
    by (auto simp: clean_absolute_def)
  show ?thesis
  proof (cases "ws = []")
    case True
    then show ?thesis by (simp add: s path_clean_def)
  next
    case False
    then have "split_byte CHR ''/'' (join_byte CHR ''/'' ws) = ws"
      using ws by (intro split_join_byte) (auto simp: list_all_iff clean_word_def)
    then show ?thesis using ws by (simp add: s path_clean_def fold_clean_id [simplified] Let_def)
  qed
qed

end
