(* ===== verification/Go_Time.thy ===== *)
theory Go_Time
  imports Otel_Prelude "HOL-Library.Word"
begin

text \<open>
  Go's \<open>time\<close> package as the program uses it. A \<open>time.Time\<close> is an \<^typ>\<open>int\<close>:
  nanoseconds since Go's zero Time (January 1, year 1, UTC), so \<open>IsZero\<close> is equality with 0.
  A \<open>time.Duration\<close> is an int64 of nanoseconds, kept at its width as a \<^typ>\<open>64 word\<close>
  read by \<^const>\<open>sint\<close>: \<open>Sub\<close> saturates at the ends of the int64 range and negation of
  the least duration wraps, as in Go. The seconds field of a Time is itself an int64, which a
  Time leaves only some 292 billion years away from its zero: that overflow is not modelled.
  Neither is the monotonic reading a Time from \<open>time.Now\<close> carries beside the wall clock.
\<close>

type_synonym time = int
type_synonym duration = "64 word"

definition time_is_zero :: "time \<Rightarrow> bool" where
  "time_is_zero t \<longleftrightarrow> t = 0"

definition time_before :: "time \<Rightarrow> time \<Rightarrow> bool" where
  "time_before t u \<longleftrightarrow> t < u"

definition time_add :: "time \<Rightarrow> duration \<Rightarrow> time" where
  "time_add t d = t + sint d"

definition max_duration :: int where "max_duration = 2 ^ 63 - 1"
definition min_duration :: int where "min_duration = - (2 ^ 63)"

definition saturate :: "int \<Rightarrow> int" where
  "saturate i = (if i < min_duration then min_duration else if max_duration < i then max_duration else i)"

definition time_sub :: "time \<Rightarrow> time \<Rightarrow> duration" where
  "time_sub t u = word_of_int (saturate (t - u))"

definition dur_less :: "duration \<Rightarrow> duration \<Rightarrow> bool" where
  "dur_less a b \<longleftrightarrow> sint a < sint b"

text \<open>\<open>time.Unix(0, n)\<close>: the epoch is 62135596800 seconds after the zero Time.\<close>

definition unix_epoch :: time where
  "unix_epoch = 62135596800 * 10 ^ 9"

definition time_unix_nano :: "64 word \<Rightarrow> time" where
  "time_unix_nano n = unix_epoch + sint n"

definition seconds :: "nat \<Rightarrow> duration" where
  "seconds n = word_of_int (int n * 10 ^ 9)"

declare time_is_zero_def [go_time_simps] time_before_def [go_time_simps] time_add_def [go_time_simps]

lemma sint_range: "min_duration \<le> sint (d :: duration)" "sint (d :: duration) \<le> max_duration"
  using sint_greater_eq [of d] sint_less [of d]
  by (simp_all add: min_duration_def max_duration_def)

lemma sint_of_saturated:
  assumes "min_duration \<le> i" and "i \<le> max_duration"
  shows "sint (word_of_int i :: duration) = i"
  using assms by (simp add: sint_sbintrunc' signed_take_bit_int_eq_self min_duration_def max_duration_def)

lemma saturate_range: "min_duration \<le> saturate i" "saturate i \<le> max_duration"
  by (auto simp: saturate_def min_duration_def max_duration_def)

lemma sint_time_sub [go_time_simps]: "sint (time_sub t u) = saturate (t - u)"
  by (simp add: time_sub_def sint_of_saturated saturate_range)

lemma saturate_id: "min_duration \<le> i \<Longrightarrow> i \<le> max_duration \<Longrightarrow> saturate i = i"
  by (simp add: saturate_def)

lemma saturate_mono: "i \<le> j \<Longrightarrow> saturate i \<le> saturate j"
  by (auto simp: saturate_def min_duration_def max_duration_def)

text \<open>Saturation never changes a comparison with a duration that is not the greatest one.\<close>

lemma dur_less_time_sub [go_time_simps]:
  assumes "sint d \<noteq> min_duration"
  shows "dur_less (time_sub t u) d \<longleftrightarrow> t - u < sint d"
  using assms sint_range [of d] by (auto simp: dur_less_def sint_time_sub saturate_def)

lemma time_unix_nano_not_zero [simp]: "\<not> time_is_zero (time_unix_nano n)"
  using sint_range(1) [of n] by (simp add: time_is_zero_def time_unix_nano_def unix_epoch_def min_duration_def)

lemma time_unix_nano_pos: "0 < time_unix_nano n"
  using sint_range(1) [of n] by (simp add: time_unix_nano_def unix_epoch_def min_duration_def)

end
