(* ===== verification/Domain.thy ===== *)
theory Domain
  imports Go_Strings Go_Time
begin

text \<open>
  \<open>internal/domain/domain.go\<close>: signal kinds, samples, stream identifiers, the paths of
  the virtual filesystem with their parser and printer, the retention window and the sample
  budget. The main facts: the parser accepts exactly the printed forms of well-formed paths
  (\<open>parse_path_iff\<close>), how each malformed path is classified, and that a stream
  identifier with path-safe names survives the trip through its path.
\<close>

section \<open>Kinds, samples, stream identifiers\<close>

datatype kind = KindNone | Logs | Metrics

fun kind_string :: "kind \<Rightarrow> string" where
  "kind_string Logs = ''logs''"
| "kind_string Metrics = ''metrics''"
| "kind_string KindNone = ''''"

definition parse_kind :: "string \<Rightarrow> kind \<times> bool" where
  "parse_kind s =
     (if s = ''logs'' then (Logs, True)
      else if s = ''metrics'' then (Metrics, True)
      else (KindNone, False))"

record sample =
  smp_time :: time
  smp_value :: string
  smp_unit :: string

record stream_id =
  sid_namespace :: string
  sid_service :: string
  sid_kind :: kind
  sid_name :: string

record path =
  pth_namespace :: string
  pth_service :: string
  pth_kind :: kind
  pth_name :: string

definition empty_path :: path where
  "empty_path = \<lparr>pth_namespace = [], pth_service = [], pth_kind = KindNone, pth_name = []\<rparr>"

definition stream_path :: "stream_id \<Rightarrow> path" where
  "stream_path i = \<lparr>pth_namespace = sid_namespace i, pth_service = sid_service i,
     pth_kind = sid_kind i, pth_name = sid_name i\<rparr>"

definition path_stream :: "path \<Rightarrow> stream_id" where
  "path_stream p = \<lparr>sid_namespace = pth_namespace p, sid_service = pth_service p,
     sid_kind = pth_kind p, sid_name = pth_name p\<rparr>"

lemma path_stream_inverse [simp]:
  "path_stream (stream_path i) = i" "stream_path (path_stream p) = p"
  by (simp_all add: path_stream_def stream_path_def)

lemma parse_kind_iff: "parse_kind s = (k, True) \<longleftrightarrow> k \<noteq> KindNone \<and> s = kind_string k"
  by (cases k) (auto simp: parse_kind_def)

lemma kind_string_inj: "kind_string k = kind_string l \<Longrightarrow> k = l"
  by (cases k; cases l) auto

text \<open>
  A total order on kinds and stream identifiers (field by field, strings in byte order), so that
  sorted enumerations of a map's keys are available.
\<close>

fun kind_rank :: "kind \<Rightarrow> nat" where
  \<comment> \<open>the \<open>iota\<close> values of the constants\<close>
  "kind_rank KindNone = 0"
| "kind_rank Logs = 1"
| "kind_rank Metrics = 2"

lemma kind_rank_inj: "kind_rank k = kind_rank l \<longleftrightarrow> k = l"
  by (cases k; cases l) auto

instantiation kind :: linorder
begin
definition "k \<le> l \<longleftrightarrow> kind_rank k \<le> kind_rank l"
definition "k < l \<longleftrightarrow> kind_rank k < kind_rank l"
instance by standard (auto simp: less_eq_kind_def less_kind_def kind_rank_inj)
end

definition stream_key :: "'a stream_id_scheme \<Rightarrow> string \<times> string \<times> kind \<times> string \<times> 'a" where
  "stream_key i = (sid_namespace i, sid_service i, sid_kind i, sid_name i, stream_id.more i)"

lemma stream_key_inj: "stream_key i = stream_key j \<longleftrightarrow> i = j"
  by (auto simp: stream_key_def intro: stream_id.equality)

instantiation stream_id_ext :: (linorder) linorder
begin
definition "i \<le> j \<longleftrightarrow> stream_key i \<le> stream_key j"
definition "i < j \<longleftrightarrow> stream_key i < stream_key j"
instance
  by standard (auto simp: less_eq_stream_id_ext_def less_stream_id_ext_def stream_key_inj less_le)
end

section \<open>Depth\<close>

datatype depth = DepthRoot | DepthNamespace | DepthService | DepthKind | DepthStream

fun depth_of :: "nat \<Rightarrow> depth" where
  \<comment> \<open>the conversion \<open>Depth(i)\<close>, for the indices the loop of \<open>ParsePath\<close> reaches\<close>
  "depth_of 0 = DepthRoot"
| "depth_of (Suc 0) = DepthNamespace"
| "depth_of (Suc (Suc 0)) = DepthService"
| "depth_of (Suc (Suc (Suc 0))) = DepthKind"
| "depth_of _ = DepthStream"

definition path_depth :: "path \<Rightarrow> depth" where
  "path_depth p =
     (if pth_name p \<noteq> [] then DepthStream
      else if pth_kind p \<noteq> KindNone then DepthKind
      else if pth_service p \<noteq> [] then DepthService
      else if pth_namespace p \<noteq> [] then DepthNamespace
      else DepthRoot)"

section \<open>Errors\<close>

datatype sentinel = ErrBadPath | ErrNotFound | ErrNotDir | ErrIsDir

fun sentinel_text :: "sentinel \<Rightarrow> string" where
  "sentinel_text ErrBadPath = ''bad path''"
| "sentinel_text ErrNotFound = ''no such file or directory''"
| "sentinel_text ErrNotDir = ''not a directory''"
| "sentinel_text ErrIsDir = ''is a directory''"

text \<open>
  Every error of the package is \<open>fmt.Errorf("...: %w", ..., sentinel)\<close>: the message in
  front and the sentinel it wraps. The three message forms are \<open>%q is not absolute\<close>,
  \<open>%q has an empty component\<close> and the bare path.
\<close>

datatype err_msg = NotAbsolute string | EmptyComponent string | AtPath string

datatype fs_error = FsError (err_msg: err_msg) (err_base: sentinel)

text \<open>The text of an error; \<open>q\<close> is the quoting of \<open>%q\<close>.\<close>

fun msg_text :: "(string \<Rightarrow> string) \<Rightarrow> err_msg \<Rightarrow> string" where
  "msg_text q (NotAbsolute s) = q s @ '' is not absolute''"
| "msg_text q (EmptyComponent s) = q s @ '' has an empty component''"
| "msg_text q (AtPath s) = s"

definition error_text :: "(string \<Rightarrow> string) \<Rightarrow> fs_error \<Rightarrow> string" where
  "error_text q e = msg_text q (err_msg e) @ '': '' @ sentinel_text (err_base e)"

section \<open>Parsing paths\<close>

definition dat_suffix :: string where "dat_suffix = ''.dat''"

definition parse_component :: "string \<Rightarrow> nat \<Rightarrow> string \<Rightarrow> path \<Rightarrow> fs_error + path" where
  "parse_component s i part p =
     (if part = [] then Inl (FsError (EmptyComponent s) ErrBadPath)
      else case depth_of (i + 1) of
        DepthNamespace \<Rightarrow> Inr (p\<lparr>pth_namespace := part\<rparr>)
      | DepthService \<Rightarrow> Inr (p\<lparr>pth_service := part\<rparr>)
      | DepthKind \<Rightarrow>
          (case parse_kind part of (k, ok) \<Rightarrow>
             if \<not> ok then Inl (FsError (AtPath s) ErrNotFound) else Inr (p\<lparr>pth_kind := k\<rparr>))
      | DepthStream \<Rightarrow>
          (if \<not> has_suffix part dat_suffix \<or> length part = length dat_suffix
           then Inl (FsError (AtPath s) ErrNotFound)
           else Inr (p\<lparr>pth_name := trim_suffix part dat_suffix\<rparr>))
      | DepthRoot \<Rightarrow> Inr p)"

fun parse_components :: "string \<Rightarrow> nat \<Rightarrow> string list \<Rightarrow> path \<Rightarrow> fs_error + path" where
  "parse_components s i [] p = Inr p"
| "parse_components s i (part # parts) p =
     bind_result (parse_component s i part p) (parse_components s (Suc i) parts)"

definition parse_path :: "string \<Rightarrow> fs_error + path" where
  "parse_path s =
     (if \<not> has_prefix s ''/'' then Inl (FsError (NotAbsolute s) ErrBadPath)
      else if s = ''/'' then Inr empty_path
      else let parts = split_byte CHR ''/'' (trim_prefix s ''/'') in
        if length parts > 4 then Inl (FsError (AtPath s) ErrNotFound)
        else parse_components s 0 parts empty_path)"

text \<open>Only an absolute path parses, and an error of the parser has a text.\<close>

lemma parse_path_not_empty: "parse_path s = Inr p \<Longrightarrow> s \<noteq> []"
  by (auto simp: parse_path_def split: if_splits)

lemma parse_components_error_text:
  "parse_components s i parts p = Inl e \<Longrightarrow> s \<noteq> [] \<Longrightarrow> msg_text q (err_msg e) \<noteq> []"
  by (induction s i parts p rule: parse_components.induct)
    (auto simp: parse_component_def bind_result_def split: sum.splits if_splits depth.splits prod.splits)

lemma parse_path_error_text:
  assumes "parse_path s = Inl e"
  shows "msg_text q (err_msg e) \<noteq> []"
proof (cases "has_prefix s ''/''")
  case True
  then have "s \<noteq> []" by auto
  with assms True show ?thesis
    by (auto simp: parse_path_def Let_def parse_components_error_text split: if_splits)
qed (use assms in \<open>auto simp: parse_path_def\<close>)

section \<open>Printing paths\<close>

definition path_string :: "path \<Rightarrow> string" where
  "path_string p =
     (if pth_namespace p = [] then ''/''
      else if pth_service p = [] then ''/'' @ pth_namespace p
      else if pth_kind p = KindNone then ''/'' @ pth_namespace p @ ''/'' @ pth_service p
      else if pth_name p = []
        then ''/'' @ pth_namespace p @ ''/'' @ pth_service p @ ''/'' @ kind_string (pth_kind p)
      else ''/'' @ pth_namespace p @ ''/'' @ pth_service p @ ''/'' @ kind_string (pth_kind p) @
        ''/'' @ pth_name p @ dat_suffix)"

definition file_name :: "string \<Rightarrow> string" where
  "file_name stream_name = stream_name @ dat_suffix"

section \<open>Retention\<close>

record window =
  win_duration :: duration

definition cutoff :: "window \<Rightarrow> time \<Rightarrow> time" where
  "cutoff w now = time_add now (- win_duration w)"

record budget =
  max_samples :: int

definition excess :: "budget \<Rightarrow> int \<Rightarrow> int" where
  "excess b n = (if max_samples b \<le> 0 \<or> n \<le> max_samples b then 0 else n - max_samples b)"

lemma excess_nonneg [simp]: "0 \<le> excess b n"
  by (simp add: excess_def)

lemma excess_fits: "0 < max_samples b \<Longrightarrow> n - excess b n \<le> max_samples b"
  by (simp add: excess_def)

text \<open>
  The cutoff is \<open>now - Duration\<close>, except for the least duration, whose negation wraps
  back to itself.
\<close>

lemma sint_uminus_duration:
  assumes "sint (d :: duration) \<noteq> min_duration"
  shows "sint (- d) = - sint d"
proof -
  have "- (2 ^ 63) \<le> - sint d" and "- sint d < 2 ^ 63"
    using assms sint_range [of d] by (auto simp: min_duration_def max_duration_def)
  then have "signed_take_bit 63 (- sint d) = - sint d"
    by (intro signed_take_bit_int_eq_self) auto
  then show ?thesis by (simp add: sint_word_minus)
qed

lemma cutoff_eq: "sint (win_duration w) \<noteq> min_duration \<Longrightarrow> cutoff w now = now - sint (win_duration w)"
  by (simp add: cutoff_def time_add_def sint_uminus_duration)

section \<open>The parser accepts exactly the printed paths\<close>

definition slash_free :: "string \<Rightarrow> bool" where
  "slash_free w \<longleftrightarrow> CHR ''/'' \<notin> set w"

definition path_wf :: "path \<Rightarrow> bool" where
  \<comment> \<open>unset fields are trailing, and no name contains a slash\<close>
  "path_wf p \<longleftrightarrow>
     slash_free (pth_namespace p) \<and> slash_free (pth_service p) \<and> slash_free (pth_name p) \<and>
     (pth_namespace p = [] \<longrightarrow> pth_service p = []) \<and>
     (pth_service p = [] \<longrightarrow> pth_kind p = KindNone) \<and>
     (pth_kind p = KindNone \<longrightarrow> pth_name p = [])"

definition path_parts :: "path \<Rightarrow> string list" where
  "path_parts p =
     (if pth_namespace p = [] then []
      else if pth_service p = [] then [pth_namespace p]
      else if pth_kind p = KindNone then [pth_namespace p, pth_service p]
      else if pth_name p = [] then [pth_namespace p, pth_service p, kind_string (pth_kind p)]
      else [pth_namespace p, pth_service p, kind_string (pth_kind p), pth_name p @ dat_suffix])"

lemma path_string_parts: "path_string p = CHR ''/'' # join_byte CHR ''/'' (path_parts p)"
  by (simp add: path_string_def path_parts_def)

lemma path_string_absolute [simp]: "has_prefix (path_string p) ''/''"
  by (simp add: path_string_parts)

lemma slash_free_kind [simp]: "slash_free (kind_string k)"
  by (cases k) (simp_all add: slash_free_def)

lemma slash_free_dat [simp]: "slash_free (w @ dat_suffix) \<longleftrightarrow> slash_free w"
  by (simp add: slash_free_def dat_suffix_def)

lemma path_parts_slash_free: "path_wf p \<Longrightarrow> \<forall>w\<in>set (path_parts p). slash_free w"
  by (simp add: path_parts_def path_wf_def)

lemma path_parts_nonempty: "w \<in> set (path_parts p) \<Longrightarrow> w \<noteq> []"
  by (cases "pth_kind p") (auto simp: path_parts_def split: if_splits)

lemma split_path_parts:
  assumes "path_wf p" and "path_parts p \<noteq> []"
  shows "split_byte CHR ''/'' (join_byte CHR ''/'' (path_parts p)) = path_parts p"
  using assms path_parts_slash_free [OF assms(1)] by (intro split_join_byte) (auto simp: slash_free_def)

lemma path_string_root_iff: "path_string p = ''/'' \<longleftrightarrow> path_parts p = []"
  by (simp add: path_string_def path_parts_def)

lemma parse_kind_of_string [simp]: "k \<noteq> KindNone \<Longrightarrow> parse_kind (kind_string k) = (k, True)"
  by (cases k) (simp_all add: parse_kind_def)

lemma kind_string_eq_Nil [simp]: "kind_string k = [] \<longleftrightarrow> k = KindNone"
  by (cases k) simp_all

lemma length_path_parts: "length (path_parts p) \<le> 4"
  by (simp add: path_parts_def)

lemma parse_components_parts:
  assumes "path_wf p"
  shows "parse_components s 0 (path_parts p) empty_path = Inr p"
  using assms
  by (cases p) (auto simp: path_parts_def parse_component_def empty_path_def path_wf_def dat_suffix_def)

lemma parse_path_path_string:
  assumes "path_wf p"
  shows "parse_path (path_string p) = Inr p"
proof (cases "path_parts p = []")
  case True
  then have "path_string p = ''/''" by (simp add: path_string_root_iff)
  moreover have "p = empty_path"
    using True assms by (cases p) (auto simp: path_parts_def path_wf_def empty_path_def split: if_splits)
  ultimately show ?thesis by (simp add: parse_path_def)
next
  case False
  then have "path_string p \<noteq> ''/''" by (simp add: path_string_root_iff)
  with False assms show ?thesis
    by (simp add: parse_path_def path_string_parts split_path_parts length_path_parts
        parse_components_parts not_less Let_def)
qed

lemma parse_component_namespace:
  "parse_component s 0 part p = Inr q \<longleftrightarrow> part \<noteq> [] \<and> q = p\<lparr>pth_namespace := part\<rparr>"
  by (auto simp: parse_component_def)

lemma parse_component_service:
  "parse_component s (Suc 0) part p = Inr q \<longleftrightarrow> part \<noteq> [] \<and> q = p\<lparr>pth_service := part\<rparr>"
  by (auto simp: parse_component_def)

lemma parse_component_kind:
  "parse_component s (Suc (Suc 0)) part p = Inr q \<longleftrightarrow>
    (\<exists>k. k \<noteq> KindNone \<and> part = kind_string k \<and> q = p\<lparr>pth_kind := k\<rparr>)"
proof (cases "parse_kind part")
  case (Pair k ok)
  show ?thesis
  proof (cases ok)
    case True
    with Pair have "k \<noteq> KindNone \<and> part = kind_string k" by (simp add: parse_kind_iff [symmetric])
    then show ?thesis by (auto simp: parse_component_def dest: kind_string_inj)
  next
    case False
    with Pair have "\<not> (k' \<noteq> KindNone \<and> part = kind_string k')" for k'
      by (auto simp: parse_kind_iff [symmetric])
    with Pair False show ?thesis by (auto simp: parse_component_def)
  qed
qed

lemma has_dat_suffix_iff:
  "has_suffix part dat_suffix \<and> length part \<noteq> length dat_suffix \<longleftrightarrow>
    (\<exists>n. n \<noteq> [] \<and> part = n @ dat_suffix)"
  by (auto simp: has_suffix_iff)

lemma parse_component_stream:
  "parse_component s (Suc (Suc (Suc 0))) part p = Inr q \<longleftrightarrow>
    (\<exists>n. n \<noteq> [] \<and> part = n @ dat_suffix \<and> q = p\<lparr>pth_name := n\<rparr>)"
proof (cases "\<exists>n. n \<noteq> [] \<and> part = n @ dat_suffix")
  case True
  then obtain n where n: "n \<noteq> []" "part = n @ dat_suffix" by blast
  then have "parse_component s (Suc (Suc (Suc 0))) part p = Inr (p\<lparr>pth_name := n\<rparr>)"
    by (simp add: parse_component_def)
  with n show ?thesis by auto
next
  case False
  then have "\<not> has_suffix part dat_suffix \<or> length part = length dat_suffix"
    using has_dat_suffix_iff [of part] by blast
  with False show ?thesis by (auto simp: parse_component_def)
qed

lemmas parse_component_Inr =
  parse_component_namespace parse_component_service parse_component_kind parse_component_stream

lemma parse_components_Inr_parts:
  assumes ok: "parse_components s 0 parts empty_path = Inr p"
    and parts: "parts \<noteq> []" "length parts \<le> 4" "\<forall>w\<in>set parts. slash_free w"
  shows "path_wf p \<and> path_parts p = parts"
proof -
  have "length parts = 1 \<or> length parts = 2 \<or> length parts = 3 \<or> length parts = 4"
    using parts(1,2) by (simp flip: length_greater_0_conv) arith
  then consider (one) a where "parts = [a]" | (two) a b where "parts = [a, b]"
    | (three) a b c where "parts = [a, b, c]" | (four) a b c d where "parts = [a, b, c, d]"
    by (auto simp: length_Suc_conv numeral_eq_Suc)
  then show ?thesis
    using ok parts(3)
    by cases (clarsimp simp: bind_result_Inr_iff parse_component_Inr path_wf_def path_parts_def
        empty_path_def slash_free_def)+
qed

lemma parse_path_Inr:
  assumes "parse_path s = Inr p"
  shows "path_wf p \<and> path_string p = s"
proof -
  from assms obtain t where s: "s = CHR ''/'' # t"
    by (auto simp: parse_path_def split: if_splits)
  show ?thesis
  proof (cases "t = []")
    case True
    with assms s show ?thesis
      by (auto simp: parse_path_def path_wf_def empty_path_def path_string_def slash_free_def)
  next
    case False
    let ?parts = "split_byte CHR ''/'' t"
    have "length ?parts \<le> 4" and "parse_components s 0 ?parts empty_path = Inr p"
      using assms s False by (auto simp: parse_path_def Let_def split: if_splits)
    then have "path_wf p \<and> path_parts p = ?parts"
      by (intro parse_components_Inr_parts) (auto simp: slash_free_def dest: split_byte_no_sep)
    then show ?thesis using s by (simp add: path_string_parts)
  qed
qed

lemma parse_path_iff: "parse_path s = Inr p \<longleftrightarrow> path_wf p \<and> path_string p = s"
  using parse_path_Inr parse_path_path_string by blast

lemma path_string_inj: "path_wf p \<Longrightarrow> path_wf q \<Longrightarrow> path_string p = path_string q \<Longrightarrow> p = q"
  by (metis parse_path_path_string Inr_inject)

section \<open>Which paths are rejected, and how\<close>

definition component_bad :: "nat \<Rightarrow> string \<Rightarrow> bool" where
  \<comment> \<open>what no path of the layout has at position \<open>i\<close>\<close>
  "component_bad i part \<longleftrightarrow> part = [] \<or>
     i = 2 \<and> part \<noteq> ''logs'' \<and> part \<noteq> ''metrics'' \<or>
     i = 3 \<and> \<not> (has_suffix part dat_suffix \<and> length part \<noteq> length dat_suffix)"

definition component_error :: "string \<Rightarrow> string \<Rightarrow> fs_error" where
  "component_error s part =
     (if part = [] then FsError (EmptyComponent s) ErrBadPath else FsError (AtPath s) ErrNotFound)"

lemma parse_component_Inl:
  assumes "i < 4"
  shows "parse_component s i part p = Inl e \<longleftrightarrow> component_bad i part \<and> e = component_error s part"
proof -
  have "i = 0 \<or> i = Suc 0 \<or> i = Suc (Suc 0) \<or> i = Suc (Suc (Suc 0))" using assms by arith
  then show ?thesis
    by (elim disjE) (auto simp: parse_component_def component_bad_def component_error_def parse_kind_def)
qed

fun first_bad :: "nat \<Rightarrow> string list \<Rightarrow> string option" where
  "first_bad i [] = None"
| "first_bad i (w # ws) = (if component_bad i w then Some w else first_bad (Suc i) ws)"

lemma parse_components_Inl:
  assumes "i + length parts \<le> 4"
  shows "parse_components s i parts p = Inl e \<longleftrightarrow>
    (\<exists>w. first_bad i parts = Some w \<and> e = component_error s w)"
  using assms
proof (induction parts arbitrary: i p)
  case Nil
  then show ?case by simp
next
  case (Cons part parts)
  show ?case
  proof (cases "parse_component s i part p")
    case (Inl e')
    with Cons.prems have "component_bad i part" and "e' = component_error s part"
      using parse_component_Inl [of i s part p e'] by auto
    then show ?thesis using Inl by auto
  next
    case (Inr q)
    with Cons.prems have "\<not> component_bad i part"
      using parse_component_Inl [of i s part p "component_error s part"] by auto
    then show ?thesis using Inr Cons by simp
  qed
qed

text \<open>The level a well-formed path points at is the number of its components.\<close>

lemma path_depth_parts: "path_wf p \<Longrightarrow> path_depth p = depth_of (length (path_parts p))"
  by (auto simp: path_depth_def path_parts_def path_wf_def numeral_eq_Suc)

lemma path_depth_stream_iff: "path_depth p = DepthStream \<longleftrightarrow> pth_name p \<noteq> []"
  by (simp add: path_depth_def)

definition stream_wf :: "stream_id \<Rightarrow> bool" where
  \<comment> \<open>the identifiers whose file can be addressed\<close>
  "stream_wf i \<longleftrightarrow> sid_namespace i \<noteq> [] \<and> sid_service i \<noteq> [] \<and> sid_kind i \<noteq> KindNone \<and>
     sid_name i \<noteq> [] \<and>
     slash_free (sid_namespace i) \<and> slash_free (sid_service i) \<and> slash_free (sid_name i)"

lemma stream_wf_path: "stream_wf i \<longleftrightarrow> path_wf (stream_path i) \<and> path_depth (stream_path i) = DepthStream"
  by (auto simp: stream_wf_def path_wf_def stream_path_def path_depth_stream_iff)

lemma stream_path_parse: "stream_wf i \<Longrightarrow> parse_path (path_string (stream_path i)) = Inr (stream_path i)"
  by (simp add: parse_path_path_string stream_wf_path)

section \<open>Properties\<close>

text \<open>
  C13: \<open>ParsePath\<close> accepts exactly the printed forms of the well-formed paths: it returns
  \<open>p\<close> for \<open>s\<close> if and only if \<open>p\<close> is well formed and \<open>p.String()\<close> is \<open>s\<close>.
  So parsing and printing are inverse to each other, in both directions, and everything that is
  not the printed form of a path of the layout is rejected.
\<close>

theorem parse_path_exact: "parse_path s = Inr p \<longleftrightarrow> path_wf p \<and> path_string p = s"
  by (rule parse_path_iff)

text \<open>
  The error of \<open>ParsePath\<close> on every rejected input. A path that does not start with a
  slash is a bad path; one with more than four components does not exist; otherwise the first
  component that fits no path of the layout decides: a bad path if it is empty, not found if it
  is a third signal kind or a file without a name and \<open>.dat\<close>.
\<close>

theorem parse_path_errors:
  "parse_path s = Inl e \<longleftrightarrow>
     \<not> has_prefix s ''/'' \<and> e = FsError (NotAbsolute s) ErrBadPath \<or>
     (\<exists>t. s = ''/'' @ t \<and> t \<noteq> [] \<and> 4 < length (split_byte CHR ''/'' t) \<and>
        e = FsError (AtPath s) ErrNotFound) \<or>
     (\<exists>t. s = ''/'' @ t \<and> t \<noteq> [] \<and> length (split_byte CHR ''/'' t) \<le> 4 \<and>
        (\<exists>w. first_bad 0 (split_byte CHR ''/'' t) = Some w \<and> e = component_error s w))"
proof (cases "\<exists>t. s = ''/'' @ t \<and> t \<noteq> []")
  case True
  then obtain t where t: "s = ''/'' @ t" "t \<noteq> []" by blast
  show ?thesis
    using parse_components_Inl [of 0 "split_byte CHR ''/'' t" s empty_path e] t
    by (cases "length (split_byte CHR ''/'' t) \<le> 4") (auto simp: parse_path_def Let_def)
next
  case False
  then show ?thesis by (auto simp: parse_path_def)
qed

end
