(* ===== verification/Sample_Log.thy ===== *)
theory Sample_Log
  imports Domain "HOL-Library.Multiset"
begin

text \<open>
  The abstract specification of a sample store. A log gives, for every stream identifier, the
  samples held, oldest first. A store promises three things of it: a new sample goes after every
  sample that is not newer (\<open>log_insert\<close>), retention by time keeps exactly what is not older
  than the cutoff (\<open>log_keep\<close>), and dropping the oldest removes an old end of each stream such
  that nothing removed is newer than anything kept (\<open>forgets_oldest\<close>).
\<close>

type_synonym log = "stream_id \<Rightarrow> sample list"

abbreviation time_sorted :: "sample list \<Rightarrow> bool" where
  "time_sorted ss \<equiv> sorted (map smp_time ss)"

definition log_wf :: "log \<Rightarrow> bool" where
  "log_wf f \<longleftrightarrow> finite {i. f i \<noteq> []} \<and> (\<forall>i. time_sorted (f i))"

definition log_size :: "log \<Rightarrow> int" where
  "log_size f = (\<Sum>i\<in>{i. f i \<noteq> []}. int (length (f i)))"

definition insert_sample :: "sample \<Rightarrow> sample list \<Rightarrow> sample list" where
  "insert_sample smp ss =
     takeWhile (\<lambda>x. smp_time x \<le> smp_time smp) ss @ smp #
     dropWhile (\<lambda>x. smp_time x \<le> smp_time smp) ss"

definition log_insert :: "stream_id \<Rightarrow> sample \<Rightarrow> log \<Rightarrow> log" where
  "log_insert i smp f = f(i := insert_sample smp (f i))"

definition log_keep :: "time \<Rightarrow> log \<Rightarrow> log" where
  "log_keep c f = (\<lambda>i. filter (\<lambda>x. c \<le> smp_time x) (f i))"

definition forgets_oldest :: "log \<Rightarrow> log \<Rightarrow> bool" where
  "forgets_oldest f g \<longleftrightarrow>
     (\<exists>k. g = (\<lambda>i. drop (k i) (f i)) \<and>
       (\<forall>i j. \<forall>x\<in>set (take (k i) (f i)). \<forall>y\<in>set (g j). smp_time x \<le> smp_time y))"

section \<open>Inserting\<close>

lemma length_insert_sample [simp]: "length (insert_sample smp ss) = Suc (length ss)"
proof -
  have "length (takeWhile P ss) + length (dropWhile P ss) = length ss" for P
    by (metis length_append takeWhile_dropWhile_id)
  then show ?thesis by (simp add: insert_sample_def)
qed

lemma insert_sample_not_Nil [simp]: "insert_sample smp ss \<noteq> []"
  by (simp add: insert_sample_def)

lemma set_insert_sample [simp]: "set (insert_sample smp ss) = insert smp (set ss)"
proof -
  have "set ss = set (takeWhile P ss) \<union> set (dropWhile P ss)" for P
    by (metis set_append takeWhile_dropWhile_id)
  then show ?thesis by (auto simp: insert_sample_def)
qed

lemma time_sorted_insert_sample:
  assumes "time_sorted ss"
  shows "time_sorted (insert_sample smp ss)"
proof -
  let ?P = "\<lambda>x. smp_time x \<le> smp_time smp"
  obtain xs ys where xs: "xs = takeWhile ?P ss" and ys: "ys = dropWhile ?P ss" by blast
  have "time_sorted (xs @ ys)" using assms by (simp add: xs ys)
  then have sorted: "time_sorted xs" "time_sorted ys" by (simp_all add: sorted_append)
  have "\<forall>x\<in>set xs. ?P x" by (auto simp: xs dest: set_takeWhileD)
  moreover have "\<forall>y\<in>set ys. smp_time smp \<le> smp_time y"
  proof (cases ys)
    case (Cons z zs)
    then have "\<not> ?P z" using hd_dropWhile [of ?P ss] ys by simp
    with Cons sorted show ?thesis by auto
  qed simp
  ultimately show ?thesis
    using sorted by (fastforce simp: insert_sample_def sorted_append xs [symmetric] ys [symmetric])
qed

lemma insert_sample_newest:
  "\<forall>x\<in>set ss. smp_time x \<le> smp_time smp \<Longrightarrow> insert_sample smp ss = ss @ [smp]"
  by (simp add: insert_sample_def)

lemma log_insert_apply:
  "log_insert i smp f j = (if j = i then insert_sample smp (f i) else f j)"
  by (simp add: log_insert_def)

lemma log_wf_insert: "log_wf f \<Longrightarrow> log_wf (log_insert i smp f)"
proof -
  assume wf: "log_wf f"
  have "{j. log_insert i smp f j \<noteq> []} = insert i {j. f j \<noteq> []}" by (auto simp: log_insert_apply)
  with wf show ?thesis by (auto simp: log_wf_def log_insert_apply time_sorted_insert_sample)
qed

lemma log_size_insert:
  assumes "log_wf f"
  shows "log_size (log_insert i smp f) = log_size f + 1"
proof -
  let ?S = "{j. f j \<noteq> []}"
  have fin: "finite ?S" using assms by (simp add: log_wf_def)
  have dom: "{j. log_insert i smp f j \<noteq> []} = insert i (?S - {i})" by (auto simp: log_insert_apply)
  have eq: "(\<Sum>j\<in>?S - {i}. int (length (log_insert i smp f j))) = (\<Sum>j\<in>?S - {i}. int (length (f j)))"
    by (rule sum.cong) (auto simp: log_insert_apply)
  have "log_size f = int (length (f i)) + (\<Sum>j\<in>?S - {i}. int (length (f j)))"
    using fin by (cases "f i = []") (auto simp: log_size_def sum.remove [of _ i])
  with fin eq show ?thesis
    unfolding log_size_def dom by (subst sum.insert) (auto simp: log_insert_apply)
qed

section \<open>Keeping what is recent\<close>

lemma time_sorted_filter: "time_sorted ss \<Longrightarrow> time_sorted (filter P ss)"
  by (simp add: sorted_wrt_map sorted_wrt_filter)

lemma log_wf_keep: "log_wf f \<Longrightarrow> log_wf (log_keep c f)"
  unfolding log_wf_def log_keep_def
  by (auto intro: time_sorted_filter finite_subset [of _ "{i. f i \<noteq> []}"])

section \<open>Forgetting the oldest\<close>

lemma forgets_oldest_refl [simp]: "forgets_oldest f f"
  by (auto simp: forgets_oldest_def intro: exI [of _ "\<lambda>_. 0"])

lemma forgets_oldest_trans:
  assumes "forgets_oldest f g" and "forgets_oldest g h"
  shows "forgets_oldest f h"
proof -
  obtain k where k: "g = (\<lambda>i. drop (k i) (f i))"
    "\<And>i j x y. x \<in> set (take (k i) (f i)) \<Longrightarrow> y \<in> set (g j) \<Longrightarrow> smp_time x \<le> smp_time y"
    using assms(1) unfolding forgets_oldest_def by blast
  obtain l where l: "h = (\<lambda>i. drop (l i) (g i))"
    "\<And>i j x y. x \<in> set (take (l i) (g i)) \<Longrightarrow> y \<in> set (h j) \<Longrightarrow> smp_time x \<le> smp_time y"
    using assms(2) unfolding forgets_oldest_def by blast
  have "h = (\<lambda>i. drop (k i + l i) (f i))" by (simp add: l(1) k(1) add.commute)
  moreover have "smp_time x \<le> smp_time y"
    if "x \<in> set (take (k i + l i) (f i))" and "y \<in> set (h j)" for i j x y
  proof -
    have "y \<in> set (g j)" using that(2) l(1) by (auto dest: in_set_dropD)
    moreover have "x \<in> set (take (k i) (f i)) \<or> x \<in> set (take (l i) (g i))"
      using that(1) by (auto simp: take_add k(1))
    ultimately show ?thesis using k(2) l(2) that(2) by blast
  qed
  ultimately show ?thesis unfolding forgets_oldest_def by (intro exI [of _ "\<lambda>i. k i + l i"]) blast
qed

lemma forgets_oldest_kept:
  assumes "forgets_oldest f g"
  shows "\<exists>k. g i = drop k (f i)"
  using assms unfolding forgets_oldest_def by auto

lemma forgets_oldest_older:
  assumes "forgets_oldest f g" and "x \<in> set (f i)" and "x \<notin> set (g i)" and "y \<in> set (g j)"
  shows "smp_time x \<le> smp_time y"
proof -
  obtain k where k: "g = (\<lambda>i. drop (k i) (f i))"
    "\<And>i j x y. x \<in> set (take (k i) (f i)) \<Longrightarrow> y \<in> set (g j) \<Longrightarrow> smp_time x \<le> smp_time y"
    using assms(1) unfolding forgets_oldest_def by blast
  have "x \<in> set (take (k i) (f i)) \<or> x \<in> set (drop (k i) (f i))"
    using assms(2) by (metis Un_iff append_take_drop_id set_append)
  with k assms(3,4) show ?thesis by auto
qed

lemma log_wf_forgets: "log_wf f \<Longrightarrow> forgets_oldest f g \<Longrightarrow> log_wf g"
  unfolding log_wf_def forgets_oldest_def
  by (auto intro: sorted_map_drop finite_subset [of _ "{i. f i \<noteq> []}"])

text \<open>Removing the head of a stream whose head is the oldest of all.\<close>

lemma forgets_oldest_head:
  assumes "f i = x # ss" and "\<And>j. time_sorted (f j)"
    and "\<And>j y ys. f j = y # ys \<Longrightarrow> smp_time x \<le> smp_time y"
  shows "forgets_oldest f (f(i := ss))"
proof -
  have older: "smp_time x \<le> smp_time y" if "y \<in> set (f j)" for j y
  proof -
    obtain z zs where z: "f j = z # zs" using \<open>y \<in> set (f j)\<close> by (cases "f j") auto
    then have "smp_time x \<le> smp_time z" by (rule assms(3))
    also have "smp_time z \<le> smp_time y" using assms(2) [of j] that z by auto
    finally show ?thesis .
  qed
  have "f(i := ss) = (\<lambda>j. drop (if j = i then 1 else 0) (f j))" using assms(1) by auto
  moreover have "smp_time u \<le> smp_time y"
    if "u \<in> set (take (if j = i then 1 else 0) (f j))" and "y \<in> set ((f(i := ss)) l)" for j l u y
  proof -
    have "u = x" using that(1) assms(1) by (auto split: if_splits)
    moreover have "y \<in> set (f l)" using that(2) assms(1) by (auto split: if_splits)
    ultimately show ?thesis using older by blast
  qed
  ultimately show ?thesis
    unfolding forgets_oldest_def by (intro exI [of _ "\<lambda>j. if j = i then 1 else 0"] conjI) blast+
qed

section \<open>The samples of a log as a multiset\<close>

definition log_samples :: "log \<Rightarrow> (stream_id \<times> sample) multiset" where
  "log_samples f = (\<Sum>i\<in>{i. f i \<noteq> []}. mset (map (Pair i) (f i)))"

lemma log_samples_superset:
  assumes "finite A" and "{i. f i \<noteq> []} \<subseteq> A"
  shows "log_samples f = (\<Sum>i\<in>A. mset (map (Pair i) (f i)))"
  unfolding log_samples_def by (rule sum.mono_neutral_left [OF assms]) auto

lemma log_samples_empty [simp]: "log_samples (\<lambda>_. []) = {#}"
  by (simp add: log_samples_def)

lemma in_log_samples: "log_wf f \<Longrightarrow> (i, x) \<in># log_samples f \<longleftrightarrow> x \<in> set (f i)"
  by (auto simp: log_samples_def log_wf_def set_mset_sum intro!: exI [of _ i])

lemma size_log_samples: "log_wf f \<Longrightarrow> int (size (log_samples f)) = log_size f"
  by (simp add: log_samples_def log_size_def log_wf_def)

lemma mset_insert_sample: "mset (insert_sample smp ss) = add_mset smp (mset ss)"
proof -
  have "mset (takeWhile P ss) + mset (dropWhile P ss) = mset ss" for P
    by (metis mset_append takeWhile_dropWhile_id)
  then show ?thesis by (simp add: insert_sample_def)
qed

lemma log_samples_insert:
  assumes "log_wf f"
  shows "log_samples (log_insert i smp f) = add_mset (i, smp) (log_samples f)"
proof -
  let ?A = "insert i {j. f j \<noteq> []}"
  have fin: "finite ?A" using assms by (simp add: log_wf_def)
  have "log_samples (log_insert i smp f) = (\<Sum>j\<in>?A. mset (map (Pair j) (log_insert i smp f j)))"
    by (rule log_samples_superset [OF fin]) (auto simp: log_insert_apply)
  also have "\<dots> = mset (map (Pair i) (insert_sample smp (f i))) +
      (\<Sum>j\<in>?A - {i}. mset (map (Pair j) (log_insert i smp f j)))"
    using fin by (subst sum.remove [of _ i]) (auto simp: log_insert_apply)
  also have "(\<Sum>j\<in>?A - {i}. mset (map (Pair j) (log_insert i smp f j))) =
      (\<Sum>j\<in>?A - {i}. mset (map (Pair j) (f j)))"
    by (rule sum.cong) (auto simp: log_insert_apply)
  also have "mset (map (Pair i) (insert_sample smp (f i))) = add_mset (i, smp) (mset (map (Pair i) (f i)))"
    by (simp add: mset_insert_sample)
  also have "add_mset (i, smp) (mset (map (Pair i) (f i))) + (\<Sum>j\<in>?A - {i}. mset (map (Pair j) (f j))) =
      add_mset (i, smp) (\<Sum>j\<in>?A. mset (map (Pair j) (f j)))"
    using fin by (subst sum.remove [of ?A i]) auto
  also have "(\<Sum>j\<in>?A. mset (map (Pair j) (f j))) = log_samples f"
    by (rule log_samples_superset [OF fin, symmetric]) auto
  finally show ?thesis .
qed

text \<open>What is forgotten is older than all that is kept.\<close>

lemma forgets_oldest_samples:
  assumes "log_wf f" and "forgets_oldest f g"
  shows "\<exists>gone. log_samples f = log_samples g + gone \<and>
    (\<forall>(i, x)\<in>#gone. \<forall>(j, y)\<in>#log_samples g. smp_time x \<le> smp_time y)"
proof -
  obtain k where k: "g = (\<lambda>i. drop (k i) (f i))"
    "\<And>i j x y. x \<in> set (take (k i) (f i)) \<Longrightarrow> y \<in> set (g j) \<Longrightarrow> smp_time x \<le> smp_time y"
    using assms(2) unfolding forgets_oldest_def by blast
  let ?A = "{i. f i \<noteq> []}"
  let ?gone = "\<Sum>i\<in>?A. mset (map (Pair i) (take (k i) (f i)))"
  have fin: "finite ?A" using assms(1) by (simp add: log_wf_def)
  have "mset (map (Pair i) (f i)) = mset (map (Pair i) (g i)) + mset (map (Pair i) (take (k i) (f i)))" for i
    unfolding k(1) by (metis append_take_drop_id map_append mset_append union_commute)
  then have "log_samples f = (\<Sum>i\<in>?A. mset (map (Pair i) (g i))) + ?gone"
    by (simp add: log_samples_def sum.distrib)
  also have "(\<Sum>i\<in>?A. mset (map (Pair i) (g i))) = log_samples g"
    by (rule log_samples_superset [OF fin, symmetric]) (auto simp: k(1))
  finally have eq: "log_samples f = log_samples g + ?gone" .
  have "smp_time x \<le> smp_time y" if "(i, x) \<in># ?gone" and "(j, y) \<in># log_samples g" for i j x y
  proof (rule k(2))
    show "x \<in> set (take (k i) (f i))" using that(1) fin by (auto simp: set_mset_sum)
    show "y \<in> set (g j)" using that(2) in_log_samples [OF log_wf_forgets [OF assms]] by blast
  qed
  with eq show ?thesis by blast
qed

end
