(* ===== verification/Ingest.thy ===== *)
theory Ingest
  imports Sample_Log
begin

text \<open>
  \<open>internal/usecase/ingest.go\<close>: the ingester, which stores a sample and trims the store back
  into its budget, and the evictor, which applies the retention window. The store is reached
  through two narrow interfaces, \<open>AppendStore\<close> and \<open>PruneStore\<close>; each is a locale whose
  assumptions are what its comments promise, stated over the log a store represents, and the
  lemmas about the use cases are proved from them.
\<close>

section \<open>The use cases\<close>

definition ingester_ingest ::
  "(stream_id \<Rightarrow> sample \<Rightarrow> 's \<Rightarrow> 's) \<Rightarrow> ('s \<Rightarrow> int) \<Rightarrow> (int \<Rightarrow> 's \<Rightarrow> (int \<times> 's) option) \<Rightarrow>
   budget \<Rightarrow> stream_id \<Rightarrow> sample \<Rightarrow> 's \<Rightarrow> 's option" where
  \<comment> \<open>\<^const>\<open>None\<close> is a panic of the store\<close>
  "ingester_ingest append_smp cnt drop_oldest b i smp st =
     (let st = append_smp i smp st; n = excess b (cnt st)
      in if n > 0 then map_option snd (drop_oldest n st) else Some st)"

definition evictor_run :: "(time \<Rightarrow> 's \<Rightarrow> int \<times> 's) \<Rightarrow> window \<Rightarrow> time \<Rightarrow> 's \<Rightarrow> int \<times> 's" where
  "evictor_run drop_before w now st = drop_before (cutoff w now) st"

fun ingest_all :: "(stream_id \<Rightarrow> sample \<Rightarrow> 's \<Rightarrow> 's option) \<Rightarrow> (stream_id \<times> sample) list \<Rightarrow> 's \<Rightarrow> 's option" where
  \<comment> \<open>a sequence of calls, stopped by a panic\<close>
  "ingest_all ing [] st = Some st"
| "ingest_all ing ((i, smp) # xs) st =
     (case ing i smp st of None \<Rightarrow> None | Some st' \<Rightarrow> ingest_all ing xs st')"

section \<open>The interfaces\<close>

locale append_store =
  fixes append_smp :: "stream_id \<Rightarrow> sample \<Rightarrow> 's \<Rightarrow> 's"
    and cnt :: "'s \<Rightarrow> int"
    and drop_oldest :: "int \<Rightarrow> 's \<Rightarrow> (int \<times> 's) option"
    and inv :: "'s \<Rightarrow> bool"
    and log :: "'s \<Rightarrow> log"
  assumes inv_log_wf: "inv st \<Longrightarrow> log_wf (log st)"
    and count_log: "inv st \<Longrightarrow> cnt st = log_size (log st)"
    and inv_append: "inv st \<Longrightarrow> inv (append_smp i smp st)"
    and log_append: "inv st \<Longrightarrow> log (append_smp i smp st) = log_insert i smp (log st)"
    and drop_oldest_spec: "inv st \<Longrightarrow> \<exists>st'. drop_oldest n st = Some (min (max 0 n) (cnt st), st') \<and>
      inv st' \<and> cnt st' = cnt st - min (max 0 n) (cnt st) \<and> forgets_oldest (log st) (log st')"
begin

lemma count_append: "inv st \<Longrightarrow> cnt (append_smp i smp st) = cnt st + 1"
  by (simp add: count_log inv_append log_append log_size_insert inv_log_wf)

lemma count_nonneg: "inv st \<Longrightarrow> 0 \<le> cnt st"
  by (simp add: count_log log_size_def sum_nonneg)

lemma ingest_ok:
  assumes "inv st"
  shows "\<exists>st'. ingester_ingest append_smp cnt drop_oldest b i smp st = Some st' \<and> inv st' \<and>
    cnt st' = cnt st + 1 - excess b (cnt st + 1) \<and>
    forgets_oldest (log_insert i smp (log st)) (log st') \<and>
    (excess b (cnt st + 1) = 0 \<longrightarrow> log st' = log_insert i smp (log st))"
proof (cases "excess b (cnt st + 1) > 0")
  case False
  then have "excess b (cnt st + 1) = 0" using excess_nonneg [of b "cnt st + 1"] by linarith
  with assms show ?thesis
    by (simp add: ingester_ingest_def Let_def count_append inv_append log_append)
next
  case True
  have le: "excess b (cnt st + 1) \<le> cnt st + 1"
    using count_nonneg [OF assms] by (auto simp: excess_def)
  obtain st' where "drop_oldest (excess b (cnt st + 1)) (append_smp i smp st) =
      Some (min (max 0 (excess b (cnt st + 1))) (cnt st + 1), st')" "inv st'"
    "cnt st' = cnt st + 1 - min (max 0 (excess b (cnt st + 1))) (cnt st + 1)"
    "forgets_oldest (log_insert i smp (log st)) (log st')"
    using drop_oldest_spec [OF inv_append [OF assms], of "excess b (cnt st + 1)" i smp] assms
    by (auto simp: count_append log_append)
  with True le assms show ?thesis
    by (simp add: ingester_ingest_def Let_def count_append)
qed

lemma ingest_budget:
  assumes "inv st" and "0 < max_samples b"
  shows "\<exists>st'. ingester_ingest append_smp cnt drop_oldest b i smp st = Some st' \<and> inv st' \<and>
    cnt st' = min (cnt st + 1) (max_samples b)"
  using ingest_ok [OF assms(1), of b i smp] assms(2) by (auto simp: excess_def min_def)

lemma ingest_all_ok:
  assumes "inv st"
  shows "\<exists>st'. ingest_all (ingester_ingest append_smp cnt drop_oldest b) xs st = Some st' \<and> inv st'"
  using assms
proof (induction xs arbitrary: st)
  case Nil
  then show ?case by simp
next
  case (Cons x xs)
  obtain i smp where x: "x = (i, smp)" by (cases x)
  obtain st1 where "ingester_ingest append_smp cnt drop_oldest b i smp st = Some st1" "inv st1"
    using ingest_ok [OF Cons.prems, of b i smp] by auto
  with Cons.IH [of st1] x show ?case by simp
qed

text \<open>
  Under a budget, a run of ingests keeps a newest part of all that was ingested: what is gone
  is not newer than anything held.
\<close>

lemma ingest_keeps_newest:
  assumes "inv st" and "0 < max_samples b" and "cnt st \<le> max_samples b"
    and "xs_so_far = log_samples (log st) + gone"
    and "gone \<noteq> {#} \<longrightarrow> cnt st = max_samples b"
    and "\<forall>(i, x)\<in>#gone. \<forall>(j, y)\<in>#log_samples (log st). smp_time x \<le> smp_time y"
  shows "\<exists>st' gone'. ingester_ingest append_smp cnt drop_oldest b i smp st = Some st' \<and> inv st' \<and>
    cnt st' = min (cnt st + 1) (max_samples b) \<and>
    add_mset (i, smp) xs_so_far = log_samples (log st') + gone' \<and>
    (gone' \<noteq> {#} \<longrightarrow> cnt st' = max_samples b) \<and>
    (\<forall>(i, x)\<in>#gone'. \<forall>(j, y)\<in>#log_samples (log st'). smp_time x \<le> smp_time y)"
proof -
  let ?f = "log_insert i smp (log st)"
  have wf: "log_wf (log st)" by (rule inv_log_wf [OF assms(1)])
  obtain st' where st': "ingester_ingest append_smp cnt drop_oldest b i smp st = Some st'" "inv st'"
    "cnt st' = cnt st + 1 - excess b (cnt st + 1)" "forgets_oldest ?f (log st')"
    "excess b (cnt st + 1) = 0 \<longrightarrow> log st' = ?f"
    using ingest_ok [OF assms(1), of b i smp] by blast
  obtain new where new: "log_samples ?f = log_samples (log st') + new"
    "\<forall>(i, x)\<in>#new. \<forall>(j, y)\<in>#log_samples (log st'). smp_time x \<le> smp_time y"
    using forgets_oldest_samples [OF log_wf_insert [OF wf] st'(4)] by blast
  have all: "add_mset (i, smp) xs_so_far = log_samples (log st') + (new + gone)"
    using new(1) log_samples_insert [OF wf, of i smp] by (simp add: assms(4) flip: union_assoc)
  have cnt: "cnt st' = min (cnt st + 1) (max_samples b)"
    using st'(3) assms(2,3) by (auto simp: excess_def)
  show ?thesis
  proof (cases "excess b (cnt st + 1) = 0")
    case True
    then have "cnt st < max_samples b" using assms(2,3) by (auto simp: excess_def split: if_splits)
    then have none: "gone = {#}" using assms(5) by auto
    have "new = {#}" using new(1) True st'(5) by auto
    with none all cnt st' show ?thesis by (intro exI [of _ st'] exI [of _ "{#}"]) auto
  next
    case False
    then have full: "cnt st = max_samples b" using assms(2,3) by (auto simp: excess_def split: if_splits)
    have "int (size new) = 1"
    proof -
      have "int (size (log_samples ?f)) = int (size (log_samples (log st'))) + int (size new)"
        using new(1) by simp
      then show ?thesis
        using size_log_samples [OF log_wf_insert [OF wf]] size_log_samples [OF inv_log_wf [OF st'(2)]]
          log_size_insert [OF wf, of i smp] count_log [OF assms(1)] count_log [OF st'(2)] cnt full by simp
    qed
    then obtain l z where z: "new = {#(l, z)#}" by (cases "new") auto
    have kept: "(j, y) \<in># log_samples (log st) \<or> (j, y) = (i, smp)" if "(j, y) \<in># log_samples (log st')" for j y
      using that new(1) log_samples_insert [OF wf, of i smp] by (metis insert_iff set_mset_add_mset_insert union_iff)
    have "smp_time x \<le> smp_time y" if gx: "(k, x) \<in># gone" and hy: "(j, y) \<in># log_samples (log st')" for k x j y
    proof (cases "(j, y) \<in># log_samples (log st)")
      case True
      then show ?thesis using assms(6) gx by blast
    next
      case False
      then have y: "(j, y) = (i, smp)" using kept hy by blast
      have "(l, z) \<noteq> (i, smp)"
      proof
        assume "(l, z) = (i, smp)"
        then have "log_samples (log st') = log_samples (log st)"
          using new(1) log_samples_insert [OF wf, of i smp] z by simp
        then show False using hy False by simp
      qed
      then have "(l, z) \<in># log_samples (log st)"
        using new(1) z log_samples_insert [OF wf, of i smp]
        by (metis add_mset_add_single insert_iff set_mset_add_mset_insert union_single_eq_member)
      then have "smp_time x \<le> smp_time z" using assms(6) gx by blast
      also have "smp_time z \<le> smp_time y" using new(2) z hy by auto
      finally show ?thesis .
    qed
    then have "\<forall>(k, x)\<in>#new + gone. \<forall>(j, y)\<in>#log_samples (log st'). smp_time x \<le> smp_time y"
      using new(2) by auto
    moreover have "cnt st' = max_samples b" using cnt full by simp
    ultimately show ?thesis using all cnt st' by (intro exI [of _ st'] exI [of _ "new + gone"]) auto
  qed
qed

lemma ingest_all_keeps_newest:
  assumes "inv st" and "0 < max_samples b" and "cnt st \<le> max_samples b"
    and "acc = log_samples (log st) + gone"
    and "gone \<noteq> {#} \<longrightarrow> cnt st = max_samples b"
    and "\<forall>(i, x)\<in>#gone. \<forall>(j, y)\<in>#log_samples (log st). smp_time x \<le> smp_time y"
  shows "\<exists>st' gone'. ingest_all (ingester_ingest append_smp cnt drop_oldest b) xs st = Some st' \<and> inv st' \<and>
    cnt st' = min (cnt st + int (length xs)) (max_samples b) \<and>
    acc + mset xs = log_samples (log st') + gone' \<and>
    (\<forall>(i, x)\<in>#gone'. \<forall>(j, y)\<in>#log_samples (log st'). smp_time x \<le> smp_time y)"
  using assms
proof (induction xs arbitrary: st acc gone)
  case Nil
  then show ?case by (intro exI [of _ st] exI [of _ gone]) auto
next
  case (Cons x xs)
  obtain i smp where x: "x = (i, smp)" by (cases x)
  obtain st1 gone1 where st1: "ingester_ingest append_smp cnt drop_oldest b i smp st = Some st1" "inv st1"
    "cnt st1 = min (cnt st + 1) (max_samples b)"
    "add_mset (i, smp) acc = log_samples (log st1) + gone1" "gone1 \<noteq> {#} \<longrightarrow> cnt st1 = max_samples b"
    "\<forall>(i, x)\<in>#gone1. \<forall>(j, y)\<in>#log_samples (log st1). smp_time x \<le> smp_time y"
    using ingest_keeps_newest [OF Cons.prems, of i smp] by blast
  have le: "cnt st1 \<le> max_samples b" using st1(3) by simp
  obtain st' gone' where st': "ingest_all (ingester_ingest append_smp cnt drop_oldest b) xs st1 = Some st'" "inv st'"
    "cnt st' = min (cnt st1 + int (length xs)) (max_samples b)"
    "add_mset (i, smp) acc + mset xs = log_samples (log st') + gone'"
    "\<forall>(i, x)\<in>#gone'. \<forall>(j, y)\<in>#log_samples (log st'). smp_time x \<le> smp_time y"
    using Cons.IH [OF st1(2) Cons.prems(2) le st1(4) st1(5) st1(6)] by blast
  have "cnt st' = min (cnt st + int (length (x # xs))) (max_samples b)" using st'(3) st1(3) by auto
  with st' st1(1) x show ?case by (intro exI [of _ st'] exI [of _ gone']) auto
qed

end

locale prune_store =
  fixes drop_before :: "time \<Rightarrow> 's \<Rightarrow> int \<times> 's"
    and inv :: "'s \<Rightarrow> bool"
    and log :: "'s \<Rightarrow> log"
  assumes drop_before_spec: "inv st \<Longrightarrow> \<exists>st'.
    drop_before c st = (log_size (log st) - log_size (log st'), st') \<and> inv st' \<and>
    log st' = log_keep c (log st)"
begin

lemma evict_ok:
  assumes "inv st"
  shows "\<exists>st'. evictor_run drop_before w now st = (log_size (log st) - log_size (log st'), st') \<and>
    inv st' \<and> log st' = log_keep (cutoff w now) (log st)"
  using drop_before_spec [OF assms, of "cutoff w now"] by (simp add: evictor_run_def)

text \<open>Running the evictor again at the same moment, or at an earlier cutoff, drops nothing.\<close>

lemma evict_idle:
  assumes "inv st" and "\<And>i x. x \<in> set (log st i) \<Longrightarrow> cutoff w now \<le> smp_time x"
  shows "\<exists>st'. evictor_run drop_before w now st = (0, st') \<and> inv st' \<and> log st' = log st"
proof -
  have "log_keep (cutoff w now) (log st) = log st"
    using assms(2) by (auto simp: log_keep_def fun_eq_iff filter_id_conv)
  then show ?thesis using evict_ok [OF assms(1), of w now] by auto
qed

end

text \<open>A store that serves both use cases, as the in-memory one does.\<close>

locale sample_store =
  append_store append_smp cnt drop_oldest inv log + prune_store drop_before inv log
  for append_smp :: "stream_id \<Rightarrow> sample \<Rightarrow> 's \<Rightarrow> 's" and cnt drop_oldest drop_before inv log
begin

lemma evict_count_le:
  assumes "inv st"
  shows "cnt (snd (evictor_run drop_before w now st)) \<le> cnt st \<and>
    inv (snd (evictor_run drop_before w now st))"
proof -
  obtain st' where st': "evictor_run drop_before w now st = (log_size (log st) - log_size (log st'), st')"
    "inv st'" "log st' = log_keep (cutoff w now) (log st)"
    using evict_ok [OF assms] by blast
  have fin: "finite {i. log st i \<noteq> []}" using inv_log_wf [OF assms] by (simp add: log_wf_def)
  have "log_size (log st') \<le> (\<Sum>i\<in>{i. log st' i \<noteq> []}. int (length (log st i)))"
    unfolding log_size_def by (rule sum_mono) (simp add: st'(3) log_keep_def)
  also have "\<dots> \<le> log_size (log st)"
    unfolding log_size_def by (rule sum_mono2 [OF fin]) (auto simp: st'(3) log_keep_def)
  finally show ?thesis using st' assms by (simp add: count_log)
qed

end

end
