(* ===== verification/Browse.thy ===== *)
theory Browse
  imports Sample_Log
begin

text \<open>
  \<open>internal/usecase/browse.go\<close>: \<open>ls\<close> and \<open>cat\<close> over the virtual filesystem. The browser
  reads the store through \<open>ReadStore\<close>, a locale here: its listings are sorted, without
  duplicates, and hold exactly the names of streams that have a sample.
\<close>

record entry =
  ent_name :: string
  ent_dir :: bool

definition not_found :: "string \<Rightarrow> fs_error" where
  "not_found p = FsError (AtPath p) ErrNotFound"

definition dirs :: "string list \<Rightarrow> entry list" where
  "dirs names = map (\<lambda>n. \<lparr>ent_name = n, ent_dir = True\<rparr>) names"

fun contains :: "string list \<Rightarrow> string \<Rightarrow> bool" where
  "contains [] s = False"
| "contains (x # xs) s = (if x = s then True else contains xs s)"

definition check_service :: "(string \<Rightarrow> 's \<Rightarrow> string list) \<Rightarrow> 's \<Rightarrow> path \<Rightarrow> fs_error option" where
  "check_service services st p =
     (if \<not> contains (services (pth_namespace p) st) (pth_service p)
      then Some (not_found (path_string (empty_path\<lparr>pth_namespace := pth_namespace p,
        pth_service := pth_service p\<rparr>)))
      else None)"

definition browser_ls ::
  "('s \<Rightarrow> string list) \<Rightarrow> (string \<Rightarrow> 's \<Rightarrow> string list) \<Rightarrow>
   (string \<Rightarrow> string \<Rightarrow> kind \<Rightarrow> 's \<Rightarrow> string list) \<Rightarrow> (stream_id \<Rightarrow> 's \<Rightarrow> sample list option) \<Rightarrow>
   's \<Rightarrow> string \<Rightarrow> fs_error + entry list" where
  "browser_ls namespaces services stream_names samples st pth =
     bind_result (parse_path pth) (\<lambda>p.
       case path_depth p of
         DepthRoot \<Rightarrow> Inr (dirs (namespaces st))
       | DepthNamespace \<Rightarrow>
           (if \<not> contains (namespaces st) (pth_namespace p) then Inl (not_found pth)
            else Inr (dirs (services (pth_namespace p) st)))
       | DepthService \<Rightarrow>
           (case check_service services st p of
              Some e \<Rightarrow> Inl e
            | None \<Rightarrow> Inr [\<lparr>ent_name = kind_string Logs, ent_dir = True\<rparr>,
                \<lparr>ent_name = kind_string Metrics, ent_dir = True\<rparr>])
       | DepthKind \<Rightarrow>
           (case check_service services st p of
              Some e \<Rightarrow> Inl e
            | None \<Rightarrow> Inr (map (\<lambda>n. \<lparr>ent_name = file_name n, ent_dir = False\<rparr>)
                (stream_names (pth_namespace p) (pth_service p) (pth_kind p) st)))
       | DepthStream \<Rightarrow>
           (case samples (path_stream p) st of
              None \<Rightarrow> Inl (not_found pth)
            | Some ss \<Rightarrow> Inl (FsError (AtPath pth) ErrNotDir)))"

definition browser_cat ::
  "(stream_id \<Rightarrow> 's \<Rightarrow> sample list option) \<Rightarrow> 's \<Rightarrow> string \<Rightarrow> fs_error + sample list" where
  "browser_cat samples st pth =
     bind_result (parse_path pth) (\<lambda>p.
       if path_depth p \<noteq> DepthStream then Inl (FsError (AtPath pth) ErrIsDir)
       else case samples (path_stream p) st of
         None \<Rightarrow> Inl (not_found pth)
       | Some ss \<Rightarrow> Inr ss)"

lemma contains_iff [simp]: "contains xs s \<longleftrightarrow> s \<in> set xs"
  by (induction xs) auto

text \<open>
  A client that walks the tree with \<open>ls\<close>: the files below a path, \<open>n\<close> levels down.
\<close>

definition child :: "string \<Rightarrow> entry \<Rightarrow> string" where
  "child pth e = (if pth = ''/'' then ''/'' @ ent_name e else pth @ ''/'' @ ent_name e)"

fun walk :: "(string \<Rightarrow> fs_error + entry list) \<Rightarrow> nat \<Rightarrow> string \<Rightarrow> string list" where
  "walk ls 0 pth = []"
| "walk ls (Suc n) pth =
     (case ls pth of
        Inl e \<Rightarrow> []
      | Inr es \<Rightarrow> concat (map (\<lambda>e. if ent_dir e then walk ls n (child pth e) else [child pth e]) es))"

definition holds_dir :: "path \<Rightarrow> stream_id \<Rightarrow> bool" where
  \<comment> \<open>the stream lies below the directory, as far as namespace and service go\<close>
  "holds_dir p i \<longleftrightarrow> (pth_namespace p = [] \<or> sid_namespace i = pth_namespace p) \<and>
     (pth_service p = [] \<or> sid_service i = pth_service p)"

section \<open>The interface to the client\<close>

text \<open>
  What the shell and the remote interfaces may rely on in a browser: only absolute paths can be
  listed, the root always can, and nothing is a directory and a file at once.
\<close>

locale browser_api =
  fixes ls :: "string \<Rightarrow> 'e + entry list"
    and cat :: "string \<Rightarrow> 'e + sample list"
  assumes ls_absolute: "ls p = Inr es \<Longrightarrow> has_prefix p ''/''"
    and ls_root: "\<exists>es. ls ''/'' = Inr es"
    and dir_or_file: "ls p = Inr es \<Longrightarrow> cat p \<noteq> Inr ss"

lemma browser_ls_depth:
  assumes "browser_ls namespaces services stream_names samples st pth = Inr es"
  shows "\<exists>p. parse_path pth = Inr p \<and> path_depth p \<noteq> DepthStream"
  using assms by (auto simp: browser_ls_def bind_result_Inr_iff split: option.splits)

lemma browser_cat_depth:
  assumes "browser_cat samples st pth = Inr ss"
  shows "\<exists>p. parse_path pth = Inr p \<and> path_depth p = DepthStream"
  using assms by (auto simp: browser_cat_def bind_result_Inr_iff split: if_splits)

interpretation browser: browser_api "browser_ls namespaces services stream_names samples st" "browser_cat samples st"
  for namespaces services stream_names samples st
proof unfold_locales
  fix p es ss
  show "has_prefix p ''/''" if "browser_ls namespaces services stream_names samples st p = Inr es"
    using browser_ls_depth [OF that] by (auto simp: parse_path_def split: if_splits)
  show "\<exists>es. browser_ls namespaces services stream_names samples st ''/'' = Inr es"
    by (simp add: browser_ls_def parse_path_def path_depth_def empty_path_def)
  show "browser_cat samples st p \<noteq> Inr ss" if "browser_ls namespaces services stream_names samples st p = Inr es"
    using browser_ls_depth [OF that] browser_cat_depth by fastforce
qed

text \<open>An error of the browser always has a text of its own before the text of its sentinel.\<close>

lemma browser_ls_error_text:
  assumes "browser_ls namespaces services stream_names samples st pth = Inl e"
  shows "msg_text q (err_msg e) \<noteq> []"
  using assms parse_path_error_text [of pth _ q] parse_path_not_empty [of pth]
  by (auto simp: browser_ls_def bind_result_def not_found_def check_service_def path_string_def
      split: sum.splits depth.splits option.splits if_splits)

lemma browser_cat_error_text:
  assumes "browser_cat samples st pth = Inl e"
  shows "msg_text q (err_msg e) \<noteq> []"
  using assms parse_path_error_text [of pth _ q] parse_path_not_empty [of pth]
  by (auto simp: browser_cat_def bind_result_def not_found_def split: sum.splits option.splits if_splits)

section \<open>The interface to the store\<close>

definition listing_of :: "string set \<Rightarrow> string list \<Rightarrow> bool" where
  "listing_of S xs \<longleftrightarrow> sorted xs \<and> distinct xs \<and> set xs = S"

lemma listing_of_set: "listing_of S xs \<Longrightarrow> set xs = S"
  by (simp add: listing_of_def)

lemma listing_of_unique: "listing_of S xs \<Longrightarrow> listing_of S ys \<Longrightarrow> xs = ys"
  by (auto simp: listing_of_def intro: sorted_distinct_set_unique)

locale read_store =
  fixes namespaces :: "'s \<Rightarrow> string list"
    and services :: "string \<Rightarrow> 's \<Rightarrow> string list"
    and stream_names :: "string \<Rightarrow> string \<Rightarrow> kind \<Rightarrow> 's \<Rightarrow> string list"
    and samples :: "stream_id \<Rightarrow> 's \<Rightarrow> sample list option"
    and inv :: "'s \<Rightarrow> bool"
    and log :: "'s \<Rightarrow> log"
  assumes namespaces_spec: "inv st \<Longrightarrow>
      listing_of {sid_namespace i |i. log st i \<noteq> []} (namespaces st)"
    and services_spec: "inv st \<Longrightarrow>
      listing_of {sid_service i |i. log st i \<noteq> [] \<and> sid_namespace i = ns} (services ns st)"
    and stream_names_spec: "inv st \<Longrightarrow>
      listing_of {sid_name i |i. log st i \<noteq> [] \<and> sid_namespace i = ns \<and> sid_service i = svc \<and>
        sid_kind i = k} (stream_names ns svc k st)"
    and samples_spec: "inv st \<Longrightarrow> samples i st = (if log st i = [] then None else Some (log st i))"
begin

abbreviation "ls \<equiv> browser_ls namespaces services stream_names samples"
abbreviation "cat \<equiv> browser_cat samples"

lemma cat_ok:
  assumes "inv st"
  shows "cat st pth = Inr ss \<longleftrightarrow>
    (\<exists>p. path_wf p \<and> path_string p = pth \<and> path_depth p = DepthStream \<and>
      log st (path_stream p) = ss \<and> ss \<noteq> [])"
  using assms
  by (auto simp: browser_cat_def bind_result_Inr_iff parse_path_iff samples_spec split: if_splits)

lemma cat_stream:
  assumes "inv st" and "stream_wf i"
  shows "cat st (path_string (stream_path i)) =
    (if log st i = [] then Inl (not_found (path_string (stream_path i))) else Inr (log st i))"
  using assms by (simp add: browser_cat_def stream_path_parse samples_spec stream_wf_path)

lemma set_namespaces: "inv st \<Longrightarrow> set (namespaces st) = {sid_namespace i |i. log st i \<noteq> []}"
  by (rule listing_of_set [OF namespaces_spec])

lemma set_services:
  "inv st \<Longrightarrow> set (services ns st) = {sid_service i |i. log st i \<noteq> [] \<and> sid_namespace i = ns}"
  by (rule listing_of_set [OF services_spec])

lemma set_stream_names: "inv st \<Longrightarrow> set (stream_names ns svc k st) =
    {sid_name i |i. log st i \<noteq> [] \<and> sid_namespace i = ns \<and> sid_service i = svc \<and> sid_kind i = k}"
  by (rule listing_of_set [OF stream_names_spec])

lemmas set_listings = set_namespaces set_services set_stream_names

lemma check_service_None:
  assumes "inv st"
  shows "check_service services st p = None \<longleftrightarrow>
    (\<exists>i. log st i \<noteq> [] \<and> sid_namespace i = pth_namespace p \<and> sid_service i = pth_service p)"
  using assms by (simp add: check_service_def set_listings) metis

lemma ls_path: "path_wf p \<Longrightarrow> ls st (path_string p) =
  (case path_depth p of
     DepthRoot \<Rightarrow> Inr (dirs (namespaces st))
   | DepthNamespace \<Rightarrow>
       (if pth_namespace p \<notin> set (namespaces st) then Inl (not_found (path_string p))
        else Inr (dirs (services (pth_namespace p) st)))
   | DepthService \<Rightarrow>
       (case check_service services st p of Some e \<Rightarrow> Inl e
        | None \<Rightarrow> Inr [\<lparr>ent_name = kind_string Logs, ent_dir = True\<rparr>,
            \<lparr>ent_name = kind_string Metrics, ent_dir = True\<rparr>])
   | DepthKind \<Rightarrow>
       (case check_service services st p of Some e \<Rightarrow> Inl e
        | None \<Rightarrow> Inr (map (\<lambda>n. \<lparr>ent_name = file_name n, ent_dir = False\<rparr>)
            (stream_names (pth_namespace p) (pth_service p) (pth_kind p) st)))
   | DepthStream \<Rightarrow>
       (case samples (path_stream p) st of None \<Rightarrow> Inl (not_found (path_string p))
        | Some ss \<Rightarrow> Inl (FsError (AtPath (path_string p)) ErrNotDir)))"
  by (simp add: browser_ls_def parse_path_path_string)

text \<open>The directories that exist are those above a stream with samples, and the root.\<close>

lemma ls_ok_iff:
  assumes "inv st"
  shows "(\<exists>es. ls st pth = Inr es) \<longleftrightarrow>
    (\<exists>p. path_wf p \<and> path_string p = pth \<and> pth_name p = [] \<and>
      (p = empty_path \<or> (\<exists>i. log st i \<noteq> [] \<and> holds_dir p i)))"
proof (cases "parse_path pth")
  case (Inl e)
  then have "\<not> (path_wf p \<and> path_string p = pth)" for p using parse_path_iff [of pth p] by auto
  with Inl show ?thesis by (auto simp: browser_ls_def)
next
  case (Inr p)
  then have p: "path_wf p" "path_string p = pth" using parse_path_iff [of pth p] by auto
  then have only: "path_wf q \<and> path_string q = pth \<longleftrightarrow> q = p" for q using path_string_inj [of q p] by auto
  have "(\<exists>es. ls st (path_string p) = Inr es) \<longleftrightarrow> pth_name p = [] \<and>
      (p = empty_path \<or> (\<exists>i. log st i \<noteq> [] \<and> holds_dir p i))"
    using p(1) check_service_None [OF assms, of p] unfolding ls_path [OF p(1)]
    by (cases p) (auto simp: path_depth_def path_wf_def holds_dir_def empty_path_def set_listings [OF assms]
        split: option.splits)
  with p(2) only show ?thesis by metis
qed

lemma walk_dirs:
  "ls st pth = Inr (dirs names) \<Longrightarrow> set (walk (ls st) (Suc n) pth) =
    (\<Union>m\<in>set names. set (walk (ls st) n (child pth \<lparr>ent_name = m, ent_dir = True\<rparr>)))"
  by (simp add: dirs_def)

lemma walk_file_names:
  "ls st pth = Inr (map (\<lambda>m. \<lparr>ent_name = file_name m, ent_dir = False\<rparr>) names) \<Longrightarrow>
    set (walk (ls st) (Suc n) pth) = (\<Union>m\<in>set names. {child pth \<lparr>ent_name = file_name m, ent_dir = False\<rparr>})"
  by auto

declare walk.simps [simp del]

text \<open>Walking from the root finds the files of exactly the streams that hold samples.\<close>

lemma child_root: "child ''/'' e = ''/'' @ ent_name e"
  by (simp add: child_def)

lemma child_dir: "pth \<noteq> ''/'' \<Longrightarrow> child pth e = pth @ ''/'' @ ent_name e"
  by (simp add: child_def)

lemma path_string_not_root: "pth_namespace p \<noteq> [] \<Longrightarrow> path_string p \<noteq> ''/''"
  by (simp add: path_string_def)

lemma walk_kind:
  assumes st: "inv st" and wf: "\<And>i. log st i \<noteq> [] \<Longrightarrow> stream_wf i"
    and i: "log st i \<noteq> []" and k: "k \<noteq> KindNone"
  shows "set (walk (ls st) 1 (path_string (stream_path (i\<lparr>sid_kind := k, sid_name := []\<rparr>)))) =
    {path_string (stream_path j) |j. log st j \<noteq> [] \<and> sid_namespace j = sid_namespace i \<and>
      sid_service j = sid_service i \<and> sid_kind j = k}"
proof -
  let ?p = "stream_path (i\<lparr>sid_kind := k, sid_name := []\<rparr>)"
  have i_wf: "stream_wf i" by (rule wf [OF i])
  then have p: "path_wf ?p" "path_depth ?p = DepthKind" "pth_namespace ?p \<noteq> []"
    using k by (auto simp: stream_wf_def path_wf_def stream_path_def path_depth_def slash_free_def)
  have ls: "ls st (path_string ?p) = Inr (map (\<lambda>n. \<lparr>ent_name = file_name n, ent_dir = False\<rparr>)
      (stream_names (sid_namespace i) (sid_service i) k st))"
    using p i check_service_None [OF st, of ?p] by (auto simp: ls_path stream_path_def)
  have child: "child (path_string ?p) \<lparr>ent_name = file_name (sid_name j), ent_dir = False\<rparr> =
      path_string (stream_path j)"
    if "sid_namespace j = sid_namespace i" "sid_service j = sid_service i" "sid_kind j = k" "sid_name j \<noteq> []" for j
    using that i_wf k child_dir [OF path_string_not_root [OF p(3)]]
    by (simp add: path_string_def stream_path_def stream_wf_def file_name_def)
  have names: "sid_name j \<noteq> []" if "log st j \<noteq> []" for j using wf [OF that] by (simp add: stream_wf_def)
  have "set (walk (ls st) 1 (path_string ?p)) =
      (\<Union>n\<in>set (stream_names (sid_namespace i) (sid_service i) k st).
        {child (path_string ?p) \<lparr>ent_name = file_name n, ent_dir = False\<rparr>})"
    unfolding One_nat_def by (rule walk_file_names [OF ls])
  also have "\<dots> = (\<Union>j\<in>{j. log st j \<noteq> [] \<and> sid_namespace j = sid_namespace i \<and> sid_service j = sid_service i \<and>
      sid_kind j = k}. {child (path_string ?p) \<lparr>ent_name = file_name (sid_name j), ent_dir = False\<rparr>})"
    unfolding set_stream_names [OF st] by blast
  also have "\<dots> = (\<Union>j\<in>{j. log st j \<noteq> [] \<and> sid_namespace j = sid_namespace i \<and> sid_service j = sid_service i \<and>
      sid_kind j = k}. {path_string (stream_path j)})"
    by (rule SUP_cong [OF refl]) (auto simp: child names)
  finally show ?thesis by auto
qed

lemma walk_service:
  assumes st: "inv st" and wf: "\<And>i. log st i \<noteq> [] \<Longrightarrow> stream_wf i" and i: "log st i \<noteq> []"
  shows "set (walk (ls st) 2 (path_string (stream_path (i\<lparr>sid_kind := KindNone, sid_name := []\<rparr>)))) =
    {path_string (stream_path j) |j. log st j \<noteq> [] \<and> sid_namespace j = sid_namespace i \<and>
      sid_service j = sid_service i}"
proof -
  let ?p = "stream_path (i\<lparr>sid_kind := KindNone, sid_name := []\<rparr>)"
  have i_wf: "stream_wf i" by (rule wf [OF i])
  then have p: "path_wf ?p" "path_depth ?p = DepthService" "pth_namespace ?p \<noteq> []"
    by (auto simp: stream_wf_def path_wf_def stream_path_def path_depth_def slash_free_def)
  have ls: "ls st (path_string ?p) = Inr [\<lparr>ent_name = kind_string Logs, ent_dir = True\<rparr>,
      \<lparr>ent_name = kind_string Metrics, ent_dir = True\<rparr>]"
    using p i check_service_None [OF st, of ?p] by (auto simp: ls_path stream_path_def)
  have child: "child (path_string ?p) \<lparr>ent_name = kind_string k, ent_dir = True\<rparr> =
      path_string (stream_path (i\<lparr>sid_kind := k, sid_name := []\<rparr>))" if "k \<noteq> KindNone" for k
    using that i_wf child_dir [OF path_string_not_root [OF p(3)]]
    by (simp add: path_string_def stream_path_def stream_wf_def)
  have kinds: "sid_kind j = Logs \<or> sid_kind j = Metrics" if "log st j \<noteq> []" for j
    using wf [OF that] by (cases "sid_kind j") (auto simp: stream_wf_def)
  have "set (walk (ls st) 2 (path_string ?p)) =
      set (walk (ls st) 1 (path_string (stream_path (i\<lparr>sid_kind := Logs, sid_name := []\<rparr>)))) \<union>
      set (walk (ls st) 1 (path_string (stream_path (i\<lparr>sid_kind := Metrics, sid_name := []\<rparr>))))"
    using walk_dirs [of st "path_string ?p" "[kind_string Logs, kind_string Metrics]" 1] ls child [of Logs] child [of Metrics]
    by (simp add: dirs_def numeral_2_eq_2)
  also have "\<dots> = {path_string (stream_path j) |j. log st j \<noteq> [] \<and> sid_namespace j = sid_namespace i \<and>
      sid_service j = sid_service i}"
    using kinds by (subst (1 2) walk_kind [OF st wf i]) (simp_all, blast)
  finally show ?thesis .
qed

lemma walk_namespace:
  assumes st: "inv st" and wf: "\<And>i. log st i \<noteq> [] \<Longrightarrow> stream_wf i" and i: "log st i \<noteq> []"
  shows "set (walk (ls st) 3 (path_string (empty_path\<lparr>pth_namespace := sid_namespace i\<rparr>))) =
    {path_string (stream_path j) |j. log st j \<noteq> [] \<and> sid_namespace j = sid_namespace i}"
proof -
  let ?p = "empty_path\<lparr>pth_namespace := sid_namespace i\<rparr>"
  let ?S = "{j. log st j \<noteq> [] \<and> sid_namespace j = sid_namespace i}"
  have i_wf: "stream_wf i" by (rule wf [OF i])
  then have p: "path_wf ?p" "path_depth ?p = DepthNamespace" "pth_namespace ?p \<noteq> []"
    by (auto simp: stream_wf_def path_wf_def empty_path_def path_depth_def slash_free_def)
  have ls: "ls st (path_string ?p) = Inr (dirs (services (sid_namespace i) st))"
    using p i by (auto simp: ls_path set_listings [OF st])
  have child: "child (path_string ?p) \<lparr>ent_name = sid_service j, ent_dir = True\<rparr> =
      path_string (stream_path (j\<lparr>sid_kind := KindNone, sid_name := []\<rparr>))" if "j \<in> ?S" for j
    using that wf [of j] i_wf child_dir [OF path_string_not_root [OF p(3)]]
    by (simp add: path_string_def stream_path_def stream_wf_def empty_path_def)
  have "set (walk (ls st) 3 (path_string ?p)) = (\<Union>s\<in>set (services (sid_namespace i) st).
      set (walk (ls st) 2 (child (path_string ?p) \<lparr>ent_name = s, ent_dir = True\<rparr>)))"
    using walk_dirs [OF ls, of 2] by simp
  also have "\<dots> = (\<Union>j\<in>?S. set (walk (ls st) 2 (child (path_string ?p) \<lparr>ent_name = sid_service j, ent_dir = True\<rparr>)))"
    unfolding set_services [OF st] by blast
  also have "\<dots> = (\<Union>j\<in>?S. {path_string (stream_path l) |l. log st l \<noteq> [] \<and>
      sid_namespace l = sid_namespace j \<and> sid_service l = sid_service j})"
    by (rule SUP_cong [OF refl]) (simp only: child, rule walk_service [OF st wf], simp_all)
  finally show ?thesis by auto
qed

lemma walk_files:
  assumes st: "inv st" and wf: "\<And>i. log st i \<noteq> [] \<Longrightarrow> stream_wf i"
  shows "set (walk (ls st) 4 ''/'') = {path_string (stream_path i) |i. log st i \<noteq> []}"
proof -
  have root: "path_string empty_path = ''/''" "path_wf empty_path" "path_depth empty_path = DepthRoot"
    by (simp_all add: path_string_def empty_path_def path_wf_def path_depth_def slash_free_def)
  have ls: "ls st ''/'' = Inr (dirs (namespaces st))"
    using ls_path [OF root(2), of st] root by simp
  have child: "child ''/'' \<lparr>ent_name = sid_namespace i, ent_dir = True\<rparr> =
      path_string (empty_path\<lparr>pth_namespace := sid_namespace i\<rparr>)" if "log st i \<noteq> []" for i
    using wf [OF that] by (simp add: child_root path_string_def empty_path_def stream_wf_def)
  have "set (walk (ls st) 4 ''/'') = (\<Union>n\<in>set (namespaces st).
      set (walk (ls st) 3 (child ''/'' \<lparr>ent_name = n, ent_dir = True\<rparr>)))"
    using walk_dirs [OF ls, of 3] by simp
  also have "\<dots> = (\<Union>i\<in>{i. log st i \<noteq> []}.
      set (walk (ls st) 3 (child ''/'' \<lparr>ent_name = sid_namespace i, ent_dir = True\<rparr>)))"
    unfolding set_namespaces [OF st] by blast
  also have "\<dots> = (\<Union>i\<in>{i. log st i \<noteq> []}.
      {path_string (stream_path j) |j. log st j \<noteq> [] \<and> sid_namespace j = sid_namespace i})"
    by (rule SUP_cong [OF refl]) (simp add: child walk_namespace [OF st wf])
  finally show ?thesis by auto
qed

end

end
