(* ===== verification/Memstore.thy ===== *)
theory Memstore
  imports Ingest Browse
begin

text \<open>
  \<open>internal/adapter/memstore/memstore.go\<close>: the in-memory system of record. A store is the
  map from stream identifiers to slices of samples and the running count. Each operation holds
  the store's mutex from its first line to its last, so it is one atomic step; every backing
  array belongs to one stream and \<open>Samples\<close> hands out a copy, so slices are values.

  The invariant \<open>store_inv\<close>: finitely many streams, none empty, each sorted by time, and the
  count is the number of samples held. Under it \<open>ss[0]\<close> in \<open>DropOldest\<close> never panics,
  the binary search of \<open>DropBefore\<close> finds the boundary, and both forget exactly the old end of
  each stream.
\<close>

type_synonym streams = "stream_id \<rightharpoonup> sample list"

record store =
  st_streams :: streams
  st_count :: int

definition new_store :: store where
  "new_store = \<lparr>st_streams = Map.empty, st_count = 0\<rparr>"

section \<open>Append\<close>

definition zero_sample :: sample where
  "zero_sample = \<lparr>smp_time = 0, smp_value = [], smp_unit = []\<rparr>"

fun append_pos :: "sample list \<Rightarrow> sample \<Rightarrow> nat \<Rightarrow> nat" where
  \<comment> \<open>\<open>for i > 0 && sample.Time.Before(ss[i-1].Time) { i-- }\<close>\<close>
  "append_pos ss s 0 = 0"
| "append_pos ss s (Suc i) =
     (if time_before (smp_time s) (smp_time (ss ! i)) then append_pos ss s i else Suc i)"

definition copy_within :: "'a list \<Rightarrow> nat \<Rightarrow> nat \<Rightarrow> 'a list" where
  \<comment> \<open>\<open>copy(xs[dst:], xs[src:])\<close>\<close>
  "copy_within xs dst src =
     (let n = min (length xs - dst) (length xs - src)
      in take dst xs @ take n (drop src xs) @ drop (dst + n) xs)"

definition store_append :: "stream_id \<Rightarrow> sample \<Rightarrow> store \<Rightarrow> store" where
  "store_append i smp st =
     (let ss = (case st_streams st i of None \<Rightarrow> [] | Some ss \<Rightarrow> ss);
          k = append_pos ss smp (length ss);
          ss = ss @ [zero_sample];
          ss = copy_within ss (k + 1) k;
          ss = ss[k := smp]
      in st\<lparr>st_streams := (st_streams st)(i \<mapsto> ss), st_count := st_count st + 1\<rparr>)"

definition store_count :: "store \<Rightarrow> int" where
  "store_count st = st_count st"

section \<open>DropOldest\<close>

fun oldest_of :: "streams \<Rightarrow> stream_id list \<Rightarrow> stream_id option \<Rightarrow> stream_id option option" where
  \<comment> \<open>one pass of the inner loop; the outer \<^const>\<open>None\<close> is the panic of \<open>ss[0]\<close> on an
      empty slice\<close>
  "oldest_of m [] oldest = Some oldest"
| "oldest_of m (i # is) oldest =
     (case oldest of
        None \<Rightarrow> oldest_of m is (Some i)
      | Some o' \<Rightarrow>
          (case (m i, m o') of
             (Some (x # _), Some (y # _)) \<Rightarrow>
               oldest_of m is (if time_before (smp_time x) (smp_time y) then Some i else Some o')
           | _ \<Rightarrow> None))"

fun drop_oldest_loop :: "(streams \<Rightarrow> stream_id list) \<Rightarrow> nat \<Rightarrow> int \<Rightarrow> store \<Rightarrow> (int \<times> store) option" where
  "drop_oldest_loop rng 0 dropped st = Some (dropped, st)"
| "drop_oldest_loop rng (Suc n) dropped st =
     (case oldest_of (st_streams st) (rng (st_streams st)) None of
        None \<Rightarrow> None
      | Some None \<Rightarrow> Some (dropped, st)
      | Some (Some i) \<Rightarrow>
          (case st_streams st i of
             Some (x # ss) \<Rightarrow>
               let m = (if ss = [] then (st_streams st)(i := None) else (st_streams st)(i \<mapsto> ss))
               in drop_oldest_loop rng n (dropped + 1)
                    (st\<lparr>st_streams := m, st_count := st_count st - 1\<rparr>)
           | _ \<Rightarrow> None))"

definition store_drop_oldest :: "(streams \<Rightarrow> stream_id list) \<Rightarrow> int \<Rightarrow> store \<Rightarrow> (int \<times> store) option" where
  "store_drop_oldest rng n st = drop_oldest_loop rng (nat n) 0 st"

section \<open>DropBefore\<close>

function search_loop :: "(nat \<Rightarrow> bool) \<Rightarrow> nat \<Rightarrow> nat \<Rightarrow> nat" where
  \<comment> \<open>the loop of \<open>sort.Search\<close>\<close>
  "search_loop f i j =
     (if i < j then
        let h = (i + j) div 2 in
        if \<not> f h then search_loop f (h + 1) j else search_loop f i h
      else i)"
  by pat_completeness auto
termination
  by (relation "measure (\<lambda>(f, i, j). j - i)") auto

declare search_loop.simps [simp del]

definition sort_search :: "nat \<Rightarrow> (nat \<Rightarrow> bool) \<Rightarrow> nat" where
  "sort_search n f = search_loop f 0 n"

definition drop_before_stream :: "time \<Rightarrow> stream_id \<Rightarrow> int \<times> store \<Rightarrow> int \<times> store" where
  \<comment> \<open>the loop body for one key\<close>
  "drop_before_stream c i acc =
     (case acc of (dropped, st) \<Rightarrow>
      (case st_streams st i of
         None \<Rightarrow> (dropped, st)
       | Some ss \<Rightarrow>
           let k = sort_search (length ss) (\<lambda>j. \<not> time_before (smp_time (ss ! j)) c) in
           if k = 0 then (dropped, st)
           else
             let dropped = dropped + int k; st = st\<lparr>st_count := st_count st - int k\<rparr> in
             if k = length ss then (dropped, st\<lparr>st_streams := (st_streams st)(i := None)\<rparr>)
             else (dropped, st\<lparr>st_streams := (st_streams st)(i \<mapsto> [] @ drop k ss)\<rparr>)))"

definition store_drop_before :: "(streams \<Rightarrow> stream_id list) \<Rightarrow> time \<Rightarrow> store \<Rightarrow> int \<times> store" where
  "store_drop_before rng c st = fold (drop_before_stream c) (rng (st_streams st)) (0, st)"

section \<open>Reading\<close>

definition store_collect :: "(streams \<Rightarrow> stream_id list) \<Rightarrow> (stream_id \<Rightarrow> string \<times> bool) \<Rightarrow> store \<Rightarrow> string list" where
  \<comment> \<open>the keys of \<open>set\<close>, which \<open>sort.Strings\<close> puts in byte order\<close>
  "store_collect rng pick st =
     sort (fold (\<lambda>i names. case pick i of (name, ok) \<Rightarrow>
       if ok then List.insert name names else names) (rng (st_streams st)) [])"

definition store_namespaces :: "(streams \<Rightarrow> stream_id list) \<Rightarrow> store \<Rightarrow> string list" where
  "store_namespaces rng = store_collect rng (\<lambda>i. (sid_namespace i, True))"

definition store_services :: "(streams \<Rightarrow> stream_id list) \<Rightarrow> string \<Rightarrow> store \<Rightarrow> string list" where
  "store_services rng ns = store_collect rng (\<lambda>i. (sid_service i, sid_namespace i = ns))"

definition store_stream_names :: "(streams \<Rightarrow> stream_id list) \<Rightarrow> string \<Rightarrow> string \<Rightarrow> kind \<Rightarrow> store \<Rightarrow> string list" where
  "store_stream_names rng ns svc k = store_collect rng
     (\<lambda>i. (sid_name i, sid_namespace i = ns \<and> sid_service i = svc \<and> sid_kind i = k))"

definition store_samples :: "stream_id \<Rightarrow> store \<Rightarrow> sample list option" where
  "store_samples i st = (case st_streams st i of None \<Rightarrow> None | Some ss \<Rightarrow> Some ([] @ ss))"

text \<open>The browser over this store.\<close>

abbreviation sor_ls :: "(streams \<Rightarrow> stream_id list) \<Rightarrow> store \<Rightarrow> string \<Rightarrow> fs_error + entry list" where
  "sor_ls rng \<equiv> browser_ls (store_namespaces rng) (store_services rng) (store_stream_names rng) store_samples"

abbreviation sor_cat :: "store \<Rightarrow> string \<Rightarrow> fs_error + sample list" where
  "sor_cat \<equiv> browser_cat store_samples"

section \<open>Invariant and contents\<close>

definition contents :: "store \<Rightarrow> log" where
  \<comment> \<open>the abstract value of a store: what each stream holds, oldest first\<close>
  "contents st i = (case st_streams st i of None \<Rightarrow> [] | Some ss \<Rightarrow> ss)"

definition held :: "streams \<Rightarrow> int" where
  "held m = (\<Sum>i\<in>dom m. int (length (the (m i))))"

definition store_inv :: "store \<Rightarrow> bool" where
  "store_inv st \<longleftrightarrow> finite (dom (st_streams st)) \<and>
     (\<forall>i ss. st_streams st i = Some ss \<longrightarrow> ss \<noteq> [] \<and> time_sorted ss) \<and>
     st_count st = held (st_streams st)"

lemma store_inv_finite: "store_inv st \<Longrightarrow> finite (dom (st_streams st))"
  by (simp add: store_inv_def)

lemma store_inv_stream: "store_inv st \<Longrightarrow> st_streams st i = Some ss \<Longrightarrow> ss \<noteq> [] \<and> time_sorted ss"
  by (auto simp: store_inv_def)

lemma store_inv_contents_sorted: "store_inv st \<Longrightarrow> time_sorted (contents st i)"
  by (auto simp: contents_def store_inv_def split: option.splits)

lemma contents_Nil_iff: "store_inv st \<Longrightarrow> contents st i = [] \<longleftrightarrow> st_streams st i = None"
  by (auto simp: contents_def store_inv_def split: option.splits)

lemma store_inv_new [simp]: "store_inv new_store"
  by (simp add: store_inv_def new_store_def held_def)

lemma contents_new [simp]: "contents new_store i = []"
  by (simp add: contents_def new_store_def)

lemma store_samples_contents:
  "store_inv st \<Longrightarrow> store_samples i st = (if contents st i = [] then None else Some (contents st i))"
  by (auto simp: store_samples_def contents_def store_inv_def split: option.splits)

subsection \<open>Append\<close>

lemma append_pos_le: "append_pos ss smp n \<le> n"
  by (induction n) auto

lemma append_pos_sorted:
  assumes "time_sorted ss" and "n \<le> length ss"
    and "\<forall>x\<in>set (drop n ss). smp_time smp < smp_time x"
  shows "append_pos ss smp n = length (takeWhile (\<lambda>x. smp_time x \<le> smp_time smp) ss)"
  using assms(2,3)
proof (induction n)
  case 0
  then show ?case by (cases ss) auto
next
  case (Suc n)
  show ?case
  proof (cases "time_before (smp_time smp) (smp_time (ss ! n))")
    case True
    have "drop n ss = ss ! n # drop (Suc n) ss" using Suc.prems by (simp add: Cons_nth_drop_Suc)
    with True Suc show ?thesis by (simp add: time_before_def)
  next
    case False
    let ?P = "\<lambda>x. smp_time x \<le> smp_time smp"
    have split: "take (Suc n) ss = take n ss @ [ss ! n]"
      using Suc.prems(1) by (simp add: take_Suc_conv_app_nth)
    have "time_sorted (take (Suc n) ss @ drop (Suc n) ss)" using assms(1) by simp
    then have "\<forall>x\<in>set (take (Suc n) ss). smp_time x \<le> smp_time (ss ! n)"
      unfolding split map_append sorted_append by auto
    with False have "\<forall>x\<in>set (take (Suc n) ss). ?P x" by (auto simp: time_before_def)
    then have "takeWhile ?P (take (Suc n) ss @ drop (Suc n) ss) =
        take (Suc n) ss @ takeWhile ?P (drop (Suc n) ss)"
      by (intro takeWhile_append2) auto
    moreover have "takeWhile ?P (drop (Suc n) ss) = []"
      using Suc.prems(2) by (cases "drop (Suc n) ss") auto
    ultimately show ?thesis using False Suc.prems(1) by simp
  qed
qed

lemma shift_and_store:
  assumes "k \<le> length ss"
  shows "(copy_within (ss @ [z]) (k + 1) k)[k := smp] = take k ss @ smp # drop k ss"
proof -
  have "take (k + 1) (ss @ [z]) = take k ss @ [(ss @ [z]) ! k]"
    using assms take_Suc_conv_app_nth [of k "ss @ [z]"] by simp
  with assms show ?thesis by (simp add: copy_within_def Let_def list_update_append)
qed

lemma insert_sample_take_drop:
  "insert_sample smp ss =
    (let k = length (takeWhile (\<lambda>x. smp_time x \<le> smp_time smp) ss) in take k ss @ smp # drop k ss)"
  by (simp add: insert_sample_def Let_def flip: takeWhile_eq_take dropWhile_eq_drop)

lemma store_append_eq:
  assumes "store_inv st"
  shows "store_append i smp st =
    st\<lparr>st_streams := (st_streams st)(i \<mapsto> insert_sample smp (contents st i)), st_count := st_count st + 1\<rparr>"
proof -
  let ?ss = "contents st i"
  have "append_pos ?ss smp (length ?ss) = length (takeWhile (\<lambda>x. smp_time x \<le> smp_time smp) ?ss)"
    using store_inv_contents_sorted [OF assms] by (intro append_pos_sorted) auto
  then have "insert_sample smp ?ss =
      (let k = append_pos ?ss smp (length ?ss) in take k ?ss @ smp # drop k ?ss)"
    by (simp only: insert_sample_take_drop)
  then show ?thesis
    by (simp only: store_append_def Let_def shift_and_store [OF append_pos_le] contents_def)
qed

lemma contents_append [store_simps]:
  "store_inv st \<Longrightarrow> contents (store_append i smp st) = log_insert i smp (contents st)"
  by (auto simp: store_append_eq contents_def log_insert_def)

lemma held_upd:
  assumes "finite (dom m)"
  shows "held (m(i \<mapsto> ss)) = held m - int (length (case m i of None \<Rightarrow> [] | Some x \<Rightarrow> x)) + int (length ss)"
  using sum_dom_upd [OF assms, of "\<lambda>ss. int (length ss)" i ss]
  unfolding held_def by (cases "m i") simp_all

lemma held_del:
  assumes "finite (dom m)" and "m i = Some ss"
  shows "held (m(i := None)) = held m - int (length ss)"
  using sum_dom_del [OF assms, of "\<lambda>ss. int (length ss)"] unfolding held_def by simp

lemma store_append_inv [store_simps]:
  assumes "store_inv st"
  shows "store_inv (store_append i smp st)"
  unfolding store_append_eq [OF assms]
  using assms store_inv_contents_sorted [OF assms, of i]
  by (auto simp: store_inv_def held_upd time_sorted_insert_sample contents_def split: option.splits)

lemma store_append_count [store_simps]: "store_count (store_append i smp st) = store_count st + 1"
  by (simp add: store_append_def store_count_def Let_def)

lemma contents_log_wf: "store_inv st \<Longrightarrow> log_wf (contents st)"
proof -
  assume inv: "store_inv st"
  then have "{i. contents st i \<noteq> []} = dom (st_streams st)" by (auto simp: contents_Nil_iff)
  with inv show ?thesis by (simp add: log_wf_def store_inv_finite store_inv_contents_sorted)
qed

lemma store_count_contents: "store_inv st \<Longrightarrow> store_count st = log_size (contents st)"
proof -
  assume inv: "store_inv st"
  then have "{i. contents st i \<noteq> []} = dom (st_streams st)" by (auto simp: contents_Nil_iff)
  moreover have "held (st_streams st) = (\<Sum>i\<in>dom (st_streams st). int (length (contents st i)))"
    unfolding held_def by (rule sum.cong) (auto simp: contents_def)
  ultimately show ?thesis using inv by (simp add: store_count_def store_inv_def log_size_def)
qed

subsection \<open>DropOldest\<close>

lemma store_count_nonneg: "store_inv st \<Longrightarrow> 0 \<le> store_count st"
  by (simp add: store_count_contents log_size_def sum_nonneg)

lemma store_inv_drop_head:
  assumes "store_inv st" and "st_streams st i = Some (x # ss)"
  shows "store_inv (st\<lparr>st_streams := (if ss = [] then (st_streams st)(i := None) else (st_streams st)(i \<mapsto> ss)),
    st_count := st_count st - 1\<rparr>)"
  using assms by (auto simp: store_inv_def held_upd held_del dest!: spec [of _ i])

definition oldest_time :: "streams \<Rightarrow> stream_id \<Rightarrow> time" where
  "oldest_time m i = smp_time (hd (the (m i)))"

lemma oldest_of_Some:
  assumes "\<And>j ss. m j = Some ss \<Longrightarrow> ss \<noteq> []"
    and "set is \<subseteq> dom m" and "o' \<in> dom m"
  shows "\<exists>i. oldest_of m is (Some o') = Some (Some i) \<and> i \<in> dom m \<and>
    oldest_time m i \<le> oldest_time m o' \<and> (\<forall>j\<in>set is. oldest_time m i \<le> oldest_time m j)"
  using assms(2,3)
proof (induction "is" arbitrary: o')
  case Nil
  then show ?case by simp
next
  case (Cons i "is")
  obtain x xs where x: "m i = Some (x # xs)" using Cons.prems assms(1) by (force simp: neq_Nil_conv)
  obtain y ys where y: "m o' = Some (y # ys)" using Cons.prems assms(1) by (force simp: neq_Nil_conv)
  let ?o = "if time_before (smp_time x) (smp_time y) then i else o'"
  have o: "oldest_time m ?o \<le> oldest_time m i" "oldest_time m ?o \<le> oldest_time m o'"
    using x y by (auto simp: oldest_time_def time_before_def)
  have "?o \<in> dom m" using x y by auto
  moreover have "set is \<subseteq> dom m" using Cons.prems by simp
  ultimately obtain k where k: "oldest_of m is (Some ?o) = Some (Some k)" "k \<in> dom m"
    "oldest_time m k \<le> oldest_time m ?o" "\<forall>j\<in>set is. oldest_time m k \<le> oldest_time m j"
    using Cons.IH by blast
  have "oldest_of m (i # is) (Some o') = oldest_of m is (Some ?o)" using x y by simp
  with k o show ?case by (auto intro: order_trans)
qed

locale streams_range = map_range rng for rng :: "streams \<Rightarrow> stream_id list"
begin

lemma oldest_of_range:
  assumes "finite (dom m)" and "\<And>j ss. m j = Some ss \<Longrightarrow> ss \<noteq> []"
  shows "oldest_of m (rng m) None = Some None \<and> m = Map.empty \<or>
    (\<exists>i. oldest_of m (rng m) None = Some (Some i) \<and> i \<in> dom m \<and>
      (\<forall>j\<in>dom m. oldest_time m i \<le> oldest_time m j))"
proof -
  show ?thesis
  proof (cases "rng m")
    case Nil
    then show ?thesis using rng_Nil_iff [OF assms(1)] by simp
  next
    case (Cons i "is")
    then have "i \<in> dom m" "set is \<subseteq> dom m" "dom m = insert i (set is)"
      using rng_set [OF assms(1)] by auto
    then show ?thesis using oldest_of_Some [of m "is" i] assms(2) Cons by auto
  qed
qed

text \<open>One round of the outer loop forgets the oldest sample of the store.\<close>

lemma drop_oldest_ok:
  assumes "store_inv st"
  shows "\<exists>st'. drop_oldest_loop rng n d st = Some (d + min (int n) (store_count st), st') \<and>
    store_inv st' \<and> store_count st' = store_count st - min (int n) (store_count st) \<and>
    forgets_oldest (contents st) (contents st')"
  using assms
proof (induction n arbitrary: d st)
  case 0
  then show ?case by (simp add: store_count_nonneg)
next
  case (Suc n)
  let ?m = "st_streams st"
  note fin = store_inv_finite [OF Suc.prems]
  have "oldest_of ?m (rng ?m) None = Some None \<and> ?m = Map.empty \<or>
    (\<exists>i. oldest_of ?m (rng ?m) None = Some (Some i) \<and> i \<in> dom ?m \<and>
      (\<forall>j\<in>dom ?m. oldest_time ?m i \<le> oldest_time ?m j))"
    using oldest_of_range [OF fin] store_inv_stream [OF Suc.prems] by blast
  then show ?case
  proof (elim disjE exE conjE)
    assume "oldest_of ?m (rng ?m) None = Some None" and "?m = Map.empty"
    moreover from this have "store_count st = 0"
      using Suc.prems by (simp add: store_inv_def held_def store_count_def)
    ultimately show ?thesis using Suc.prems by simp
  next
    fix i
    assume i: "oldest_of ?m (rng ?m) None = Some (Some i)" "i \<in> dom ?m"
      "\<forall>j\<in>dom ?m. oldest_time ?m i \<le> oldest_time ?m j"
    obtain x ss where x: "?m i = Some (x # ss)"
      using i(2) store_inv_stream [OF Suc.prems] by (force simp: neq_Nil_conv)
    let ?st = "st\<lparr>st_streams := (if ss = [] then ?m(i := None) else ?m(i \<mapsto> ss)),
      st_count := st_count st - 1\<rparr>"
    have inv: "store_inv ?st" by (rule store_inv_drop_head [OF Suc.prems x])
    have cont: "contents ?st = (contents st)(i := ss)" by (auto simp: contents_def)
    have count: "store_count ?st = store_count st - 1" by (simp add: store_count_def)
    have "forgets_oldest (contents st) ((contents st)(i := ss))"
    proof (rule forgets_oldest_head)
      show "contents st i = x # ss" using x by (simp add: contents_def)
      show "time_sorted (contents st j)" for j by (rule store_inv_contents_sorted [OF Suc.prems])
      show "smp_time x \<le> smp_time y" if "contents st j = y # ys" for j y ys
        using i(3) x that by (force simp: contents_def oldest_time_def split: option.splits)
    qed
    then have forget: "forgets_oldest (contents st) (contents ?st)" by (simp only: cont)
    have pos: "1 \<le> store_count st" using store_count_nonneg [OF inv] count by simp
    have step: "drop_oldest_loop rng (Suc n) d st = drop_oldest_loop rng n (d + 1) ?st"
      using i(1) x by (simp add: Let_def)
    obtain st' where st': "drop_oldest_loop rng n (d + 1) ?st =
        Some (d + 1 + min (int n) (store_count ?st), st')" "store_inv st'"
      "store_count st' = store_count ?st - min (int n) (store_count ?st)"
      "forgets_oldest (contents ?st) (contents st')"
      using Suc.IH [OF inv] by blast
    have "1 + min (int n) (store_count st - 1) = min (int (Suc n)) (store_count st)" using pos by simp
    with st' step count forgets_oldest_trans [OF forget st'(4)] show ?thesis by (simp add: algebra_simps)
  qed
qed

end

subsection \<open>DropBefore\<close>

lemma search_loop_boundary:
  assumes "i \<le> k" and "k \<le> j" and "j \<le> n" and "\<And>a. a < n \<Longrightarrow> f a \<longleftrightarrow> k \<le> a"
  shows "search_loop f i j = k"
  using assms
proof (induction f i j rule: search_loop.induct)
  case (1 f i j)
  show ?case
  proof (cases "i < j")
    case False
    with "1.prems" show ?thesis by (subst search_loop.simps) simp
  next
    case True
    let ?h = "(i + j) div 2"
    have h: "i \<le> ?h" "?h < j" using True by auto
    show ?thesis
    proof (cases "f ?h")
      case True
      then have "k \<le> ?h" using "1.prems" h by auto
      then have "search_loop f i ?h = k" using "1.IH"(2) True \<open>i < j\<close> "1.prems" h by auto
      then show ?thesis using True \<open>i < j\<close> by (subst search_loop.simps) (simp add: Let_def)
    next
      case False
      then have "?h < k" using "1.prems" h by (metis not_le order_less_le_trans)
      then have "search_loop f (?h + 1) j = k" using "1.IH"(1) False \<open>i < j\<close> "1.prems" by auto
      then show ?thesis using False \<open>i < j\<close> by (subst search_loop.simps) (simp add: Let_def)
    qed
  qed
qed

lemma sort_search_boundary:
  "k \<le> n \<Longrightarrow> (\<And>a. a < n \<Longrightarrow> f a \<longleftrightarrow> k \<le> a) \<Longrightarrow> sort_search n f = k"
  unfolding sort_search_def by (rule search_loop_boundary) auto

lemma sort_search_cutoff:
  assumes "time_sorted ss"
  shows "sort_search (length ss) (\<lambda>j. \<not> time_before (smp_time (ss ! j)) c) =
    length (takeWhile (\<lambda>x. smp_time x < c) ss)"
proof (rule sort_search_boundary)
  let ?k = "length (takeWhile (\<lambda>x. smp_time x < c) ss)"
  show "?k \<le> length ss" by (rule length_takeWhile_le)
  fix a
  assume a: "a < length ss"
  show "\<not> time_before (smp_time (ss ! a)) c \<longleftrightarrow> ?k \<le> a"
  proof
    assume "\<not> time_before (smp_time (ss ! a)) c"
    then show "?k \<le> a" using nth_length_takeWhile takeWhile_nth set_takeWhileD
      by (metis (no_types, lifting) not_le nth_mem time_before_def)
  next
    assume "?k \<le> a"
    then have k: "?k < length ss" using a by simp
    then have "\<not> smp_time (ss ! ?k) < c" by (rule nth_length_takeWhile)
    moreover have "smp_time (ss ! ?k) \<le> smp_time (ss ! a)"
      using assms \<open>?k \<le> a\<close> a by (auto simp: sorted_iff_nth_mono)
    ultimately show "\<not> time_before (smp_time (ss ! a)) c" by (simp add: time_before_def)
  qed
qed

lemma drop_takeWhile_older:
  "time_sorted ss \<Longrightarrow> drop (length (takeWhile (\<lambda>x. smp_time x < c) ss)) ss = filter (\<lambda>x. c \<le> smp_time x) ss"
  by (simp add: dropWhile_sorted_eq_filter flip: dropWhile_eq_drop)

lemma drop_before_stream_ok:
  assumes inv: "store_inv st"
  shows "\<exists>st'. drop_before_stream c i (d, st) = (d + (store_count st - store_count st'), st') \<and>
    store_inv st' \<and> contents st' = (contents st)(i := filter (\<lambda>x. c \<le> smp_time x) (contents st i))"
proof (cases "st_streams st i")
  case None
  then show ?thesis using inv by (auto simp: drop_before_stream_def contents_def)
next
  case (Some ss)
  have ss: "ss \<noteq> []" "time_sorted ss" using store_inv_stream [OF inv Some] by auto
  let ?k = "length (takeWhile (\<lambda>x. smp_time x < c) ss)"
  have k: "sort_search (length ss) (\<lambda>j. \<not> time_before (smp_time (ss ! j)) c) = ?k"
    by (rule sort_search_cutoff [OF ss(2)])
  have kept: "drop ?k ss = filter (\<lambda>x. c \<le> smp_time x) ss" by (rule drop_takeWhile_older [OF ss(2)])
  have cont: "contents st i = ss" using Some by (simp add: contents_def)
  have le: "?k \<le> length ss" by (rule length_takeWhile_le)
  consider (none) "?k = 0" | (all) "?k \<noteq> 0" "?k = length ss" | (some) "?k \<noteq> 0" "?k < length ss"
    using le by linarith
  then show ?thesis
  proof cases
    case none
    then have "filter (\<lambda>x. c \<le> smp_time x) ss = ss" using kept by simp
    with none Some inv cont k show ?thesis by (auto simp: drop_before_stream_def Let_def)
  next
    case all
    let ?st = "st\<lparr>st_count := st_count st - int ?k, st_streams := (st_streams st)(i := None)\<rparr>"
    have "store_inv ?st" using inv Some all by (auto simp: store_inv_def held_del)
    moreover have "contents ?st = (contents st)(i := filter (\<lambda>x. c \<le> smp_time x) (contents st i))"
      using kept all cont by (auto simp: contents_def fun_eq_iff)
    moreover have "drop_before_stream c i (d, st) = (d + (store_count st - store_count ?st), ?st)"
      using Some k all by (simp add: drop_before_stream_def Let_def store_count_def)
    ultimately show ?thesis by blast
  next
    case some
    let ?st = "st\<lparr>st_count := st_count st - int ?k, st_streams := (st_streams st)(i \<mapsto> drop ?k ss)\<rparr>"
    have "store_inv ?st" using inv Some some ss sorted_map_drop [OF ss(2), of ?k]
      by (auto simp: store_inv_def held_upd of_nat_diff)
    moreover have "contents ?st = (contents st)(i := filter (\<lambda>x. c \<le> smp_time x) (contents st i))"
      using kept cont by (auto simp: contents_def fun_eq_iff)
    moreover have "drop_before_stream c i (d, st) = (d + (store_count st - store_count ?st), ?st)"
      using Some k some by (simp add: drop_before_stream_def Let_def store_count_def)
    ultimately show ?thesis by blast
  qed
qed

lemma drop_before_fold:
  assumes "store_inv st"
  shows "\<exists>st'. fold (drop_before_stream c) is (d, st) = (d + (store_count st - store_count st'), st') \<and>
    store_inv st' \<and>
    contents st' = (\<lambda>j. if j \<in> set is then filter (\<lambda>x. c \<le> smp_time x) (contents st j) else contents st j)"
  using assms
proof (induction "is" arbitrary: d st)
  case Nil
  then show ?case by auto
next
  case (Cons i "is")
  obtain st1 where st1: "drop_before_stream c i (d, st) = (d + (store_count st - store_count st1), st1)"
    "store_inv st1" "contents st1 = (contents st)(i := filter (\<lambda>x. c \<le> smp_time x) (contents st i))"
    using drop_before_stream_ok [OF Cons.prems] by blast
  then show ?case
    using Cons.IH [OF st1(2), of "d + (store_count st - store_count st1)"] by (fastforce simp: fun_eq_iff)
qed

context streams_range
begin

lemma store_drop_before_ok:
  assumes inv: "store_inv st"
  shows "\<exists>st'. store_drop_before rng c st = (store_count st - store_count st', st') \<and>
    store_inv st' \<and> contents st' = log_keep c (contents st)"
proof -
  have rng: "set (rng (st_streams st)) = dom (st_streams st)" by (rule rng_set [OF store_inv_finite [OF inv]])
  have out: "j \<notin> dom (st_streams st) \<Longrightarrow> contents st j = []" for j by (auto simp: contents_def domIff)
  have "(\<lambda>j. if j \<in> dom (st_streams st) then filter (\<lambda>x. c \<le> smp_time x) (contents st j) else contents st j) =
      log_keep c (contents st)"
    using out by (auto simp: log_keep_def fun_eq_iff)
  then show ?thesis
    using drop_before_fold [OF inv, of c "rng (st_streams st)" 0] unfolding store_drop_before_def rng by auto
qed

end

subsection \<open>Listings\<close>

lemma set_fold_insert:
  "set (fold (\<lambda>i names. case pick i of (name, ok) \<Rightarrow> if ok then List.insert name names else names) is names) =
    set names \<union> {fst (pick i) |i. i \<in> set is \<and> snd (pick i)}"
proof (induction "is" arbitrary: names)
  case Nil
  then show ?case by simp
next
  case (Cons i "is")
  have "{fst (pick j) |j. j \<in> set (i # is) \<and> snd (pick j)} =
      (if snd (pick i) then {fst (pick i)} else {}) \<union> {fst (pick j) |j. j \<in> set is \<and> snd (pick j)}"
    by auto
  then show ?case using Cons.IH by (simp add: case_prod_beta)
qed

lemma distinct_fold_insert:
  "distinct names \<Longrightarrow> distinct (fold (\<lambda>i names. case pick i of (name, ok) \<Rightarrow>
    if ok then List.insert name names else names) is names)"
  by (induction "is" arbitrary: names) (auto split: prod.splits)

context streams_range
begin

lemma store_collect_listing:
  assumes "store_inv st"
  shows "listing_of {fst (pick i) |i. contents st i \<noteq> [] \<and> snd (pick i)} (store_collect rng pick st)"
proof -
  have "set (rng (st_streams st)) = {i. contents st i \<noteq> []}"
    using rng_set [OF store_inv_finite [OF assms]] assms by (auto simp: contents_Nil_iff)
  then show ?thesis
    by (simp add: listing_of_def store_collect_def set_fold_insert distinct_fold_insert)
qed

lemma store_drop_oldest_ok:
  assumes "store_inv st"
  shows "\<exists>st'. store_drop_oldest rng n st = Some (min (max 0 n) (store_count st), st') \<and>
    store_inv st' \<and> store_count st' = store_count st - min (max 0 n) (store_count st) \<and>
    forgets_oldest (contents st) (contents st')"
  using drop_oldest_ok [OF assms, of "nat n" 0] by (simp add: store_drop_oldest_def max_def)

end

section \<open>The store provides the interfaces of its clients\<close>

sublocale streams_range \<subseteq> ss: sample_store store_append store_count "store_drop_oldest rng"
  "store_drop_before rng" store_inv contents
proof unfold_locales
  fix st i smp n c
  assume inv: "store_inv st"
  show "log_wf (contents st)" by (rule contents_log_wf [OF inv])
  show "store_count st = log_size (contents st)" by (rule store_count_contents [OF inv])
  show "store_inv (store_append i smp st)" by (rule store_append_inv [OF inv])
  show "contents (store_append i smp st) = log_insert i smp (contents st)" by (rule contents_append [OF inv])
  show "\<exists>st'. store_drop_oldest rng n st = Some (min (max 0 n) (store_count st), st') \<and>
      store_inv st' \<and> store_count st' = store_count st - min (max 0 n) (store_count st) \<and>
      forgets_oldest (contents st) (contents st')" by (rule store_drop_oldest_ok [OF inv])
  obtain st' where "store_drop_before rng c st = (store_count st - store_count st', st')"
    "store_inv st'" "contents st' = log_keep c (contents st)"
    using store_drop_before_ok [OF inv] by blast
  then show "\<exists>st'. store_drop_before rng c st = (log_size (contents st) - log_size (contents st'), st') \<and>
      store_inv st' \<and> contents st' = log_keep c (contents st)"
    using inv by (auto simp: store_count_contents)
qed

sublocale streams_range \<subseteq> rs: read_store "store_namespaces rng" "store_services rng"
  "store_stream_names rng" store_samples store_inv contents
proof unfold_locales
  fix st ns svc k i
  assume inv: "store_inv st"
  note listing = store_collect_listing [OF inv]
  show "listing_of {sid_namespace i |i. contents st i \<noteq> []} (store_namespaces rng st)"
    using listing [of "\<lambda>i. (sid_namespace i, True)"] by (simp add: store_namespaces_def)
  show "listing_of {sid_service i |i. contents st i \<noteq> [] \<and> sid_namespace i = ns} (store_services rng ns st)"
    using listing [of "\<lambda>i. (sid_service i, sid_namespace i = ns)"] by (simp add: store_services_def)
  show "listing_of {sid_name i |i. contents st i \<noteq> [] \<and> sid_namespace i = ns \<and> sid_service i = svc \<and>
      sid_kind i = k} (store_stream_names rng ns svc k st)"
    using listing [of "\<lambda>i. (sid_name i, sid_namespace i = ns \<and> sid_service i = svc \<and> sid_kind i = k)"]
    by (simp add: store_stream_names_def)
  show "store_samples i st = (if contents st i = [] then None else Some (contents st i))"
    by (rule store_samples_contents [OF inv])
qed

text \<open>The clients' lemmas for this store, under every visiting order.\<close>

context streams_range
begin

lemmas ingest_on_store = ss.ingest_ok ss.ingest_budget ss.ingest_all_ok
lemmas ingest_newest_on_store = ss.ingest_all_keeps_newest
lemmas evict_on_store = ss.evict_ok
lemmas evict_count_on_store = ss.evict_count_le
lemmas cat_on_store = rs.cat_ok
lemmas ls_on_store = rs.ls_ok_iff
lemmas walk_on_store = rs.walk_files

end

text \<open>All of it holds for the visiting order by ascending key.\<close>

interpretation ordered: streams_range ascending_keys
  by unfold_locales

section \<open>Properties\<close>

definition demo_id :: "string \<Rightarrow> stream_id" where
  "demo_id n = \<lparr>sid_namespace = ''iam'', sid_service = ''api'', sid_kind = Metrics, sid_name = n\<rparr>"

definition demo_sample :: "int \<Rightarrow> sample" where
  "demo_sample t = \<lparr>smp_time = t, smp_value = ''1'', smp_unit = []\<rparr>"

definition demo_store :: store where
  "demo_store = store_append (demo_id ''a'') (demo_sample 2) (store_append (demo_id ''b'') (demo_sample 1)
     (store_append (demo_id ''a'') (demo_sample 3) new_store))"

lemma demo_store_inv: "store_inv demo_store"
  by (simp add: demo_store_def store_append_inv)

lemma demo_store_contents:
  "contents demo_store (demo_id ''a'') = [demo_sample 2, demo_sample 3]"
  "contents demo_store (demo_id ''b'') = [demo_sample 1]"
  by (simp_all add: demo_store_def contents_append store_append_inv log_insert_apply insert_sample_def
      demo_id_def demo_sample_def)

lemma demo_store_count: "store_count demo_store = 3"
proof -
  have "store_count new_store = 0" by (simp add: store_count_def new_store_def)
  then show ?thesis by (simp add: demo_store_def store_append_count)
qed

text \<open>
  C32: \<open>Append\<close> puts the sample after every sample of its stream that is not newer and before
  every newer one, so that samples of one instant stay in the order of arrival; it touches no other
  stream, counts the sample, and keeps the store's invariant (each stream sorted by time and not
  empty, the count exact).
\<close>

theorem append_inserts_in_time_order:
  assumes "store_inv st"
  shows "store_inv (store_append i smp st) \<and>
    store_count (store_append i smp st) = store_count st + 1 \<and>
    store_samples i (store_append i smp st) =
      Some (takeWhile (\<lambda>x. smp_time x \<le> smp_time smp) (contents st i) @ smp #
        dropWhile (\<lambda>x. smp_time x \<le> smp_time smp) (contents st i)) \<and>
    (\<forall>j. j \<noteq> i \<longrightarrow> store_samples j (store_append i smp st) = store_samples j st)"
  using assms
  by (simp add: store_simps store_samples_contents log_insert_apply insert_sample_def)

theorem append_inserts_in_time_order_witness:
  "store_samples (demo_id ''a'') (store_append (demo_id ''a'') (demo_sample 2) demo_store) =
    Some [demo_sample 2, demo_sample 2, demo_sample 3]"
  using append_inserts_in_time_order [OF demo_store_inv, of "demo_id ''a''" "demo_sample 2"]
  by (simp add: demo_store_contents demo_sample_def)

text \<open>
  C6: \<open>DropOldest(n)\<close> never indexes an empty slice, removes exactly \<open>min n Count\<close>
  samples and reports that number. It cuts an old end off each stream, and no sample it removed
  is newer than any sample that remains, whatever order the map is visited in.
\<close>

theorem drop_oldest_removes_globally_oldest:
  assumes "streams_range rng" and "store_inv st"
  shows "\<exists>st'. store_drop_oldest rng n st = Some (min (max 0 n) (store_count st), st') \<and>
    store_inv st' \<and> store_count st' = store_count st - min (max 0 n) (store_count st) \<and>
    (\<exists>k. contents st' = (\<lambda>i. drop (k i) (contents st i)) \<and>
      (\<forall>i j. \<forall>x\<in>set (take (k i) (contents st i)). \<forall>y\<in>set (contents st' j). smp_time x \<le> smp_time y))"
  using streams_range.store_drop_oldest_ok [OF assms, of n] unfolding forgets_oldest_def by blast

theorem drop_oldest_removes_globally_oldest_witness:
  "\<exists>st'. store_drop_oldest ascending_keys 2 demo_store = Some (2, st') \<and> store_inv st' \<and> store_count st' = 1"
  using drop_oldest_removes_globally_oldest [OF ordered.streams_range_axioms demo_store_inv, of 2]
  by (auto simp: demo_store_count)

text \<open>
  \<open>DropBefore(cutoff)\<close> keeps, in every stream, exactly the samples whose time is not
  before the cutoff, in their order, and reports the number removed; so the binary search finds
  the right boundary and the count stays exact.
\<close>

theorem drop_before_keeps_window:
  assumes "streams_range rng" and "store_inv st"
  shows "\<exists>st'. store_drop_before rng c st = (store_count st - store_count st', st') \<and> store_inv st' \<and>
    (\<forall>i. store_samples i st' =
      (case filter (\<lambda>x. c \<le> smp_time x) (contents st i) of [] \<Rightarrow> None | x # xs \<Rightarrow> Some (x # xs)))"
  using streams_range.store_drop_before_ok [OF assms, of c]
  by (auto simp: store_samples_contents log_keep_def split: list.splits)

theorem drop_before_keeps_window_witness:
  "\<exists>st'. store_drop_before ascending_keys 3 demo_store = (3 - store_count st', st') \<and>
    store_samples (demo_id ''a'') st' = Some [demo_sample 3] \<and> store_samples (demo_id ''b'') st' = None"
  using drop_before_keeps_window [OF ordered.streams_range_axioms demo_store_inv, of 3]
  by (auto simp: demo_store_count demo_store_contents demo_sample_def)

end
