(* ===== verification/Go_Float.thy ===== *)
theory Go_Float
  imports Go_Strings
begin

text \<open>
  IEEE-754 binary64 as Go's \<open>float64\<close>, and the two functions of \<open>strconv\<close> that turn
  it into text and back. A finite value is a sign, a mantissa and a binary exponent; rounding of
  an exact ratio is round-to-nearest, ties to even, with overflow to infinity, done in integer
  arithmetic so that closed instances evaluate.

  \<open>parse_float\<close> follows \<open>strconv.ParseFloat(s, 64)\<close>: decimal and hexadecimal
  literals, underscores, \<open>inf\<close>, \<open>infinity\<close> and \<open>nan\<close>; \<^const>\<open>None\<close> is any
  error, syntax or range. \<open>format_float\<close> is \<open>FormatFloat(f, 'f', -1, 64)\<close>: the
  shortest decimal that parses back to \<open>f\<close>.
\<close>

datatype float64 = FNaN | FInf bool | FFin bool nat int

section \<open>Comparison\<close>

definition sign_int :: "bool \<Rightarrow> nat \<Rightarrow> int" where
  "sign_int s m = (if s then - int m else int m)"

definition scaled :: "bool \<Rightarrow> nat \<Rightarrow> int \<Rightarrow> int \<Rightarrow> int" where
  \<comment> \<open>the value over the common exponent \<open>e0\<close>\<close>
  "scaled s m e e0 = sign_int s m * 2 ^ nat (e - e0)"

fun f64_less :: "float64 \<Rightarrow> float64 \<Rightarrow> bool" where
  "f64_less (FFin s m e) (FFin t n f) \<longleftrightarrow> scaled s m e (min e f) < scaled t n f (min e f)"
| "f64_less (FFin s m e) (FInf t) \<longleftrightarrow> \<not> t"
| "f64_less (FInf s) (FFin t n f) \<longleftrightarrow> s"
| "f64_less (FInf s) (FInf t) \<longleftrightarrow> s \<and> \<not> t"
| "f64_less _ _ \<longleftrightarrow> False"

fun f64_le :: "float64 \<Rightarrow> float64 \<Rightarrow> bool" where
  "f64_le (FFin s m e) (FFin t n f) \<longleftrightarrow> scaled s m e (min e f) \<le> scaled t n f (min e f)"
| "f64_le (FFin s m e) (FInf t) \<longleftrightarrow> \<not> t"
| "f64_le (FInf s) (FFin t n f) \<longleftrightarrow> s"
| "f64_le (FInf s) (FInf t) \<longleftrightarrow> s \<or> \<not> t"
| "f64_le _ _ \<longleftrightarrow> False"

lemma f64_NaN [simp]: "\<not> f64_less FNaN x" "\<not> f64_less x FNaN" "\<not> f64_le FNaN x" "\<not> f64_le x FNaN"
  by (cases x; simp)+

lemma f64_not_less: "x \<noteq> FNaN \<Longrightarrow> y \<noteq> FNaN \<Longrightarrow> \<not> f64_less x y \<longleftrightarrow> f64_le y x"
  by (cases x; cases y) (auto simp: min.commute)

lemma f64_less_imp_le: "f64_less x y \<Longrightarrow> f64_le x y"
  by (cases x; cases y) auto

lemma f64_less_irrefl [simp]: "\<not> f64_less x x"
  by (cases x) auto

section \<open>Rounding an exact ratio\<close>

fun nat_bits :: "nat \<Rightarrow> nat" where
  "nat_bits n = (if n = 0 then 0 else Suc (nat_bits (n div 2)))"

declare nat_bits.simps [simp del]

definition min_exp :: int where "min_exp = -1074"
definition max_exp :: int where "max_exp = 971"

definition ratio_at :: "nat \<Rightarrow> nat \<Rightarrow> int \<Rightarrow> nat \<times> nat" where
  \<comment> \<open>\<open>n / d / 2^e\<close> as a ratio of naturals\<close>
  "ratio_at n d e = (if 0 \<le> e then (n, d * 2 ^ nat e) else (n * 2 ^ nat (- e), d))"

definition round_half_even :: "nat \<Rightarrow> nat \<Rightarrow> nat" where
  "round_half_even n d =
     (let q = n div d; r = n mod d
      in if 2 * r > d \<or> 2 * r = d \<and> odd q then q + 1 else q)"

definition ratio_exp :: "nat \<Rightarrow> nat \<Rightarrow> int" where
  \<comment> \<open>the exponent that leaves 53 bits before the point, at least the subnormal one\<close>
  "ratio_exp n d =
     (let e0 = int (nat_bits n) - int (nat_bits d) - 53;
          (a, b) = ratio_at n d e0
      in max min_exp (if a div b \<ge> 2 ^ 53 then e0 + 1 else e0))"

definition round_ratio :: "bool \<Rightarrow> nat \<Rightarrow> nat \<Rightarrow> float64" where
  "round_ratio s n d =
     (if n = 0 then FFin s 0 min_exp
      else let e = ratio_exp n d;
               (a, b) = ratio_at n d e;
               m = round_half_even a b;
               (m', e') = (if m = 2 ^ 53 then (2 ^ 52, e + 1) else (m, e))
           in if e' > max_exp then FInf s else FFin s m' e')"

section \<open>ParseFloat\<close>

definition lower_byte :: "char \<Rightarrow> char" where
  "lower_byte c = (if CHR ''A'' \<le> c \<and> c \<le> CHR ''Z'' then char_of ((of_char c :: nat) + 32) else c)"

definition hex_digit :: "char \<Rightarrow> bool" where
  "hex_digit c \<longleftrightarrow> CHR ''a'' \<le> lower_byte c \<and> lower_byte c \<le> CHR ''f''"

definition digit_of :: "bool \<Rightarrow> char \<Rightarrow> nat option" where
  "digit_of hex c =
     (if is_digit c then Some (digit_val c)
      else if hex \<and> hex_digit c then Some (of_char (lower_byte c) - 97 + 10)
      else None)"

record mantissa =
  mant_value :: nat    \<comment> \<open>all digits read, as one number\<close>
  mant_frac :: nat     \<comment> \<open>how many of them came after the point\<close>
  mant_dot :: bool
  mant_digits :: bool

fun read_mantissa :: "bool \<Rightarrow> mantissa \<Rightarrow> string \<Rightarrow> mantissa \<times> string" where
  "read_mantissa hex a [] = (a, [])"
| "read_mantissa hex a (c # cs) =
     (if c = CHR ''_'' then read_mantissa hex a cs
      else if c = CHR ''.'' then
        (if mant_dot a then (a, c # cs) else read_mantissa hex (a\<lparr>mant_dot := True\<rparr>) cs)
      else case digit_of hex c of
        None \<Rightarrow> (a, c # cs)
      | Some d \<Rightarrow> read_mantissa hex
          (a\<lparr>mant_value := (if hex then 16 else 10) * mant_value a + d,
             mant_frac := (if mant_dot a then Suc (mant_frac a) else mant_frac a),
             mant_digits := True\<rparr>) cs)"

fun read_exp_digits :: "nat \<Rightarrow> string \<Rightarrow> nat \<times> string" where
  "read_exp_digits e [] = (e, [])"
| "read_exp_digits e (c # cs) =
     (if c = CHR ''_'' then read_exp_digits e cs
      else if is_digit c then read_exp_digits (if e < 10000 then 10 * e + digit_val c else e) cs
      else (e, c # cs))"

definition read_exponent :: "string \<Rightarrow> (int \<times> string) option" where
  \<comment> \<open>after the exponent letter: an optional sign and at least one digit\<close>
  "read_exponent s =
     (let (sg, t) = (case s of c # cs \<Rightarrow>
            if c = CHR ''+'' then (1, cs) else if c = CHR ''-'' then (- 1, cs) else (1, s)
          | [] \<Rightarrow> (1, []))
      in case t of [] \<Rightarrow> None
         | c # cs \<Rightarrow> if is_digit c
             then (case read_exp_digits 0 t of (e, r) \<Rightarrow> Some (sg * int e, r)) else None)"

datatype uprev = UBegin | UDigit | UScore | UOther

fun underscore_scan :: "bool \<Rightarrow> uprev \<Rightarrow> string \<Rightarrow> bool" where
  "underscore_scan hex i [] \<longleftrightarrow> i \<noteq> UScore"
| "underscore_scan hex i (c # cs) =
     (if is_digit c \<or> hex \<and> hex_digit c then underscore_scan hex UDigit cs
      else if c = CHR ''_'' then i = UDigit \<and> underscore_scan hex UScore cs
      else i \<noteq> UScore \<and> underscore_scan hex UOther cs)"

definition drop_sign :: "string \<Rightarrow> string" where
  "drop_sign s = (case s of c # cs \<Rightarrow> if c = CHR ''+'' \<or> c = CHR ''-'' then cs else s | [] \<Rightarrow> [])"

definition underscore_ok :: "string \<Rightarrow> bool" where
  "underscore_ok s =
     (case drop_sign s of
        z # x # cs \<Rightarrow>
          if z = CHR ''0'' \<and> lower_byte x \<in> {CHR ''b'', CHR ''o'', CHR ''x''}
          then underscore_scan (lower_byte x = CHR ''x'') UDigit cs
          else underscore_scan False UBegin (z # x # cs)
      | t \<Rightarrow> underscore_scan False UBegin t)"

definition power_ratio :: "bool \<Rightarrow> nat \<Rightarrow> nat \<Rightarrow> int \<Rightarrow> float64" where
  \<comment> \<open>\<open>m * b^k\<close> rounded\<close>
  "power_ratio s m b k =
     (if 0 \<le> k then round_ratio s (m * b ^ nat k) 1 else round_ratio s m (b ^ nat (- k)))"

definition parse_special :: "string \<Rightarrow> float64 option" where
  "parse_special s =
     (let t = map lower_byte s in
      if t = ''nan'' then Some FNaN
      else if t \<in> {''inf'', ''+inf'', ''infinity'', ''+infinity''} then Some (FInf False)
      else if t \<in> {''-inf'', ''-infinity''} then Some (FInf True)
      else None)"

definition parse_number :: "string \<Rightarrow> float64 option" where
  "parse_number s =
     (let neg = (case s of c # _ \<Rightarrow> c = CHR ''-'' | [] \<Rightarrow> False);
          t = drop_sign s;
          hex = (case t of z # x # _ # _ \<Rightarrow> z = CHR ''0'' \<and> lower_byte x = CHR ''x'' | _ \<Rightarrow> False);
          (a, r) = read_mantissa hex
            \<lparr>mant_value = 0, mant_frac = 0, mant_dot = False, mant_digits = False\<rparr>
            (if hex then drop 2 t else t);
          frac = (if hex then 4 * int (mant_frac a) else int (mant_frac a));
          base = (if hex then 2 else 10)
      in if \<not> mant_digits a \<or> CHR ''_'' \<in> set s \<and> \<not> underscore_ok s then None
         else case r of
           [] \<Rightarrow> if hex then None else Some (power_ratio neg (mant_value a) base (- frac))
         | c # cs \<Rightarrow>
             if lower_byte c = (if hex then CHR ''p'' else CHR ''e'')
             then (case read_exponent cs of
                 Some (e, []) \<Rightarrow> Some (power_ratio neg (mant_value a) base (e - frac))
               | _ \<Rightarrow> None)
             else None)"

definition parse_float :: "string \<Rightarrow> float64 option" where
  "parse_float s =
     (case parse_special s of
        Some f \<Rightarrow> Some f
      | None \<Rightarrow>
          (case parse_number s of
             None \<Rightarrow> None
           | Some (FInf b) \<Rightarrow> None
           | Some f \<Rightarrow> Some f))"

section \<open>FormatFloat with the shortest precision\<close>

definition fin_ratio :: "nat \<Rightarrow> int \<Rightarrow> nat \<times> nat" where
  "fin_ratio m e = (if 0 \<le> e then (m * 2 ^ nat e, 1) else (m, 2 ^ nat (- e)))"

definition pow10_at :: "nat \<times> nat \<Rightarrow> int \<Rightarrow> nat \<times> nat" where
  \<comment> \<open>a ratio divided by \<open>10^k\<close>\<close>
  "pow10_at r k = (if 0 \<le> k then (fst r, snd r * 10 ^ nat k) else (fst r * 10 ^ nat (- k), snd r))"

definition decimal_point :: "nat \<times> nat \<Rightarrow> int" where
  \<comment> \<open>the number of digits before the decimal point: the \<open>dp\<close> with \<open>10^(dp-1) \<le> a/b < 10^dp\<close>\<close>
  "decimal_point r =
     (let est = int (length (nat_digits (fst r))) - int (length (nat_digits (snd r)));
          (a, b) = pow10_at r est
      in if a < b then est else est + 1)"

definition decimal_float :: "bool \<Rightarrow> nat \<Rightarrow> int \<Rightarrow> float64" where
  "decimal_float s c k = power_ratio s c 10 k"

definition shortest_at :: "float64 \<Rightarrow> nat \<times> nat \<Rightarrow> bool \<Rightarrow> nat \<Rightarrow> (nat \<times> int) option" where
  \<comment> \<open>the closest decimal of \<open>n\<close> digits that rounds to \<open>f\<close>, if there is one\<close>
  "shortest_at f r s n =
     (let k = decimal_point r - int n;
          (a, b) = pow10_at r k;
          lo = a div b; hi = lo + 1; near = round_half_even a b;
          far = (if near = lo then hi else lo)
      in if decimal_float s near k = f then Some (near, k)
         else if decimal_float s far k = f then Some (far, k)
         else None)"

fun first_some :: "('a \<Rightarrow> 'b option) \<Rightarrow> 'a list \<Rightarrow> 'b option" where
  "first_some g [] = None"
| "first_some g (x # xs) = (case g x of Some y \<Rightarrow> Some y | None \<Rightarrow> first_some g xs)"

definition exact_decimal :: "nat \<Rightarrow> int \<Rightarrow> nat \<times> int" where
  "exact_decimal m e = (if 0 \<le> e then (m * 2 ^ nat e, 0) else (m * 5 ^ nat (- e), e))"

definition shortest_decimal :: "bool \<Rightarrow> nat \<Rightarrow> int \<Rightarrow> nat \<times> int" where
  \<comment> \<open>17 digits are enough for every float64; the exact expansion closes the search\<close>
  "shortest_decimal s m e =
     (if m = 0 then (0, 0)
      else case first_some (shortest_at (FFin s m e) (fin_ratio m e) s) [1..<18] of
        Some ck \<Rightarrow> ck
      | None \<Rightarrow> exact_decimal m e)"

definition pad_digits :: "nat \<Rightarrow> nat \<Rightarrow> string" where
  "pad_digits j n = (let ds = nat_digits n in replicate (j - length ds) CHR ''0'' @ ds)"

definition decimal_string :: "nat \<Rightarrow> int \<Rightarrow> string" where
  "decimal_string c k =
     (if 0 \<le> k then nat_digits (c * 10 ^ nat k)
      else nat_digits (c div 10 ^ nat (- k)) @ ''.'' @ pad_digits (nat (- k)) (c mod 10 ^ nat (- k)))"

fun format_float :: "float64 \<Rightarrow> string" where
  "format_float FNaN = ''NaN''"
| "format_float (FInf s) = (if s then ''-Inf'' else ''+Inf'')"
| "format_float (FFin s m e) =
     (case shortest_decimal s m e of (c, k) \<Rightarrow>
        (if s then ''-'' else []) @ decimal_string c k)"

end
