(* ===== verification/Monitor.thy ===== *)
theory Monitor
  imports Domain Go_Float
begin

text \<open>
  \<open>internal/domain/alert.go\<close>: comparison operators, alert rules and the monitor, the
  state machine that turns a stream of samples and clock ticks into \<open>Fired\<close> and
  \<open>Resolved\<close> events. The monitor keeps three fields; the lemmas relate them to the whole
  history of what it has seen: a threshold rule is firing exactly when its current run of
  breaching samples has lasted \<open>For\<close>, an absent rule exactly when a check has found the
  stream silent for \<open>For\<close>, and the events of any history alternate, starting with
  \<open>Fired\<close>.
\<close>

section \<open>Operators, rules, events\<close>

datatype op = OpGreater | OpGreaterEq | OpLess | OpLessEq | OpAbsent

text \<open>The \<open>opNames\<close> map, and its two uses. The names are distinct, so the order in which
  \<open>ParseOp\<close> ranges over the map does not matter.\<close>

definition op_names :: "(op \<times> string) list" where
  "op_names = [(OpGreater, ''>''), (OpGreaterEq, ''>=''), (OpLess, ''<''), (OpLessEq, ''<=''),
     (OpAbsent, ''absent'')]"

definition op_string :: "op \<Rightarrow> string" where
  "op_string o' = the (map_of op_names o')"

fun parse_op_in :: "(op \<times> string) list \<Rightarrow> string \<Rightarrow> op option" where
  "parse_op_in [] s = None"
| "parse_op_in ((o', name) # rest) s = (if name = s then Some o' else parse_op_in rest s)"

definition parse_op :: "string \<Rightarrow> op option" where
  "parse_op s = parse_op_in op_names s"

fun holds :: "op \<Rightarrow> float64 \<Rightarrow> float64 \<Rightarrow> bool" where
  "holds OpGreater value threshold = f64_less threshold value"
| "holds OpGreaterEq value threshold = f64_le threshold value"
| "holds OpLess value threshold = f64_less value threshold"
| "holds OpLessEq value threshold = f64_le value threshold"
| "holds OpAbsent value threshold = False"

record rule =
  rl_stream :: stream_id
  rl_op :: op
  rl_threshold :: float64
  rl_for :: duration
  rl_channel :: string

datatype event = NoEvent | Fired | Resolved

fun event_name :: "event \<Rightarrow> string" where
  "event_name NoEvent = ''none''"
| "event_name Fired = ''fired''"
| "event_name Resolved = ''resolved''"

section \<open>The monitor\<close>

record monitor =
  mon_rule :: rule
  mon_grace :: duration
  mon_since :: time
  mon_last_seen :: time
  mon_fired :: bool

definition new_monitor :: "rule \<Rightarrow> monitor" where
  "new_monitor r = \<lparr>mon_rule = r, mon_grace = 0, mon_since = 0, mon_last_seen = 0, mon_fired = False\<rparr>"

definition monitor_firing :: "monitor \<Rightarrow> bool" where
  "monitor_firing m = mon_fired m"

definition monitor_observe :: "time \<Rightarrow> float64 \<Rightarrow> monitor \<Rightarrow> event \<times> monitor" where
  "monitor_observe t value m =
     (if rl_op (mon_rule m) = OpAbsent then
        let m = m\<lparr>mon_last_seen := t\<rparr> in
        if mon_fired m then (Resolved, m\<lparr>mon_fired := False\<rparr>) else (NoEvent, m)
      else if \<not> holds (rl_op (mon_rule m)) value (rl_threshold (mon_rule m)) then
        let was_fired = mon_fired m;
            m = m\<lparr>mon_since := 0, mon_fired := False\<rparr>
        in if was_fired then (Resolved, m) else (NoEvent, m)
      else
        let m = (if time_is_zero (mon_since m) then m\<lparr>mon_since := t\<rparr> else m) in
        if mon_fired m \<or> dur_less (time_sub t (mon_since m)) (rl_for (mon_rule m)) then (NoEvent, m)
        else (Fired, m\<lparr>mon_fired := True\<rparr>))"

definition monitor_check :: "time \<Rightarrow> monitor \<Rightarrow> event \<times> monitor" where
  "monitor_check now m =
     (if rl_op (mon_rule m) \<noteq> OpAbsent then (NoEvent, m)
      else if time_is_zero (mon_last_seen m) then
        (NoEvent, m\<lparr>mon_last_seen := time_add now (mon_grace m)\<rparr>)
      else if mon_fired m \<or> dur_less (time_sub now (mon_last_seen m)) (rl_for (mon_rule m)) then
        (NoEvent, m)
      else (Fired, m\<lparr>mon_fired := True\<rparr>))"

record notification =
  ntf_rule :: rule
  ntf_event :: event
  ntf_time :: time
  ntf_value :: string
  ntf_unit :: string

section \<open>Operators\<close>

lemma op_string_simps [simp, monitor_simps]:
  "op_string OpGreater = ''>''" "op_string OpGreaterEq = ''>=''" "op_string OpLess = ''<''"
  "op_string OpLessEq = ''<=''" "op_string OpAbsent = ''absent''"
  by (simp_all add: op_string_def op_names_def)

lemma parse_op_iff: "parse_op s = Some o' \<longleftrightarrow> s = op_string o'"
  by (cases o') (auto simp: parse_op_def op_names_def)

lemma holds_NaN [simp]: "\<not> holds o' FNaN x" "\<not> holds o' x FNaN"
  by (cases o'; simp)+

section \<open>One step\<close>

text \<open>What a monitor is fed: a sample, or a look at the clock.\<close>

datatype input = Sample_In time float64 | Clock_In time

fun monitor_step :: "input \<Rightarrow> monitor \<Rightarrow> event \<times> monitor" where
  "monitor_step (Sample_In t v) m = monitor_observe t v m"
| "monitor_step (Clock_In t) m = monitor_check t m"

fun monitor_run :: "input list \<Rightarrow> monitor \<Rightarrow> event list \<times> monitor" where
  "monitor_run [] m = ([], m)"
| "monitor_run (i # is) m =
     (let (e, m1) = monitor_step i m; (es, m2) = monitor_run is m1 in (e # es, m2))"

lemma monitor_observe_frame [simp]:
  "mon_rule (snd (monitor_observe t v m)) = mon_rule m"
  "mon_grace (snd (monitor_observe t v m)) = mon_grace m"
  by (simp_all add: monitor_observe_def Let_def)

lemma monitor_check_frame [simp]:
  "mon_rule (snd (monitor_check t m)) = mon_rule m"
  "mon_grace (snd (monitor_check t m)) = mon_grace m"
  by (simp_all add: monitor_check_def)

lemma monitor_step_frame [simp]:
  "mon_rule (snd (monitor_step i m)) = mon_rule m"
  "mon_grace (snd (monitor_step i m)) = mon_grace m"
  by (cases i; simp)+

lemma monitor_run_frame [simp]:
  "mon_rule (snd (monitor_run is m)) = mon_rule m"
  "mon_grace (snd (monitor_run is m)) = mon_grace m"
  by (induction "is" arbitrary: m) (auto simp: Let_def split: prod.splits, (metis monitor_step_frame snd_conv)+)

lemma monitor_run_append:
  "monitor_run (is @ js) m =
     (let (es, m1) = monitor_run is m; (fs, m2) = monitor_run js m1 in (es @ fs, m2))"
  by (induction "is" arbitrary: m) (auto simp: Let_def split: prod.splits)

lemma monitor_run_snoc:
  "snd (monitor_run (is @ [i]) m) = snd (monitor_step i (snd (monitor_run is m)))"
  "fst (monitor_run (is @ [i]) m) =
     fst (monitor_run is m) @ [fst (monitor_step i (snd (monitor_run is m)))]"
  by (auto simp: monitor_run_append Let_def split: prod.splits)

text \<open>An event is reported exactly when the firing state changes, and tells how it changes.\<close>

lemma monitor_step_event:
  "fst (monitor_step i m) =
     (if mon_fired m = mon_fired (snd (monitor_step i m)) then NoEvent
      else if mon_fired m then Resolved else Fired)"
  by (cases i) (auto simp: monitor_observe_def monitor_check_def Let_def)

section \<open>Alternation of events\<close>

fun alternates :: "bool \<Rightarrow> event list \<Rightarrow> bool" where
  \<comment> \<open>\<open>Fired\<close> and \<open>Resolved\<close> take turns; the flag says whether an alert is open\<close>
  "alternates open [] \<longleftrightarrow> True"
| "alternates open (NoEvent # es) \<longleftrightarrow> alternates open es"
| "alternates open (Fired # es) \<longleftrightarrow> \<not> open \<and> alternates True es"
| "alternates open (Resolved # es) \<longleftrightarrow> open \<and> alternates False es"

lemma monitor_run_alternates: "alternates (mon_fired m) (fst (monitor_run is m))"
proof (induction "is" arbitrary: m)
  case Nil
  then show ?case by simp
next
  case (Cons i "is")
  obtain e m1 where step: "monitor_step i m = (e, m1)" by (cases "monitor_step i m")
  obtain es m2 where run: "monitor_run is m1 = (es, m2)" by (cases "monitor_run is m1")
  have "alternates (mon_fired m1) es" using Cons [of m1] run by simp
  then show ?case
    using monitor_step_event [of i m] step run by (cases "mon_fired m"; cases "mon_fired m1") auto
qed

lemma monitor_run_count:
  "int (count_list (fst (monitor_run is m)) Fired) + (if mon_fired m then 1 else 0) =
   int (count_list (fst (monitor_run is m)) Resolved) + (if mon_fired (snd (monitor_run is m)) then 1 else 0)"
proof (induction "is" arbitrary: m)
  case Nil
  then show ?case by simp
next
  case (Cons i "is")
  obtain e m1 where step: "monitor_step i m = (e, m1)" by (cases "monitor_step i m")
  obtain es m2 where run: "monitor_run is m1 = (es, m2)" by (cases "monitor_run is m1")
  show ?case
    using Cons [of m1] monitor_step_event [of i m] step run
    by (cases "mon_fired m"; cases "mon_fired m1") auto
qed

section \<open>Threshold rules against the history\<close>

fun input_time :: "input \<Rightarrow> time" where
  "input_time (Sample_In t v) = t"
| "input_time (Clock_In t) = t"

fun samples_of :: "input list \<Rightarrow> (time \<times> float64) list" where
  "samples_of [] = []"
| "samples_of (Sample_In t v # is) = (t, v) # samples_of is"
| "samples_of (Clock_In t # is) = samples_of is"

definition breaches :: "rule \<Rightarrow> time \<times> float64 \<Rightarrow> bool" where
  "breaches r x \<longleftrightarrow> holds (rl_op r) (snd x) (rl_threshold r)"

definition current_breach :: "rule \<Rightarrow> (time \<times> float64) list \<Rightarrow> (time \<times> float64) list" where
  \<comment> \<open>the unbroken run of breaching samples the history ends with\<close>
  "current_breach r h = rev (takeWhile (breaches r) (rev h))"

definition breach_start :: "rule \<Rightarrow> (time \<times> float64) list \<Rightarrow> time" where
  "breach_start r h = (case current_breach r h of [] \<Rightarrow> 0 | x # _ \<Rightarrow> fst x)"

definition lasted :: "rule \<Rightarrow> time \<Rightarrow> time \<Rightarrow> bool" where
  \<comment> \<open>at \<open>t\<close> at least \<open>For\<close> has passed since \<open>t0\<close>\<close>
  "lasted r t0 t \<longleftrightarrow> \<not> dur_less (time_sub t t0) (rl_for r)"

definition sustained :: "rule \<Rightarrow> (time \<times> float64) list \<Rightarrow> bool" where
  \<comment> \<open>some sample of the current breach came \<open>For\<close> after its first one\<close>
  "sustained r h \<longleftrightarrow> list_ex (\<lambda>x. lasted r (breach_start r h) (fst x)) (current_breach r h)"

lemma samples_of_append [simp]: "samples_of (is @ js) = samples_of is @ samples_of js"
  by (induction "is" rule: samples_of.induct) auto

lemma samples_of_time: "x \<in> set (samples_of is) \<Longrightarrow> \<exists>i\<in>set is. input_time i = fst x"
  by (induction "is" rule: samples_of.induct) auto

lemma current_breach_snoc:
  "current_breach r (h @ [x]) = (if breaches r x then current_breach r h @ [x] else [])"
  by (simp add: current_breach_def)

lemma current_breach_Nil [simp]: "current_breach r [] = []"
  by (simp add: current_breach_def)

lemma current_breach_subset: "set (current_breach r h) \<subseteq> set h"
  by (auto simp: current_breach_def dest: set_takeWhileD)

lemma breach_start_snoc:
  "breach_start r (h @ [x]) =
     (if \<not> breaches r x then 0 else if current_breach r h = [] then fst x else breach_start r h)"
  by (auto simp: breach_start_def current_breach_snoc split: list.splits)

lemma breach_start_not_zero:
  assumes "\<And>x. x \<in> set h \<Longrightarrow> \<not> time_is_zero (fst x)" and "current_breach r h \<noteq> []"
  shows "\<not> time_is_zero (breach_start r h)"
proof -
  obtain x xs where x: "current_breach r h = x # xs" using assms(2) by (cases "current_breach r h") auto
  then have "x \<in> set h" using current_breach_subset [of r h] by auto
  then show ?thesis using assms(1) x by (simp add: breach_start_def)
qed

lemma breach_start_Nil: "current_breach r h = [] \<Longrightarrow> breach_start r h = 0"
  by (simp add: breach_start_def)

lemma not_sustained_Nil: "current_breach r h = [] \<Longrightarrow> \<not> sustained r h"
  by (simp add: sustained_def)

lemma sustained_snoc:
  "sustained r (h @ [x]) \<longleftrightarrow>
     breaches r x \<and> (sustained r h \<or> lasted r (breach_start r (h @ [x])) (fst x))"
  by (auto simp: sustained_def current_breach_snoc breach_start_snoc)

text \<open>The state of a threshold monitor is a function of the samples it has seen.\<close>

lemma threshold_state:
  assumes "rl_op r \<noteq> OpAbsent"
    and "list_all (\<lambda>j. \<not> time_is_zero (input_time j)) is"
  shows "snd (monitor_run is ((new_monitor r)\<lparr>mon_grace := g\<rparr>)) =
    (new_monitor r)\<lparr>mon_grace := g, mon_since := breach_start r (samples_of is),
      mon_fired := sustained r (samples_of is)\<rparr>"
  using assms(2)
proof (induction "is" rule: rev_induct)
  case Nil
  then show ?case by (simp add: new_monitor_def breach_start_def sustained_def)
next
  case (snoc i "is")
  let ?m = "(new_monitor r)\<lparr>mon_grace := g, mon_since := breach_start r (samples_of is),
      mon_fired := sustained r (samples_of is)\<rparr>"
  have run: "snd (monitor_run (is @ [i]) ((new_monitor r)\<lparr>mon_grace := g\<rparr>)) = snd (monitor_step i ?m)"
    using snoc by (simp add: monitor_run_snoc)
  show ?case
  proof (cases i)
    case (Clock_In t)
    with run assms(1) show ?thesis by (simp add: monitor_check_def new_monitor_def)
  next
    case (Sample_In t v)
    have nz: "current_breach r (samples_of is) \<noteq> [] \<Longrightarrow> \<not> time_is_zero (breach_start r (samples_of is))"
    proof (rule breach_start_not_zero)
      fix x assume "x \<in> set (samples_of is)"
      then obtain j where "j \<in> set is" and "input_time j = fst x" using samples_of_time by blast
      with snoc.prems show "\<not> time_is_zero (fst x)" by (auto simp: list_all_iff)
    qed
    have t: "\<not> time_is_zero t" using snoc.prems Sample_In by simp
    show ?thesis
    proof (cases "breaches r (t, v)")
      case False
      with run assms(1) Sample_In show ?thesis
        by (simp add: monitor_observe_def new_monitor_def Let_def breach_start_snoc sustained_snoc
            breaches_def)
    next
      case True
      note step = monitor_observe_def new_monitor_def Let_def breach_start_snoc sustained_snoc
        breaches_def lasted_def
      show ?thesis
      proof (cases "current_breach r (samples_of is) = []")
        case none: True
        with True run assms(1) Sample_In t show ?thesis
          by (simp add: step breach_start_Nil not_sustained_Nil time_is_zero_def)
      next
        case some: False
        with True run assms(1) Sample_In nz show ?thesis by (simp add: step)
      qed
    qed
  qed
qed

section \<open>Absent rules against the history\<close>

fun is_clock :: "input \<Rightarrow> bool" where
  "is_clock (Clock_In t) \<longleftrightarrow> True"
| "is_clock (Sample_In t v) \<longleftrightarrow> False"

fun silence :: "duration \<Rightarrow> input list \<Rightarrow> (time \<times> time list) option" where
  \<comment> \<open>when the current silence began, and the checks made since; the history is latest first\<close>
  "silence g [] = None"
| "silence g (Sample_In t v # h) = Some (t, [])"
| "silence g (Clock_In t # h) =
     (case silence g h of None \<Rightarrow> Some (time_add t g, []) | Some (t0, cs) \<Rightarrow> Some (t0, cs @ [t]))"

definition silent_too_long :: "rule \<Rightarrow> duration \<Rightarrow> input list \<Rightarrow> bool" where
  "silent_too_long r g h =
     (case silence g (rev h) of None \<Rightarrow> False | Some (t0, cs) \<Rightarrow> list_ex (lasted r t0) cs)"

definition silence_start :: "duration \<Rightarrow> input list \<Rightarrow> time" where
  "silence_start g h = (case silence g (rev h) of None \<Rightarrow> 0 | Some (t0, cs) \<Rightarrow> t0)"

lemma silence_None_iff: "silence g h = None \<longleftrightarrow> h = []"
  by (induction g h rule: silence.induct) (auto split: option.splits)

lemma silence_start_snoc:
  "silence_start g (h @ [Sample_In t v]) = t"
  "silence_start g (h @ [Clock_In t]) = (if h = [] then time_add t g else silence_start g h)"
proof -
  have "silence g (rev h) = None \<longleftrightarrow> h = []" by (simp add: silence_None_iff)
  then show "silence_start g (h @ [Sample_In t v]) = t"
    and "silence_start g (h @ [Clock_In t]) = (if h = [] then time_add t g else silence_start g h)"
    by (auto simp: silence_start_def split: option.splits)
qed

lemma silent_too_long_snoc:
  "\<not> silent_too_long r g (h @ [Sample_In t v])"
  "silent_too_long r g (h @ [Clock_In t]) \<longleftrightarrow>
     h \<noteq> [] \<and> (silent_too_long r g h \<or> lasted r (silence_start g h) t)"
proof -
  have "silence g (rev h) = None \<longleftrightarrow> h = []" by (simp add: silence_None_iff)
  then show "\<not> silent_too_long r g (h @ [Sample_In t v])"
    and "silent_too_long r g (h @ [Clock_In t]) \<longleftrightarrow>
      h \<noteq> [] \<and> (silent_too_long r g h \<or> lasted r (silence_start g h) t)"
    by (auto simp: silent_too_long_def silence_start_def split: option.splits)
qed

lemma silence_start_pos:
  assumes "\<And>i. i \<in> set h \<Longrightarrow> 0 < input_time i" and "0 \<le> sint g" and "h \<noteq> []"
  shows "0 < silence_start g h"
  using assms
proof (induction h rule: rev_induct)
  case Nil
  then show ?case by simp
next
  case (snoc i h)
  have "0 < input_time i" using snoc.prems(1) [of i] by simp
  with snoc show ?case
    by (cases i) (auto simp: silence_start_snoc time_add_def)
qed

lemma absent_state:
  assumes "rl_op r = OpAbsent"
    and "list_all (\<lambda>j. 0 < input_time j) is" and "0 \<le> sint g"
  shows "snd (monitor_run is ((new_monitor r)\<lparr>mon_grace := g\<rparr>)) =
    (new_monitor r)\<lparr>mon_grace := g, mon_last_seen := silence_start g is,
      mon_fired := silent_too_long r g is\<rparr>"
  using assms(2)
proof (induction "is" rule: rev_induct)
  case Nil
  then show ?case by (simp add: new_monitor_def silence_start_def silent_too_long_def)
next
  case (snoc i "is")
  have run: "snd (monitor_run (is @ [i]) ((new_monitor r)\<lparr>mon_grace := g\<rparr>)) =
      snd (monitor_step i ((new_monitor r)\<lparr>mon_grace := g, mon_last_seen := silence_start g is,
        mon_fired := silent_too_long r g is\<rparr>))"
    using snoc by (simp add: monitor_run_snoc)
  have pos: "is \<noteq> [] \<Longrightarrow> 0 < silence_start g is"
    using snoc.prems assms(3) by (intro silence_start_pos) (auto simp: list_all_iff)
  have nil: "is = [] \<Longrightarrow> silence_start g is = 0 \<and> \<not> silent_too_long r g is"
    by (simp add: silence_start_def silent_too_long_def)
  show ?case
  proof (cases i)
    case (Sample_In t v)
    with run assms(1) show ?thesis
      by (simp add: monitor_observe_def new_monitor_def Let_def silence_start_snoc silent_too_long_snoc)
  next
    case (Clock_In t)
    show ?thesis
    proof (cases "is = []")
      case True
      with run nil Clock_In assms(1) show ?thesis
        by (simp add: monitor_check_def new_monitor_def silent_too_long_snoc time_is_zero_def
            silence_start_snoc(2) [of g "[]", simplified]
            silent_too_long_snoc(2) [of r g "[]", simplified])
    next
      case False
      with run pos Clock_In assms(1) show ?thesis
        by (simp add: monitor_check_def new_monitor_def silence_start_snoc silent_too_long_snoc
            time_is_zero_def lasted_def)
    qed
  qed
qed

section \<open>A concrete rule for the witnesses\<close>

definition demo_stream :: stream_id where
  "demo_stream = \<lparr>sid_namespace = ''iam'', sid_service = ''iam-api'', sid_kind = Metrics,
     sid_name = ''go.memory.used''\<rparr>"

definition demo_rule :: "op \<Rightarrow> rule" where
  \<comment> \<open>\<open>alert /iam/iam-api/metrics/go.memory.used.dat <op> 100 for 3m to ops\<close>\<close>
  "demo_rule o' = \<lparr>rl_stream = demo_stream, rl_op = o', rl_threshold = round_ratio False 100 1,
     rl_for = seconds 180, rl_channel = ''ops''\<rparr>"

section \<open>Properties\<close>

text \<open>
  C4: A threshold monitor against its whole history. Whatever samples and clock ticks it has seen
  (none of them stamped with the zero Time), it is firing if and only if some sample of the
  unbroken run of breaching samples the history ends with came at least \<open>For\<close> after the run's
  first sample; and the event the next input reports is the change of that condition.
\<close>

theorem threshold_monitor_history:
  assumes "rl_op r \<noteq> OpAbsent"
    and "list_all (\<lambda>j. \<not> time_is_zero (input_time j)) (is @ [i])"
    and "m = snd (monitor_run is ((new_monitor r)\<lparr>mon_grace := g\<rparr>))"
  shows "(monitor_firing m \<longleftrightarrow> sustained r (samples_of is)) \<and>
    fst (monitor_step i m) =
      (if sustained r (samples_of is) = sustained r (samples_of (is @ [i])) then NoEvent
       else if sustained r (samples_of is) then Resolved else Fired)"
proof -
  have "mon_fired m = sustained r (samples_of is)"
    using threshold_state [OF assms(1), of "is" g] assms(2,3) by simp
  moreover have "mon_fired (snd (monitor_step i m)) = sustained r (samples_of (is @ [i]))"
    using threshold_state [OF assms(1), of "is @ [i]" g] assms(2,3) by (simp add: monitor_run_snoc)
  ultimately show ?thesis
    using monitor_step_event [of i m] by (simp add: monitor_firing_def)
qed

lemma demo_rule_sustained:
  "\<not> sustained (demo_rule OpGreater) [(1000000000, round_ratio False 150 1)]"
  "sustained (demo_rule OpGreater)
     [(1000000000, round_ratio False 150 1), (181000000000, round_ratio False 120 1)]"
  by code_simp+

theorem threshold_monitor_history_witness:
  "fst (monitor_step (Sample_In 181000000000 (round_ratio False 120 1))
     (snd (monitor_run [Sample_In 1000000000 (round_ratio False 150 1)]
       ((new_monitor (demo_rule OpGreater))\<lparr>mon_grace := 0\<rparr>)))) = Fired"
proof -
  have op: "rl_op (demo_rule OpGreater) \<noteq> OpAbsent" by (simp add: demo_rule_def)
  have times: "list_all (\<lambda>j. \<not> time_is_zero (input_time j))
      ([Sample_In 1000000000 (round_ratio False 150 1)] @
       [Sample_In 181000000000 (round_ratio False 120 1)])"
    by (simp add: time_is_zero_def)
  show ?thesis
    using threshold_monitor_history [OF op times refl, where g = 0] demo_rule_sustained
    by (simp del: monitor_run.simps monitor_step.simps)
qed

text \<open>
  C5: An absent monitor against its whole history. With positive times and a grace that is not
  negative it is firing if and only if some check since the current silence began found
  \<open>For\<close> or more of it; the silence begins with the last sample's own time or, before any
  sample, with the first check plus the grace. The event the next input reports is the change of
  that condition.
\<close>

theorem absent_monitor_history:
  assumes "rl_op r = OpAbsent"
    and "list_all (\<lambda>j. 0 < input_time j) (is @ [i])" and "0 \<le> sint g"
    and "m = snd (monitor_run is ((new_monitor r)\<lparr>mon_grace := g\<rparr>))"
  shows "(monitor_firing m \<longleftrightarrow> silent_too_long r g is) \<and>
    fst (monitor_step i m) =
      (if silent_too_long r g is = silent_too_long r g (is @ [i]) then NoEvent
       else if silent_too_long r g is then Resolved else Fired)"
proof -
  have "mon_fired m = silent_too_long r g is"
    using absent_state [OF assms(1) _ assms(3), of "is"] assms(2,4) by simp
  moreover have "mon_fired (snd (monitor_step i m)) = silent_too_long r g (is @ [i])"
    using absent_state [OF assms(1) _ assms(3), of "is @ [i]"] assms(2,4)
    by (simp add: monitor_run_snoc)
  ultimately show ?thesis
    using monitor_step_event [of i m] by (simp add: monitor_firing_def)
qed

lemma demo_rule_silent:
  "\<not> silent_too_long (demo_rule OpAbsent) 0 [Clock_In 1, Sample_In 1000000000 FNaN]"
  "silent_too_long (demo_rule OpAbsent) 0
     [Clock_In 1, Sample_In 1000000000 FNaN, Clock_In 181000000000]"
  by code_simp+

theorem absent_monitor_history_witness:
  "fst (monitor_step (Clock_In 181000000000)
     (snd (monitor_run [Clock_In 1, Sample_In 1000000000 FNaN]
       ((new_monitor (demo_rule OpAbsent))\<lparr>mon_grace := 0\<rparr>)))) = Fired"
proof -
  have op: "rl_op (demo_rule OpAbsent) = OpAbsent" by (simp add: demo_rule_def)
  have times: "list_all (\<lambda>j. 0 < input_time j)
      ([Clock_In 1, Sample_In 1000000000 FNaN] @ [Clock_In 181000000000])"
    by simp
  show ?thesis
    using absent_monitor_history [OF op times _ refl, where g = 0] demo_rule_silent
    by (simp del: monitor_run.simps monitor_step.simps)
qed

text \<open>
  For every rule and every sequence of samples and checks, the events of a fresh monitor
  alternate: \<open>Fired\<close> first, never two in a row without a \<open>Resolved\<close> between them, and
  never a \<open>Resolved\<close> without an open \<open>Fired\<close>. The monitor reports that it is firing
  exactly when one more \<open>Fired\<close> than \<open>Resolved\<close> has been sent.
\<close>

theorem monitor_events_alternate:
  "alternates False (fst (monitor_run is ((new_monitor r)\<lparr>mon_grace := g\<rparr>))) \<and>
   int (count_list (fst (monitor_run is ((new_monitor r)\<lparr>mon_grace := g\<rparr>))) Fired) =
   int (count_list (fst (monitor_run is ((new_monitor r)\<lparr>mon_grace := g\<rparr>))) Resolved) +
   (if monitor_firing (snd (monitor_run is ((new_monitor r)\<lparr>mon_grace := g\<rparr>))) then 1 else 0)"
  using monitor_run_alternates [of "(new_monitor r)\<lparr>mon_grace := g\<rparr>" "is"]
    monitor_run_count [of "is" "(new_monitor r)\<lparr>mon_grace := g\<rparr>"]
  by (simp add: new_monitor_def monitor_firing_def)

text \<open>
  The grace postpones only the first fire of a stream that never reports. Armed at \<open>t0\<close>
  by its first check and then only checked, an absent monitor is firing if and only if some later
  check came at \<open>t0 + grace + For\<close> or after; with a sample at \<open>t1\<close> in between and no other,
  if and only if some check after it came at \<open>t1 + For\<close> or after.
\<close>

theorem absent_grace_first_fire_only:
  assumes "rl_op r = OpAbsent" and "sint (rl_for r) \<noteq> min_duration" and "0 \<le> sint g"
    and "0 < t0" and "0 < t1" and "\<And>c. c \<in> set cs \<Longrightarrow> 0 < c"
  shows "(monitor_firing (snd (monitor_run (map Clock_In (t0 # cs)) ((new_monitor r)\<lparr>mon_grace := g\<rparr>))) \<longleftrightarrow>
      list_ex (\<lambda>c. t0 + sint g + sint (rl_for r) \<le> c) cs) \<and>
    (monitor_firing (snd (monitor_run (Clock_In t0 # Sample_In t1 v # map Clock_In cs)
        ((new_monitor r)\<lparr>mon_grace := g\<rparr>))) \<longleftrightarrow>
      list_ex (\<lambda>c. t1 + sint (rl_for r) \<le> c) cs)"
proof -
  have quiet: "silence g (rev (map Clock_In (t0 # cs))) = Some (time_add t0 g, cs)" for cs
    by (induction cs rule: rev_induct) auto
  have heard: "silence g (rev (Clock_In t0 # Sample_In t1 v # map Clock_In cs)) = Some (t1, cs)" for cs
    by (induction cs rule: rev_induct) auto
  have lasted: "lasted r t c \<longleftrightarrow> t + sint (rl_for r) \<le> c" for t c
    using assms(2) by (auto simp: lasted_def dur_less_time_sub)
  have times: "list_all (\<lambda>j. 0 < input_time j) (map Clock_In (t0 # cs))"
      "list_all (\<lambda>j. 0 < input_time j) (Clock_In t0 # Sample_In t1 v # map Clock_In cs)"
    using assms(4-6) by (auto simp: list_all_iff)
  have never: "mon_fired (snd (monitor_run (map Clock_In (t0 # cs)) ((new_monitor r)\<lparr>mon_grace := g\<rparr>))) \<longleftrightarrow>
      silent_too_long r g (map Clock_In (t0 # cs))"
    using times by (subst absent_state [OF assms(1) _ assms(3)]) simp_all
  have once: "mon_fired (snd (monitor_run (Clock_In t0 # Sample_In t1 v # map Clock_In cs)
      ((new_monitor r)\<lparr>mon_grace := g\<rparr>))) \<longleftrightarrow>
      silent_too_long r g (Clock_In t0 # Sample_In t1 v # map Clock_In cs)"
    using times by (subst absent_state [OF assms(1) _ assms(3)]) simp_all
  show ?thesis
    unfolding monitor_firing_def never once silent_too_long_def quiet heard
    by (simp add: list_ex_iff lasted time_add_def)
qed

theorem absent_grace_first_fire_only_witness:
  "\<not> monitor_firing (snd (monitor_run (map Clock_In [1, 180000000001])
       ((new_monitor (demo_rule OpAbsent))\<lparr>mon_grace := seconds 120\<rparr>))) \<and>
   monitor_firing (snd (monitor_run (map Clock_In [1, 300000000001])
       ((new_monitor (demo_rule OpAbsent))\<lparr>mon_grace := seconds 120\<rparr>)))"
proof -
  have op: "rl_op (demo_rule OpAbsent) = OpAbsent"
    and for_: "sint (rl_for (demo_rule OpAbsent)) = 180000000000"
    and grace: "sint (seconds 120) = 120000000000"
    by (simp_all add: demo_rule_def seconds_def)
  have hyps: "sint (rl_for (demo_rule OpAbsent)) \<noteq> min_duration" "0 \<le> sint (seconds 120)"
    by (simp_all add: for_ grace min_duration_def)
  show ?thesis
    using absent_grace_first_fire_only [OF op hyps, of 1 1 "[180000000001]"]
      absent_grace_first_fire_only [OF op hyps, of 1 1 "[300000000001]"]
    by (simp add: for_ grace del: monitor_run.simps)
qed

text \<open>
  An absent rule is judged by the timestamps the samples carry, not by when they arrive. A
  sample that has just been ingested but is stamped \<open>For\<close> or more in the past leaves the rule
  to fire at the next check, although the stream is reporting.
\<close>

theorem absent_fires_on_stale_sample:
  assumes "rl_op (mon_rule m) = OpAbsent" and "sint (rl_for (mon_rule m)) \<noteq> min_duration"
    and "\<not> time_is_zero t" and "sint (rl_for (mon_rule m)) \<le> now - t"
  shows "fst (monitor_check now (snd (monitor_observe t v m))) = Fired"
  using assms by (auto simp: monitor_observe_def monitor_check_def Let_def dur_less_time_sub)

theorem absent_fires_on_stale_sample_witness:
  "fst (monitor_check 181000000000 (snd (monitor_observe 1000000000 FNaN
     (new_monitor (demo_rule OpAbsent))))) = Fired"
  by (rule absent_fires_on_stale_sample)
    (simp_all add: demo_rule_def new_monitor_def seconds_def time_is_zero_def min_duration_def)

end
