(* ===== verification/Go_Duration.thy ===== *)
theory Go_Duration
  imports Go_Time Go_Float
begin

text \<open>
  \<open>time.ParseDuration\<close> and \<open>Duration.String\<close> as in Go's \<open>time\<close> package: the
  uint64 accumulator with its overflow checks, the fraction computed in float64, and the printer
  that drops leading zero units and trailing zeros of the fraction.
\<close>

section \<open>Float arithmetic on whole numbers\<close>

definition f64_of_nat :: "nat \<Rightarrow> float64" where
  "f64_of_nat n = round_ratio False n 1"

fun f64_ratio :: "float64 \<Rightarrow> nat \<times> nat" where
  \<comment> \<open>a finite non-negative float as an exact ratio\<close>
  "f64_ratio (FFin s m e) = (if 0 \<le> e then (m * 2 ^ nat e, 1) else (m, 2 ^ nat (- e)))"
| "f64_ratio _ = (0, 1)"

definition f64_div :: "float64 \<Rightarrow> float64 \<Rightarrow> float64" where
  "f64_div x y = (case (f64_ratio x, f64_ratio y) of ((a, b), (c, d)) \<Rightarrow> round_ratio False (a * d) (b * c))"

definition f64_mult :: "float64 \<Rightarrow> float64 \<Rightarrow> float64" where
  "f64_mult x y = (case (f64_ratio x, f64_ratio y) of ((a, b), (c, d)) \<Rightarrow> round_ratio False (a * c) (b * d))"

definition f64_floor :: "float64 \<Rightarrow> nat" where
  \<comment> \<open>the conversion \<open>uint64(x)\<close>, for \<open>x\<close> in range\<close>
  "f64_floor x = (case f64_ratio x of (a, b) \<Rightarrow> a div b)"

section \<open>ParseDuration\<close>

fun leading_int :: "nat \<Rightarrow> string \<Rightarrow> (nat \<times> string) option" where
  "leading_int x [] = Some (x, [])"
| "leading_int x (c # cs) =
     (if \<not> is_digit c then Some (x, c # cs)
      else if x > 2 ^ 63 div 10 then None
      else if 10 * x + digit_val c > 2 ^ 63 then None
      else leading_int (10 * x + digit_val c) cs)"

fun leading_fraction :: "nat \<Rightarrow> nat \<Rightarrow> bool \<Rightarrow> string \<Rightarrow> nat \<times> nat \<times> string" where
  \<comment> \<open>the digits read, the power of ten they are over, and the rest\<close>
  "leading_fraction x scale overflow [] = (x, scale, [])"
| "leading_fraction x scale overflow (c # cs) =
     (if \<not> is_digit c then (x, scale, c # cs)
      else if overflow then leading_fraction x scale overflow cs
      else if x > (2 ^ 63 - 1) div 10 then leading_fraction x scale True cs
      else if 10 * x + digit_val c > 2 ^ 63 then leading_fraction x scale True cs
      else leading_fraction (10 * x + digit_val c) (10 * scale) overflow cs)"

definition unit_nanos :: "string \<Rightarrow> nat option" where
  "unit_nanos u =
     (if u = ''ns'' then Some 1
      else if u = ''us'' \<or> u = [char_of (194::nat), char_of (181::nat), CHR ''s''] \<or>
          u = [char_of (206::nat), char_of (188::nat), CHR ''s''] then Some (10 ^ 3)
      else if u = ''ms'' then Some (10 ^ 6)
      else if u = ''s'' then Some (10 ^ 9)
      else if u = ''m'' then Some (60 * 10 ^ 9)
      else if u = ''h'' then Some (3600 * 10 ^ 9)
      else None)"

definition read_value :: "string \<Rightarrow> (nat \<times> nat \<times> nat \<times> string) option" where
  \<comment> \<open>\<open>[0-9]*(\.[0-9]*)?\<close>: whole part, fraction, scale and rest\<close>
  "read_value s =
     (case leading_int 0 s of
        None \<Rightarrow> None
      | Some (v, s1) \<Rightarrow>
          let pre = length s1 \<noteq> length s in
          (case s1 of
             CHR ''.'' # s2 \<Rightarrow>
               (case leading_fraction 0 1 False s2 of
                  (f, scale, s3) \<Rightarrow>
                    if \<not> pre \<and> length s3 = length s2 then None else Some (v, f, scale, s3))
           | _ \<Rightarrow> if \<not> pre then None else Some (v, 0, 1, s1)))"

definition unit_char :: "char \<Rightarrow> bool" where
  "unit_char c \<longleftrightarrow> c \<noteq> CHR ''.'' \<and> \<not> is_digit c"

definition term_nanos :: "nat \<Rightarrow> nat \<Rightarrow> nat \<Rightarrow> nat \<Rightarrow> nat option" where
  "term_nanos v f scale unit =
     (if v > 2 ^ 63 div unit then None
      else
        let v = v * unit in
        if f > 0 then
          let v = v + f64_floor (f64_mult (f64_of_nat f) (f64_div (f64_of_nat unit) (f64_of_nat scale))) in
          if v > 2 ^ 63 then None else Some v
        else Some v)"

function parse_terms :: "nat \<Rightarrow> string \<Rightarrow> nat option" where
  "parse_terms d s =
     (if s = [] then Some d
      else case read_value s of
        None \<Rightarrow> None
      | Some (v, f, scale, s1) \<Rightarrow>
          let u = takeWhile unit_char s1; s2 = dropWhile unit_char s1 in
          if u = [] \<or> \<not> length s2 < length s then None
          else (case unit_nanos u of
                  None \<Rightarrow> None
                | Some unit \<Rightarrow>
                    (case term_nanos v f scale unit of
                       None \<Rightarrow> None
                     | Some t \<Rightarrow>
                        let d = (d + t) mod 2 ^ 64 in if d > 2 ^ 63 then None else parse_terms d s2)))"
  by pat_completeness auto
termination by (relation "measure (length \<circ> snd)") auto

declare parse_terms.simps [simp del]

definition parse_duration :: "string \<Rightarrow> duration option" where
  "parse_duration s =
     (let neg = (s \<noteq> [] \<and> hd s = CHR ''-'');
          s = (if s \<noteq> [] \<and> (hd s = CHR ''-'' \<or> hd s = CHR ''+'') then tl s else s)
      in if s = ''0'' then Some 0
         else if s = [] then None
         else case parse_terms 0 s of
           None \<Rightarrow> None
         | Some d \<Rightarrow>
             if neg then Some (- word_of_nat d)
             else if d > 2 ^ 63 - 1 then None
             else Some (word_of_nat d))"

section \<open>String\<close>

fun frac_digits :: "nat \<Rightarrow> nat \<Rightarrow> bool \<Rightarrow> string \<Rightarrow> string \<times> nat" where
  \<comment> \<open>\<open>fmtFrac\<close>: \<open>prec\<close> digits from the right, trailing zeros dropped\<close>
  "frac_digits 0 v printing acc = ((if printing then CHR ''.'' # acc else acc), v)"
| "frac_digits (Suc prec) v printing acc =
     (let digit = v mod 10; printing = (printing \<or> digit \<noteq> 0)
      in frac_digits prec (v div 10) printing (if printing then digit_char digit # acc else acc))"

definition with_frac :: "nat \<Rightarrow> nat \<Rightarrow> string \<Rightarrow> string" where
  "with_frac u prec suffix = (case frac_digits prec u False suffix of (s, v) \<Rightarrow> nat_digits v @ s)"

definition duration_string :: "duration \<Rightarrow> string" where
  "duration_string d =
     (let u = nat \<bar>sint d\<bar>;
          s = (if u < 10 ^ 9 then
                 (if u = 0 then ''0s''
                  else if u < 10 ^ 3 then with_frac u 0 ''ns''
                  else if u < 10 ^ 6 then with_frac u 3 [char_of (194::nat), char_of (181::nat), CHR ''s'']
                  else with_frac u 6 ''ms'')
               else
                 (case frac_digits 9 u False ''s'' of
                    (suffix, secs) \<Rightarrow>
                      let s = nat_digits (secs mod 60) @ suffix; mins = secs div 60 in
                      if mins = 0 then s
                      else
                        let s = nat_digits (mins mod 60) @ ''m'' @ s; hours = mins div 60 in
                        if hours = 0 then s else nat_digits hours @ ''h'' @ s))
      in if sint d < 0 then CHR ''-'' # s else s)"

end
