(* ===== verification/Alertconf.thy ===== *)
theory Alertconf
  imports Monitor Go_Duration
begin

text \<open>
  \<open>internal/adapter/alertconf/alertconf.go\<close>: the parser of \<open>alert.conf\<close>. The input is what
  the reader delivers: its bytes and the error it ends with, if any. The lookup of environment
  variables is a parameter. Messages are kept as data, with the values the code formats into them.
\<close>

record channel =
  ch_name :: string
  ch_type :: string
  ch_url :: string
  ch_token :: string
  ch_channel_id :: string

record config =
  cfg_channels :: "channel list"
  cfg_rules :: "rule list"

definition empty_config :: config where
  "empty_config = \<lparr>cfg_channels = [], cfg_rules = []\<rparr>"

datatype conf_msg =
    NotSet string
  | ChannelUsage | BadChannelType string | DeclaredTwice string
  | AlertUsage | BadRulePath fs_error | NotMetricsFile string | BadComparison string
  | BadThreshold string | BadDuration string | UnknownChannel string
  | UnknownDirective string

datatype 'e conf_error = ConfLine nat conf_msg | TokenTooLong | ReadError 'e

section \<open>Environment references\<close>

type_synonym lookup = "string \<Rightarrow> string option"

function expand_refs :: "lookup \<Rightarrow> string \<Rightarrow> string option \<Rightarrow> string \<times> string option" where
  \<comment> \<open>\<open>ReplaceAllStringFunc\<close> with the pattern \<open>\$\{([^}]*)\}\<close>: the text, and the first
      reference that is not set\<close>
  "expand_refs env [] missing = ([], missing)"
| "expand_refs env (c # cs) missing =
     (case (if c = CHR ''$'' \<and> has_prefix cs ''{'' then index_byte (tl cs) CHR ''}'' else None) of
        None \<Rightarrow> (case expand_refs env cs missing of (out, m) \<Rightarrow> (c # out, m))
      | Some k \<Rightarrow>
          let name = take k (tl cs); rest = drop (Suc k) (tl cs);
              ref = ''${'' @ name @ ''}'';
              missing = (if env name = None \<and> missing = None then Some ref else missing)
          in case expand_refs env rest missing of (out, m) \<Rightarrow>
               ((case env name of Some v \<Rightarrow> v | None \<Rightarrow> []) @ out, m))"
  by pat_completeness auto
termination
  by (relation "measure (\<lambda>(env, s, m). length s)") auto

definition expand :: "string \<Rightarrow> lookup option \<Rightarrow> conf_msg + string" where
  "expand line lookup =
     (case lookup of
        None \<Rightarrow> Inr line
      | Some env \<Rightarrow>
          (case expand_refs env line None of
             (out, Some ref) \<Rightarrow> Inl (NotSet ref)
           | (out, None) \<Rightarrow> Inr out))"

section \<open>Directives\<close>

definition parse_channel :: "string list \<Rightarrow> conf_msg + channel" where
  "parse_channel args =
     (if length args < 2 then Inl ChannelUsage
      else if args ! 1 = ''slack'' then
        (if length args \<noteq> 3 then Inl ChannelUsage
         else Inr \<lparr>ch_name = args ! 0, ch_type = args ! 1, ch_url = args ! 2, ch_token = [], ch_channel_id = []\<rparr>)
      else if args ! 1 = ''slack-bot'' then
        (if length args \<noteq> 4 then Inl ChannelUsage
         else Inr \<lparr>ch_name = args ! 0, ch_type = args ! 1, ch_url = [], ch_token = args ! 2,
           ch_channel_id = args ! 3\<rparr>)
      else Inl (BadChannelType (args ! 1)))"

definition splice_absent :: "string list \<Rightarrow> string list" where
  "splice_absent args =
     (if length args \<ge> 2 \<and> args ! 1 = ''absent'' then [args ! 0, args ! 1, ''0''] @ drop 2 args else args)"

definition parse_alert :: "string list \<Rightarrow> conf_msg + rule" where
  "parse_alert args =
     (let args = splice_absent args in
      if length args \<noteq> 7 \<or> args ! 3 \<noteq> ''for'' \<or> args ! 5 \<noteq> ''to'' then Inl AlertUsage
      else case parse_path (args ! 0) of
        Inl e \<Rightarrow> Inl (BadRulePath e)
      | Inr p \<Rightarrow>
          if path_depth p \<noteq> DepthStream \<or> pth_kind p \<noteq> Metrics then Inl (NotMetricsFile (args ! 0))
          else case parse_op (args ! 1) of
            None \<Rightarrow> Inl (BadComparison (args ! 1))
          | Some o' \<Rightarrow>
              (case parse_float (args ! 2) of
                 None \<Rightarrow> Inl (BadThreshold (args ! 2))
               | Some threshold \<Rightarrow>
                   (case parse_duration (args ! 4) of
                      None \<Rightarrow> Inl (BadDuration (args ! 4))
                    | Some d \<Rightarrow>
                        Inr \<lparr>rl_stream = path_stream p, rl_op = o', rl_threshold = threshold,
                          rl_for = d, rl_channel = args ! 6\<rparr>)))"

definition directive :: "(string \<rightharpoonup> bool) \<Rightarrow> config \<Rightarrow> string list \<Rightarrow> conf_msg + (string \<rightharpoonup> bool) \<times> config" where
  \<comment> \<open>the switch on \<open>fields[0]\<close>\<close>
  "directive seen cfg fs =
     (if hd fs = ''channel'' then
        bind_result (parse_channel (tl fs)) (\<lambda>ch.
          if seen (ch_name ch) = Some True then Inl (DeclaredTwice (ch_name ch))
          else Inr (seen(ch_name ch \<mapsto> True), cfg\<lparr>cfg_channels := cfg_channels cfg @ [ch]\<rparr>))
      else if hd fs = ''alert'' then
        bind_result (parse_alert (tl fs)) (\<lambda>rule.
          if seen (rl_channel rule) \<noteq> Some True then Inl (UnknownChannel (rl_channel rule))
          else Inr (seen, cfg\<lparr>cfg_rules := cfg_rules cfg @ [rule]\<rparr>))
      else Inl (UnknownDirective (hd fs)))"

definition parse_line :: "lookup option \<Rightarrow> string \<Rightarrow> (string \<rightharpoonup> bool) \<times> config \<Rightarrow> conf_msg + (string \<rightharpoonup> bool) \<times> config" where
  "parse_line lookup text st =
     (case st of (seen, cfg) \<Rightarrow>
      let line = trim_space text in
      if line = [] \<or> has_prefix line ''#'' then Inr (seen, cfg)
      else bind_result (expand line lookup) (\<lambda>line.
        let fs = go_fields line in
        if fs = [] then Inr (seen, cfg) else directive seen cfg fs))"

fun parse_lines :: "lookup option \<Rightarrow> nat \<Rightarrow> string list \<Rightarrow> (string \<rightharpoonup> bool) \<times> config \<Rightarrow> 'e conf_error + (string \<rightharpoonup> bool) \<times> config" where
  "parse_lines lookup n [] st = Inr st"
| "parse_lines lookup n (l # ls) st =
     (case parse_line lookup l st of
        Inl e \<Rightarrow> Inl (ConfLine n e)
      | Inr st \<Rightarrow> parse_lines lookup (n + 1) ls st)"

definition parse_env :: "string \<times> 'e option \<Rightarrow> lookup option \<Rightarrow> 'e conf_error + config" where
  "parse_env r lookup =
     (case r of (content, rerr) \<Rightarrow>
      case scan_lines content of (ls, too_long) \<Rightarrow>
        bind_result (parse_lines lookup 1 ls (Map.empty, empty_config)) (\<lambda>(seen, cfg).
          if too_long then Inl TokenTooLong
          else case rerr of Some e \<Rightarrow> Inl (ReadError e) | None \<Rightarrow> Inr cfg))"

definition parse_conf :: "string \<times> 'e option \<Rightarrow> 'e conf_error + config" where
  "parse_conf r = parse_env r None"

definition load_conf :: "(string \<Rightarrow> 'e + string \<times> 'e option) \<Rightarrow> lookup \<Rightarrow> string \<Rightarrow> 'e conf_error + config" where
  \<comment> \<open>\<open>os.Open\<close> and the environment are parameters\<close>
  "load_conf open_file env path =
     (case open_file path of Inl e \<Rightarrow> Inl (ReadError e) | Inr r \<Rightarrow> parse_env r (Some env))"

section \<open>What a rule line says\<close>

lemma length_7: "length xs = 7 \<longleftrightarrow> (\<exists>a b c d e f g. xs = [a, b, c, d, e, f, g])"
  by (auto simp: numeral_eq_Suc length_Suc_conv)

definition zero_threshold :: float64 where
  "zero_threshold = FFin False 0 min_exp"

lemma parse_float_0: "parse_float ''0'' = Some zero_threshold"
  by code_simp

definition rule_line :: "string list \<Rightarrow> rule \<Rightarrow> bool" where
  \<comment> \<open>the words after \<open>alert\<close> that stand for a rule\<close>
  "rule_line args r \<longleftrightarrow>
     stream_wf (rl_stream r) \<and> sid_kind (rl_stream r) = Metrics \<and>
     (\<exists>ths dur. parse_duration dur = Some (rl_for r) \<and>
       (rl_op r \<noteq> OpAbsent \<and> parse_float ths = Some (rl_threshold r) \<and>
          args = [path_string (stream_path (rl_stream r)), op_string (rl_op r), ths, ''for'', dur, ''to'', rl_channel r] \<or>
        rl_op r = OpAbsent \<and> rl_threshold r = zero_threshold \<and>
          args = [path_string (stream_path (rl_stream r)), ''absent'', ''for'', dur, ''to'', rl_channel r]))"

lemma op_string_absent: "op_string o' = ''absent'' \<longleftrightarrow> o' = OpAbsent"
  by (cases o') simp_all

lemma splice_absent_7:
  "splice_absent args = [a, b, c, d, e, f, g] \<longleftrightarrow>
    (b \<noteq> ''absent'' \<and> args = [a, b, c, d, e, f, g] \<or>
     b = ''absent'' \<and> c = ''0'' \<and> args = [a, b, d, e, f, g])"
proof (cases args)
  case (Cons x xs)
  then show ?thesis by (cases xs) (auto simp: splice_absent_def)
qed (simp add: splice_absent_def)

lemma parse_alert_words:
  "parse_alert args = Inr r \<longleftrightarrow>
    (\<exists>p ths dur. path_depth p = DepthStream \<and> pth_kind p = Metrics \<and> path_wf p \<and> rl_stream r = path_stream p \<and>
      parse_float ths = Some (rl_threshold r) \<and> parse_duration dur = Some (rl_for r) \<and>
      splice_absent args = [path_string p, op_string (rl_op r), ths, ''for'', dur, ''to'', rl_channel r])"
  (is "?l \<longleftrightarrow> ?r")
proof
  assume ?l
  then have "length (splice_absent args) = 7" by (auto simp: parse_alert_def Let_def split: if_splits)
  then obtain a b c d e f g where args: "splice_absent args = [a, b, c, d, e, f, g]" by (auto simp: length_7)
  with \<open>?l\<close> show ?r
    by (auto simp: parse_alert_def Let_def parse_path_iff parse_op_iff split: if_splits sum.splits option.splits)
next
  assume ?r
  then obtain p ths dur where p: "path_depth p = DepthStream" "pth_kind p = Metrics" "path_wf p"
    "rl_stream r = path_stream p" "parse_float ths = Some (rl_threshold r)"
    "parse_duration dur = Some (rl_for r)"
    "splice_absent args = [path_string p, op_string (rl_op r), ths, ''for'', dur, ''to'', rl_channel r]"
    by blast
  moreover have "parse_op (op_string (rl_op r)) = Some (rl_op r)" by (simp add: parse_op_iff)
  ultimately show ?l
    by (simp add: parse_alert_def Let_def parse_path_path_string)
qed

lemma parse_alert_iff: "parse_alert args = Inr r \<longleftrightarrow> rule_line args r"
proof -
  have kind: "pth_kind (stream_path i) = sid_kind i" for i by (simp add: stream_path_def)
  have path: "(\<exists>p. path_depth p = DepthStream \<and> pth_kind p = Metrics \<and> path_wf p \<and> rl_stream r = path_stream p \<and> P p) \<longleftrightarrow>
      stream_wf (rl_stream r) \<and> sid_kind (rl_stream r) = Metrics \<and> P (stream_path (rl_stream r))" for P
  proof
    assume "\<exists>p. path_depth p = DepthStream \<and> pth_kind p = Metrics \<and> path_wf p \<and> rl_stream r = path_stream p \<and> P p"
    then obtain p where p: "path_depth p = DepthStream" "pth_kind p = Metrics" "path_wf p"
      "rl_stream r = path_stream p" "P p" by blast
    then show "stream_wf (rl_stream r) \<and> sid_kind (rl_stream r) = Metrics \<and> P (stream_path (rl_stream r))"
      by (simp add: stream_wf_path) (simp add: path_stream_def)
  next
    assume "stream_wf (rl_stream r) \<and> sid_kind (rl_stream r) = Metrics \<and> P (stream_path (rl_stream r))"
    then show "\<exists>p. path_depth p = DepthStream \<and> pth_kind p = Metrics \<and> path_wf p \<and> rl_stream r = path_stream p \<and> P p"
      by (intro exI [of _ "stream_path (rl_stream r)"]) (simp add: stream_wf_path kind)
  qed
  have "parse_alert args = Inr r \<longleftrightarrow> stream_wf (rl_stream r) \<and> sid_kind (rl_stream r) = Metrics \<and>
      (\<exists>ths dur. parse_float ths = Some (rl_threshold r) \<and> parse_duration dur = Some (rl_for r) \<and>
        splice_absent args = [path_string (stream_path (rl_stream r)), op_string (rl_op r), ths, ''for'', dur,
          ''to'', rl_channel r])"
    unfolding parse_alert_words
    using path [of "\<lambda>p. \<exists>ths dur. parse_float ths = Some (rl_threshold r) \<and> parse_duration dur = Some (rl_for r) \<and>
        splice_absent args = [path_string p, op_string (rl_op r), ths, ''for'', dur, ''to'', rl_channel r]"]
    by blast
  then show ?thesis
    unfolding rule_line_def splice_absent_7 op_string_absent
    using parse_float_0 by (cases "rl_op r = OpAbsent") auto
qed

section \<open>What an accepted file guarantees\<close>

definition channel_ok :: "channel \<Rightarrow> bool" where
  \<comment> \<open>exactly one way to reach Slack\<close>
  "channel_ok ch \<longleftrightarrow>
     ch_type ch = ''slack'' \<and> ch_url ch \<noteq> [] \<and> ch_token ch = [] \<and> ch_channel_id ch = [] \<or>
     ch_type ch = ''slack-bot'' \<and> ch_url ch = [] \<and> ch_token ch \<noteq> [] \<and> ch_channel_id ch \<noteq> []"

definition config_ok :: "config \<Rightarrow> bool" where
  "config_ok cfg \<longleftrightarrow> distinct (map ch_name (cfg_channels cfg)) \<and>
     list_all channel_ok (cfg_channels cfg) \<and>
     list_all (\<lambda>r. stream_wf (rl_stream r) \<and> sid_kind (rl_stream r) = Metrics \<and>
       rl_channel r \<in> ch_name ` set (cfg_channels cfg)) (cfg_rules cfg)"

definition conf_state_ok :: "(string \<rightharpoonup> bool) \<times> config \<Rightarrow> bool" where
  "conf_state_ok st \<longleftrightarrow> config_ok (snd st) \<and>
     (\<forall>n. fst st n = Some True \<longleftrightarrow> n \<in> ch_name ` set (cfg_channels (snd st)))"

lemma parse_channel_ok:
  assumes "parse_channel args = Inr ch" and "list_all (\<lambda>w. w \<noteq> []) args"
  shows "channel_ok ch"
proof -
  have "args ! i \<noteq> []" if "i < length args" for i
    using assms(2) that by (simp add: list_all_length)
  then show ?thesis
    using assms(1) by (auto simp: parse_channel_def channel_ok_def split: if_splits)
qed

lemma directive_ok:
  assumes "conf_state_ok (seen, cfg)" and "directive seen cfg fs = Inr st'" and "list_all (\<lambda>w. w \<noteq> []) fs"
    and "fs \<noteq> []"
  shows "conf_state_ok st'"
proof -
  have args: "list_all (\<lambda>w. w \<noteq> []) (tl fs)" using assms(3,4) by (cases fs) auto
  consider (channel) ch where "hd fs = ''channel''" "parse_channel (tl fs) = Inr ch"
      "seen (ch_name ch) \<noteq> Some True"
      "st' = (seen(ch_name ch \<mapsto> True), cfg\<lparr>cfg_channels := cfg_channels cfg @ [ch]\<rparr>)"
    | (alert) r where "parse_alert (tl fs) = Inr r" "seen (rl_channel r) = Some True"
      "st' = (seen, cfg\<lparr>cfg_rules := cfg_rules cfg @ [r]\<rparr>)"
    using assms(2) by (auto simp: directive_def bind_result_Inr_iff split: if_splits)
  then show ?thesis
  proof cases
    case channel
    then show ?thesis using assms(1) parse_channel_ok [OF channel(2) args]
      by (auto simp: conf_state_ok_def config_ok_def list_all_iff)
  next
    case alert
    then have "stream_wf (rl_stream r)" "sid_kind (rl_stream r) = Metrics"
      by (auto simp: parse_alert_iff rule_line_def)
    with alert assms(1) show ?thesis by (auto simp: conf_state_ok_def config_ok_def list_all_iff)
  qed
qed

lemma parse_line_ok:
  assumes "conf_state_ok st" and "parse_line lookup l st = Inr st'"
  shows "conf_state_ok st'"
proof -
  obtain seen cfg where st: "st = (seen, cfg)" by (cases st)
  have words: "[] \<notin> set (go_fields x)" for x using fields_not_Nil by blast
  have "st' = st \<or> (\<exists>fs. fs \<noteq> [] \<and> list_all (\<lambda>w. w \<noteq> []) fs \<and> directive seen cfg fs = Inr st')"
    using assms(2)
    by (auto simp: parse_line_def st Let_def bind_result_Inr_iff list_all_iff words split: if_splits)
  then show ?thesis using assms(1) directive_ok st by blast
qed

lemma parse_lines_ok:
  "conf_state_ok st \<Longrightarrow> parse_lines lookup n ls st = Inr st' \<Longrightarrow> conf_state_ok st'"
  by (induction lookup n ls st rule: parse_lines.induct) (auto split: sum.splits dest: parse_line_ok)

lemma parse_env_ok:
  fixes r :: "string \<times> 'e option"
  assumes "parse_env r lookup = Inr cfg"
  shows "config_ok cfg"
proof -
  obtain content rerr ls too_long where r: "r = (content, rerr)" "scan_lines content = (ls, too_long)"
    by (metis surj_pair)
  obtain seen where
    "parse_lines lookup 1 ls (Map.empty, empty_config) = (Inr (seen, cfg) :: 'e conf_error + _)"
  proof (cases "parse_lines lookup 1 ls (Map.empty, empty_config) :: 'e conf_error + _")
    case (Inl e)
    with assms show ?thesis by (simp add: parse_env_def r)
  next
    case (Inr st)
    obtain seen cfg' where "st = (seen, cfg')" by (cases st)
    with Inr assms that show ?thesis by (auto simp: parse_env_def r split: if_splits option.splits)
  qed
  moreover have "conf_state_ok (Map.empty, empty_config)"
    by (simp add: conf_state_ok_def config_ok_def empty_config_def)
  ultimately show ?thesis using parse_lines_ok by (fastforce simp: conf_state_ok_def)
qed

section \<open>Expansion of references\<close>

datatype piece = Lit char | Ref string

fun piece_text :: "piece \<Rightarrow> string" where
  "piece_text (Lit c) = [c]"
| "piece_text (Ref name) = ''${'' @ name @ ''}''"

fun pieces_ok :: "piece list \<Rightarrow> bool" where
  \<comment> \<open>no name holds a closing brace, and no two literals make an opening\<close>
  "pieces_ok [] = True"
| "pieces_ok (Lit c # ps) = (pieces_ok ps \<and> (c = CHR ''$'' \<longrightarrow> (case ps of Lit d # _ \<Rightarrow> d \<noteq> CHR ''{'' | _ \<Rightarrow> True)))"
| "pieces_ok (Ref name # ps) = (pieces_ok ps \<and> CHR ''}'' \<notin> set name)"

fun piece_value :: "lookup \<Rightarrow> piece \<Rightarrow> string" where
  "piece_value env (Lit c) = [c]"
| "piece_value env (Ref name) = (case env name of Some v \<Rightarrow> v | None \<Rightarrow> [])"

fun first_unset :: "lookup \<Rightarrow> piece list \<Rightarrow> string option" where
  "first_unset env [] = None"
| "first_unset env (Lit c # ps) = first_unset env ps"
| "first_unset env (Ref name # ps) = (if env name = None then Some name else first_unset env ps)"

lemma index_byte_closing: "c \<notin> set name \<Longrightarrow> index_byte (name @ c # rest) c = Some (length name)"
  by (induction name) auto

lemma expand_refs_pieces:
  assumes "pieces_ok ps"
  shows "expand_refs env (concat (map piece_text ps)) missing =
    (concat (map (piece_value env) ps),
     case missing of Some m \<Rightarrow> Some m
     | None \<Rightarrow> map_option (\<lambda>n. piece_text (Ref n)) (first_unset env ps))"
  using assms
proof (induction ps arbitrary: missing rule: pieces_ok.induct)
  case 1
  then show ?case by (cases missing) auto
next
  case (2 c ps)
  have "\<not> (c = CHR ''$'' \<and> has_prefix (concat (map piece_text ps)) ''{'')"
  proof (cases ps)
    case (Cons p qs)
    with "2.prems" show ?thesis by (cases p) (auto split: piece.splits)
  qed simp
  with 2 show ?case by (cases missing) auto
next
  case (3 name ps)
  then show ?case by (cases missing; cases "env name") (auto simp: index_byte_closing Let_def)
qed

section \<open>Properties\<close>

definition demo_args :: "string list" where
  "demo_args = [''/iam/iam-api/metrics/go.memory.used.dat'', ''>'', ''100'', ''for'', ''3m'', ''to'', ''ops'']"

text \<open>
  C23: \<open>parseAlert\<close> accepts exactly the word sequences that spell a rule: the path of a metric
  stream, a comparison with a threshold \<open>ParseFloat\<close> accepts (or \<open>absent\<close> and none), and a
  duration \<open>ParseDuration\<close> accepts, with the words \<open>for\<close> and \<open>to\<close> in place; and it
  returns that rule.
\<close>

theorem parse_alert_exact: "parse_alert args = Inr r \<longleftrightarrow> rule_line args r"
  by (rule parse_alert_iff)

text \<open>
  C22: An accepted \<open>alert.conf\<close> is consistent: channel names are unique, each channel has either
  a webhook or a bot token with a channel, every rule watches a metric stream whose file can be
  addressed, and notifies a channel of the file.
\<close>

theorem accepted_config_consistent:
  assumes "parse_env r lookup = Inr cfg"
  shows "distinct (map ch_name (cfg_channels cfg)) \<and> list_all channel_ok (cfg_channels cfg) \<and>
    list_all (\<lambda>r. stream_wf (rl_stream r) \<and> sid_kind (rl_stream r) = Metrics \<and>
      rl_channel r \<in> ch_name ` set (cfg_channels cfg)) (cfg_rules cfg)"
  using parse_env_ok [OF assms] by (simp add: config_ok_def)

definition demo_conf :: string where
  "demo_conf = ''channel ops slack http://h'' @ [CHR 0x0A] @
     ''alert /iam/iam-api/metrics/go.memory.used.dat > 100 for 3m to ops'' @ [CHR 0x0A]"

definition demo_config :: config where
  "demo_config = \<lparr>cfg_channels = [\<lparr>ch_name = ''ops'', ch_type = ''slack'', ch_url = ''http://h'',
     ch_token = [], ch_channel_id = []\<rparr>], cfg_rules = [demo_rule OpGreater]\<rparr>"

theorem accepted_config_consistent_witness:
  "parse_env (demo_conf, None :: unit option) None = Inr demo_config \<and>
    list_all (\<lambda>r. rl_channel r \<in> ch_name ` set (cfg_channels demo_config)) (cfg_rules demo_config)"
proof -
  have "parse_env (demo_conf, None :: unit option) None = Inr demo_config" by code_simp
  then show ?thesis using accepted_config_consistent by (fastforce simp: list_all_iff)
qed

text \<open>
  Expansion replaces every \<open>${NAME}\<close> of a line by its value, leaves everything else
  alone (a bare \<open>$NAME\<close> too), does not look into the values, and fails exactly if a name is
  not set, naming the first such reference.
\<close>

theorem expand_replaces_references:
  assumes "pieces_ok ps"
  shows "expand (concat (map piece_text ps)) (Some env) =
    (case first_unset env ps of
       Some name \<Rightarrow> Inl (NotSet (''${'' @ name @ ''}''))
     | None \<Rightarrow> Inr (concat (map (piece_value env) ps)))"
  by (simp add: expand_def expand_refs_pieces [OF assms] split: option.splits)

theorem expand_replaces_references_witness:
  "expand ''a$B${X}'' (Some [''X'' \<mapsto> ''${Y}'']) = Inr ''a$B${Y}''"
  using expand_replaces_references [of "[Lit CHR ''a'', Lit CHR ''$'', Lit CHR ''B'', Ref ''X'']"
      "[''X'' \<mapsto> ''${Y}'']"]
  by simp

end
