(* ===== verification/Feed.thy ===== *)
theory Feed
  imports Monitor "HOL-Library.Sublist"
begin

text \<open>
  \<open>internal/usecase/feed.go\<close>: the live feed. Subscribers are allocated in a heap (the list
  \<open>fd_heap\<close>, the pointer of a subscriber is its index), the set of live ones is a map from
  pointers, and each has a buffered channel. \<open>publish\<close> offers an event to every live
  subscriber in the order the map is visited; a full channel drops it. Sending on a closed
  channel panics in Go: that is the value \<^const>\<open>None\<close> here, and the invariant shows it never
  happens. Each operation runs under the feed's mutex, so it is one step; a channel receive is a
  step of the subscriber. The feed is modelled for channels with a buffer (\<open>main\<close> makes them
  with room for 256 events): a rendezvous with a waiting receiver on an unbuffered channel is not.
\<close>

section \<open>Events and channels\<close>

record feed_event =
  fe_stream :: stream_id
  fe_sample :: sample
  fe_alert :: "notification option"

record subscriber =
  sub_ch :: "feed_event list"
  sub_closed :: bool

record feed =
  fd_buffer :: nat
  fd_subs :: "nat \<rightharpoonup> unit"
  fd_heap :: "subscriber list"

definition new_feed :: "nat \<Rightarrow> feed" where
  "new_feed buffer = \<lparr>fd_buffer = buffer, fd_subs = Map.empty, fd_heap = []\<rparr>"

definition feed_subscribe :: "feed \<Rightarrow> nat \<times> feed" where
  "feed_subscribe f =
     (let s = length (fd_heap f)
      in (s, f\<lparr>fd_heap := fd_heap f @ [\<lparr>sub_ch = [], sub_closed = False\<rparr>],
               fd_subs := (fd_subs f)(s \<mapsto> ())\<rparr>))"

definition feed_cancel :: "nat \<Rightarrow> feed \<Rightarrow> feed" where
  \<comment> \<open>the closure \<open>Subscribe\<close> returns\<close>
  "feed_cancel s f =
     (if sub_closed (fd_heap f ! s) then f
      else f\<lparr>fd_heap := (fd_heap f)[s := (fd_heap f ! s)\<lparr>sub_closed := True\<rparr>],
             fd_subs := (fd_subs f)(s := None)\<rparr>)"

definition feed_subscribers :: "feed \<Rightarrow> nat" where
  "feed_subscribers f = card (dom (fd_subs f))"

definition offer :: "nat \<Rightarrow> feed_event \<Rightarrow> subscriber \<Rightarrow> subscriber option" where
  \<comment> \<open>\<open>select { case s.ch <- ev: default: }\<close>\<close>
  "offer buffer ev s =
     (if sub_closed s then None
      else if length (sub_ch s) < buffer then Some (s\<lparr>sub_ch := sub_ch s @ [ev]\<rparr>)
      else Some s)"

fun publish_loop :: "nat \<Rightarrow> feed_event \<Rightarrow> nat list \<Rightarrow> subscriber list \<Rightarrow> subscriber list option" where
  "publish_loop buffer ev [] h = Some h"
| "publish_loop buffer ev (s # ss) h =
     (case offer buffer ev (h ! s) of
        None \<Rightarrow> None
      | Some x \<Rightarrow> publish_loop buffer ev ss (h[s := x]))"

definition feed_publish :: "((nat \<rightharpoonup> unit) \<Rightarrow> nat list) \<Rightarrow> feed_event \<Rightarrow> feed \<Rightarrow> feed option" where
  "feed_publish rng ev f =
     (case publish_loop (fd_buffer f) ev (rng (fd_subs f)) (fd_heap f) of
        None \<Rightarrow> None
      | Some h \<Rightarrow> Some (f\<lparr>fd_heap := h\<rparr>))"

definition feed_ingest :: "((nat \<rightharpoonup> unit) \<Rightarrow> nat list) \<Rightarrow> stream_id \<Rightarrow> sample \<Rightarrow> feed \<Rightarrow> feed option" where
  "feed_ingest rng i smp f = feed_publish rng \<lparr>fe_stream = i, fe_sample = smp, fe_alert = None\<rparr> f"

definition notification_event :: "notification \<Rightarrow> feed_event" where
  "notification_event nt =
     \<lparr>fe_stream = rl_stream (ntf_rule nt),
      fe_sample = \<lparr>smp_time = ntf_time nt, smp_value = ntf_value nt, smp_unit = ntf_unit nt\<rparr>,
      fe_alert = Some nt\<rparr>"

definition feed_notify :: "((nat \<rightharpoonup> unit) \<Rightarrow> nat list) \<Rightarrow> notification \<Rightarrow> feed \<Rightarrow> ('e option \<times> feed) option" where
  \<comment> \<open>always returns a nil error\<close>
  "feed_notify rng nt f = map_option (Pair None) (feed_publish rng (notification_event nt) f)"

text \<open>A receive from a subscriber's channel: an event, the end of a closed channel, or blocking.\<close>

datatype received = Got feed_event | Ended | Blocked

definition chan_receive :: "nat \<Rightarrow> feed \<Rightarrow> received \<times> feed" where
  "chan_receive s f =
     (case sub_ch (fd_heap f ! s) of
        ev # rest \<Rightarrow> (Got ev, f\<lparr>fd_heap := (fd_heap f)[s := (fd_heap f ! s)\<lparr>sub_ch := rest\<rparr>]\<rparr>)
      | [] \<Rightarrow> (if sub_closed (fd_heap f ! s) then Ended else Blocked, f))"

section \<open>Invariant\<close>

definition feed_inv :: "feed \<Rightarrow> bool" where
  "feed_inv f \<longleftrightarrow> dom (fd_subs f) = {s. s < length (fd_heap f) \<and> \<not> sub_closed (fd_heap f ! s)} \<and>
     list_all (\<lambda>s. length (sub_ch s) \<le> fd_buffer f) (fd_heap f)"

lemma feed_inv_new [simp]: "feed_inv (new_feed n)"
  by (simp add: feed_inv_def new_feed_def)

lemma feed_inv_finite: "feed_inv f \<Longrightarrow> finite (dom (fd_subs f))"
  by (simp add: feed_inv_def)

lemma feed_inv_subscribe:
  assumes "feed_inv f"
  shows "feed_inv (snd (feed_subscribe f))"
proof -
  have "dom ((fd_subs f)(length (fd_heap f) \<mapsto> ())) =
      insert (length (fd_heap f)) {s. s < length (fd_heap f) \<and> \<not> sub_closed (fd_heap f ! s)}"
    using assms by (simp add: feed_inv_def)
  also have "\<dots> = {s. s < length (fd_heap f @ [\<lparr>sub_ch = [], sub_closed = False\<rparr>]) \<and>
      \<not> sub_closed ((fd_heap f @ [\<lparr>sub_ch = [], sub_closed = False\<rparr>]) ! s)}"
    by (auto simp: nth_append less_Suc_eq)
  finally show ?thesis using assms by (simp add: feed_inv_def feed_subscribe_def Let_def)
qed

lemma feed_inv_update:
  assumes "feed_inv f" and "s < length (fd_heap f)" and "sub_closed x = sub_closed (fd_heap f ! s)"
    and "length (sub_ch x) \<le> fd_buffer f"
  shows "feed_inv (f\<lparr>fd_heap := (fd_heap f)[s := x]\<rparr>)"
  using assms by (auto simp: feed_inv_def list_all_length nth_list_update)

lemma feed_inv_cancel:
  assumes "feed_inv f" and "s < length (fd_heap f)"
  shows "feed_inv (feed_cancel s f)"
proof (cases "sub_closed (fd_heap f ! s)")
  case True
  with assms show ?thesis by (simp add: feed_cancel_def)
next
  case False
  have "dom ((fd_subs f)(s := None)) = dom (fd_subs f) - {s}" by simp
  with False assms show ?thesis
    by (auto simp: feed_cancel_def feed_inv_def list_all_length nth_list_update)
qed

lemma feed_inv_receive:
  assumes "feed_inv f" and "s < length (fd_heap f)"
  shows "feed_inv (snd (chan_receive s f))"
proof (cases "sub_ch (fd_heap f ! s)")
  case Nil
  with assms show ?thesis by (simp add: chan_receive_def)
next
  case (Cons ev rest)
  moreover have "length (sub_ch (fd_heap f ! s)) \<le> fd_buffer f"
    using assms by (simp add: feed_inv_def list_all_length)
  ultimately show ?thesis using assms by (simp add: chan_receive_def feed_inv_update)
qed

section \<open>Publishing\<close>

definition delivered :: "nat \<Rightarrow> feed_event \<Rightarrow> subscriber \<Rightarrow> subscriber" where
  "delivered buffer ev s =
     (if sub_closed s \<or> buffer \<le> length (sub_ch s) then s else s\<lparr>sub_ch := sub_ch s @ [ev]\<rparr>)"

lemma offer_open: "\<not> sub_closed s \<Longrightarrow> offer buffer ev s = Some (delivered buffer ev s)"
  by (simp add: offer_def delivered_def)

lemma delivered_closed [simp]: "sub_closed (delivered buffer ev s) = sub_closed s"
  by (simp add: delivered_def)

lemma delivered_bound: "length (sub_ch s) \<le> buffer \<Longrightarrow> length (sub_ch (delivered buffer ev s)) \<le> buffer"
  by (simp add: delivered_def)

lemma delivered_idle: "sub_closed s \<Longrightarrow> delivered buffer ev s = s"
  by (simp add: delivered_def)

lemma publish_loop_eq:
  assumes "distinct ss" and "\<And>s. s \<in> set ss \<Longrightarrow> s < length h \<and> \<not> sub_closed (h ! s)"
  shows "publish_loop buffer ev ss h =
    Some (map (\<lambda>s. if s \<in> set ss then delivered buffer ev (h ! s) else h ! s) [0..<length h])"
  using assms
proof (induction ss arbitrary: h)
  case Nil
  then show ?case by (simp add: map_nth)
next
  case (Cons s ss)
  let ?h = "h[s := delivered buffer ev (h ! s)]"
  have s: "s < length h" "\<not> sub_closed (h ! s)" using Cons.prems(2) by auto
  have "publish_loop buffer ev (s # ss) h = publish_loop buffer ev ss ?h"
    using s by (simp add: offer_open)
  also have "\<dots> = Some (map (\<lambda>t. if t \<in> set ss then delivered buffer ev (?h ! t) else ?h ! t) [0..<length ?h])"
    using Cons.prems by (intro Cons.IH) (auto simp: nth_list_update)
  also have "map (\<lambda>t. if t \<in> set ss then delivered buffer ev (?h ! t) else ?h ! t) [0..<length ?h] =
      map (\<lambda>t. if t \<in> set (s # ss) then delivered buffer ev (h ! t) else h ! t) [0..<length h]"
    using Cons.prems(1) s by (auto simp: nth_list_update)
  finally show ?case .
qed

locale subs_range = map_range rng for rng :: "(nat \<rightharpoonup> unit) \<Rightarrow> nat list"
begin

text \<open>Every live subscriber with room gets the event; the order of the visit does not matter.\<close>

lemma publish_eq:
  assumes "feed_inv f"
  shows "feed_publish rng ev f = Some (f\<lparr>fd_heap := map (delivered (fd_buffer f) ev) (fd_heap f)\<rparr>)"
proof -
  note fin = feed_inv_finite [OF assms]
  have live: "s \<in> set (rng (fd_subs f)) \<longleftrightarrow> s < length (fd_heap f) \<and> \<not> sub_closed (fd_heap f ! s)" for s
    using rng_set [OF fin] assms by (simp add: feed_inv_def)
  have "publish_loop (fd_buffer f) ev (rng (fd_subs f)) (fd_heap f) =
      Some (map (\<lambda>s. if s \<in> set (rng (fd_subs f)) then delivered (fd_buffer f) ev (fd_heap f ! s)
        else fd_heap f ! s) [0..<length (fd_heap f)])"
    using live rng_distinct [OF fin] by (intro publish_loop_eq) auto
  also have "map (\<lambda>s. if s \<in> set (rng (fd_subs f)) then delivered (fd_buffer f) ev (fd_heap f ! s)
        else fd_heap f ! s) [0..<length (fd_heap f)] = map (delivered (fd_buffer f) ev) (fd_heap f)"
    by (rule nth_equalityI) (auto simp: live delivered_idle)
  finally show ?thesis by (simp add: feed_publish_def)
qed

lemma publish_inv:
  assumes "feed_inv f"
  shows "\<exists>f'. feed_publish rng ev f = Some f' \<and> feed_inv f'"
proof -
  have "feed_inv (f\<lparr>fd_heap := map (delivered (fd_buffer f) ev) (fd_heap f)\<rparr>)"
    using assms by (auto simp: feed_inv_def list_all_length delivered_bound)
  then show ?thesis using publish_eq [OF assms] by blast
qed

end

interpretation subs_ascending: subs_range ascending_keys
  by unfold_locales

section \<open>Histories of a feed\<close>

text \<open>
  What can happen to a feed, in any order: subscriptions, cancellations, publications and receives
  by the holders of the channels.
\<close>

datatype feed_action = Subscribed nat | Cancelled nat | Published feed_event | Received nat received

inductive feed_history :: "((nat \<rightharpoonup> unit) \<Rightarrow> nat list) \<Rightarrow> nat \<Rightarrow> feed_action list \<Rightarrow> feed \<Rightarrow> bool"
  for rng buffer where
  start: "feed_history rng buffer [] (new_feed buffer)"
| subscribe: "feed_history rng buffer as f \<Longrightarrow> feed_subscribe f = (s, f') \<Longrightarrow>
    feed_history rng buffer (as @ [Subscribed s]) f'"
| cancel: "feed_history rng buffer as f \<Longrightarrow> s < length (fd_heap f) \<Longrightarrow>
    feed_history rng buffer (as @ [Cancelled s]) (feed_cancel s f)"
| publish: "feed_history rng buffer as f \<Longrightarrow> feed_publish rng ev f = Some f' \<Longrightarrow>
    feed_history rng buffer (as @ [Published ev]) f'"
| receive: "feed_history rng buffer as f \<Longrightarrow> s < length (fd_heap f) \<Longrightarrow> chan_receive s f = (r, f') \<Longrightarrow>
    feed_history rng buffer (as @ [Received s r]) f'"

fun is_live :: "nat \<Rightarrow> bool \<Rightarrow> feed_action list \<Rightarrow> bool" where
  "is_live s l [] = l"
| "is_live s l (a # as) =
     is_live s (case a of Subscribed t \<Rightarrow> l \<or> t = s | Cancelled t \<Rightarrow> l \<and> t \<noteq> s | _ \<Rightarrow> l) as"

fun offered :: "nat \<Rightarrow> bool \<Rightarrow> feed_action list \<Rightarrow> feed_event list" where
  \<comment> \<open>the events published between the subscription and the cancellation\<close>
  "offered s l [] = []"
| "offered s l (Subscribed t # as) = offered s (l \<or> t = s) as"
| "offered s l (Cancelled t # as) = offered s (l \<and> t \<noteq> s) as"
| "offered s l (Published ev # as) = (if l then [ev] else []) @ offered s l as"
| "offered s l (Received t r # as) = offered s l as"

fun got :: "nat \<Rightarrow> feed_action list \<Rightarrow> feed_event list" where
  "got s [] = []"
| "got s (Received t (Got ev) # as) = (if t = s then [ev] else []) @ got s as"
| "got s (a # as) = got s as"

lemma is_live_append: "is_live s l (as @ bs) = is_live s (is_live s l as) bs"
  by (induction as arbitrary: l) auto

lemma offered_append: "offered s l (as @ bs) = offered s l as @ offered s (is_live s l as) bs"
  by (induction s l as rule: offered.induct) auto

lemma got_append: "got s (as @ bs) = got s as @ got s bs"
  by (induction s as rule: got.induct) auto

lemmas history_simps = is_live_append offered_append got_append

definition never_behind :: "nat \<Rightarrow> nat \<Rightarrow> feed_action list \<Rightarrow> bool" where
  "never_behind buffer s as \<longleftrightarrow>
     (\<forall>n. length (offered s False (take n as)) \<le> length (got s (take n as)) + buffer)"

lemma never_behind_append: "never_behind buffer s (as @ bs) \<Longrightarrow> never_behind buffer s as"
  unfolding never_behind_def
proof
  fix n
  assume all: "\<forall>n. length (offered s False (take n (as @ bs))) \<le> length (got s (take n (as @ bs))) + buffer"
  have "take (min n (length as)) (as @ bs) = take n as" by (simp add: min_def)
  then show "length (offered s False (take n as)) \<le> length (got s (take n as)) + buffer"
    using all by metis
qed

lemma never_behind_whole: "never_behind buffer s as \<Longrightarrow> length (offered s False as) \<le> length (got s as) + buffer"
  unfolding never_behind_def by (metis order_refl take_all)

text \<open>What the history says of a subscriber, given the feed it leads to.\<close>

definition tracks :: "nat \<Rightarrow> feed_action list \<Rightarrow> feed \<Rightarrow> bool" where
  "tracks buffer as f \<longleftrightarrow> feed_inv f \<and> fd_buffer f = buffer \<and>
     (\<forall>s. is_live s False as \<longleftrightarrow> s < length (fd_heap f) \<and> \<not> sub_closed (fd_heap f ! s)) \<and>
     (\<forall>s<length (fd_heap f). subseq (got s as @ sub_ch (fd_heap f ! s)) (offered s False as) \<and>
       (never_behind buffer s as \<longrightarrow> got s as @ sub_ch (fd_heap f ! s) = offered s False as)) \<and>
     (\<forall>s\<ge>length (fd_heap f). got s as = [] \<and> offered s False as = [])"

lemma tracks_subscribe:
  assumes "tracks buffer as f" and "feed_subscribe f = (s, f')"
  shows "tracks buffer (as @ [Subscribed s]) f'"
proof -
  have s: "s = length (fd_heap f)"
    and f': "f' = f\<lparr>fd_heap := fd_heap f @ [\<lparr>sub_ch = [], sub_closed = False\<rparr>], fd_subs := (fd_subs f)(s \<mapsto> ())\<rparr>"
    using assms(2) by (auto simp: feed_subscribe_def Let_def)
  have "feed_inv f'" using feed_inv_subscribe [of f] assms unfolding tracks_def by simp
  then show ?thesis
    using assms(1) never_behind_append [of buffer _ as "[Subscribed s]"]
    by (auto simp: tracks_def f' s history_simps nth_append less_Suc_eq)
qed

lemma tracks_cancel:
  assumes "tracks buffer as f" and "s < length (fd_heap f)"
  shows "tracks buffer (as @ [Cancelled s]) (feed_cancel s f)"
proof -
  have "feed_inv (feed_cancel s f)" using feed_inv_cancel assms unfolding tracks_def by blast
  then show ?thesis
    using assms never_behind_append [of buffer _ as "[Cancelled s]"]
    by (auto simp: tracks_def feed_cancel_def history_simps nth_list_update)
qed

lemma tracks_receive:
  assumes "tracks buffer as f" and "s < length (fd_heap f)" and "chan_receive s f = (r, f')"
  shows "tracks buffer (as @ [Received s r]) f'"
proof -
  have inv: "feed_inv f'" using feed_inv_receive [of f s] assms unfolding tracks_def by simp
  show ?thesis
  proof (cases "sub_ch (fd_heap f ! s)")
    case Nil
    then have "f' = f" "r = Ended \<or> r = Blocked" using assms(3) by (auto simp: chan_receive_def split: if_splits)
    then show ?thesis using assms(1) never_behind_append [of buffer _ as "[Received s r]"]
      by (auto simp: tracks_def history_simps)
  next
    case (Cons ev rest)
    then have f': "f' = f\<lparr>fd_heap := (fd_heap f)[s := (fd_heap f ! s)\<lparr>sub_ch := rest\<rparr>]\<rparr>" and r: "r = Got ev"
      using assms(3) by (auto simp: chan_receive_def)
    have "got t (as @ [Received s r]) @ sub_ch (fd_heap f' ! t) = got t as @ sub_ch (fd_heap f ! t)"
      if "t < length (fd_heap f)" for t
      using that assms(2) Cons by (auto simp: f' r history_simps nth_list_update)
    then show ?thesis
      using assms(1,2) inv never_behind_append [of buffer _ as "[Received s r]"]
      by (auto simp: tracks_def f' r history_simps nth_list_update)
  qed
qed

lemma subseq_snoc_drop: "subseq xs ys \<Longrightarrow> subseq xs (ys @ [y])"
  by (metis append_Nil2 list_emb_append_mono list_emb_Nil)

context subs_range
begin

lemma tracks_publish:
  assumes tr: "tracks buffer as f" and pub: "feed_publish rng ev f = Some f'"
  shows "tracks buffer (as @ [Published ev]) f'"
proof -
  have inv: "feed_inv f" and buffer: "fd_buffer f = buffer" using tr by (auto simp: tracks_def)
  have f': "f' = f\<lparr>fd_heap := map (delivered buffer ev) (fd_heap f)\<rparr>"
    using publish_eq [OF inv, of ev] pub buffer by simp
  have inv': "feed_inv f'" using publish_inv [OF inv, of ev] pub by auto
  have live: "is_live s False as \<longleftrightarrow> s < length (fd_heap f) \<and> \<not> sub_closed (fd_heap f ! s)" for s
    using tr by (simp add: tracks_def)
  have "subseq (got s as @ sub_ch (delivered buffer ev (fd_heap f ! s)))
        (offered s False as @ (if is_live s False as then [ev] else [])) \<and>
      (never_behind buffer s (as @ [Published ev]) \<longrightarrow>
        got s as @ sub_ch (delivered buffer ev (fd_heap f ! s)) =
        offered s False as @ (if is_live s False as then [ev] else []))"
    if s: "s < length (fd_heap f)" for s
  proof -
    let ?x = "fd_heap f ! s"
    have sub: "subseq (got s as @ sub_ch ?x) (offered s False as)"
      and eq: "never_behind buffer s as \<Longrightarrow> got s as @ sub_ch ?x = offered s False as"
      using tr s by (auto simp: tracks_def)
    consider (closed) "sub_closed ?x" | (full) "\<not> sub_closed ?x" "buffer \<le> length (sub_ch ?x)"
      | (room) "\<not> sub_closed ?x" "length (sub_ch ?x) < buffer" by linarith
    then show ?thesis
    proof cases
      case closed
      then show ?thesis using sub eq live never_behind_append by (auto simp: delivered_def)
    next
      case full
      have "\<not> never_behind buffer s (as @ [Published ev])"
      proof
        assume nb: "never_behind buffer s (as @ [Published ev])"
        then have "length (got s as) + length (sub_ch ?x) = length (offered s False as)"
          using eq [OF never_behind_append [OF nb]] by (metis length_append)
        then show False using never_behind_whole [OF nb] full live s by (simp add: history_simps)
      qed
      then show ?thesis using sub full live s by (simp add: delivered_def subseq_snoc_drop)
    next
      case room
      have "subseq ((got s as @ sub_ch ?x) @ [ev]) (offered s False as @ [ev])"
        using sub by (simp only: subseq_append)
      then show ?thesis using room live s eq never_behind_append by (auto simp: delivered_def)
    qed
  qed
  then show ?thesis
    using tr inv' by (auto simp: tracks_def f' history_simps)
qed

lemma history_tracks: "feed_history rng buffer as f \<Longrightarrow> tracks buffer as f"
proof (induction rule: feed_history.induct)
  case start
  then show ?case by (simp add: tracks_def new_feed_def feed_inv_def)
next
  case (publish as f ev f')
  then show ?case by (intro tracks_publish)
qed (simp_all add: tracks_subscribe tracks_cancel tracks_receive)

end

section \<open>Properties\<close>

definition demo_event :: "string \<Rightarrow> feed_event" where
  "demo_event v = \<lparr>fe_stream = demo_stream, fe_sample = \<lparr>smp_time = 1, smp_value = v, smp_unit = []\<rparr>,
     fe_alert = None\<rparr>"

text \<open>A subscriber with room for one event: it reads the first of two, then misses the third.\<close>

definition demo_history :: "feed_action list" where
  "demo_history = [Subscribed 0, Published (demo_event ''1''), Received 0 (Got (demo_event ''1'')),
     Published (demo_event ''2'')]"

definition demo_feed :: feed where
  "demo_feed = \<lparr>fd_buffer = 1, fd_subs = [0 \<mapsto> ()],
     fd_heap = [\<lparr>sub_ch = [demo_event ''2''], sub_closed = False\<rparr>]\<rparr>"

lemma demo_feed_history: "feed_history ascending_keys 1 demo_history demo_feed"
proof -
  let ?f = "\<lambda>ch. \<lparr>fd_buffer = 1, fd_subs = [0 \<mapsto> ()], fd_heap = [\<lparr>sub_ch = ch, sub_closed = False\<rparr>]\<rparr>"
  have pub: "feed_publish ascending_keys ev (?f []) = Some (?f [ev])" for ev
    by (simp add: feed_publish_def offer_def)
  have "feed_history ascending_keys 1 ([] @ [Subscribed 0]) (?f [])"
    by (rule feed_history.subscribe [OF feed_history.start]) (simp add: feed_subscribe_def new_feed_def)
  from feed_history.publish [OF this pub]
  have "feed_history ascending_keys 1 (([] @ [Subscribed 0]) @ [Published (demo_event ''1'')]) (?f [demo_event ''1''])" .
  from feed_history.receive [OF this, of 0 "Got (demo_event ''1'')" "?f []"]
  have "feed_history ascending_keys 1 ((([] @ [Subscribed 0]) @ [Published (demo_event ''1'')]) @
      [Received 0 (Got (demo_event ''1''))]) (?f [])"
    by (simp add: chan_receive_def)
  from feed_history.publish [OF this pub] show ?thesis by (simp add: demo_history_def demo_feed_def)
qed

text \<open>
  C20: Whatever sequence of subscriptions, cancellations, publications and receives a feed went
  through, a subscriber has received, and still has in its channel, a subsequence of the events
  published between its subscription and its cancellation, in their order and each at most once.
  One that never was more than the buffer behind at any moment misses nothing.
\<close>

theorem subscriber_misses_only_when_behind:
  assumes "subs_range rng" and "feed_history rng buffer as f" and "s < length (fd_heap f)"
  shows "subseq (got s as @ sub_ch (fd_heap f ! s)) (offered s False as) \<and>
    (never_behind buffer s as \<longrightarrow> got s as @ sub_ch (fd_heap f ! s) = offered s False as)"
  using subs_range.history_tracks [OF assms(1,2)] assms(3) by (simp add: tracks_def)

theorem subscriber_misses_only_when_behind_witness:
  "subseq (got 0 demo_history @ [demo_event ''2'']) (offered 0 False demo_history) \<and>
    got 0 demo_history = [demo_event ''1'']"
  using subscriber_misses_only_when_behind [OF subs_ascending.subs_range_axioms demo_feed_history, of 0]
  by (simp add: demo_feed_def demo_history_def)

text \<open>
  A feed never sends on a closed channel, which would panic: after any history publishing
  succeeds, its effect does not depend on the order the subscribers are visited in, and the number
  of live subscribers is the number subscribed and not cancelled.
\<close>

theorem publish_never_panics:
  assumes "subs_range rng" and "subs_range rng'" and "feed_history rng buffer as f"
  shows "(\<exists>f'. feed_publish rng ev f = Some f') \<and> feed_publish rng' ev f = feed_publish rng ev f \<and>
    feed_subscribers f = card {s. is_live s False as}"
proof -
  have tr: "tracks buffer as f" by (rule subs_range.history_tracks [OF assms(1,3)])
  then have inv: "feed_inv f" by (simp add: tracks_def)
  have "dom (fd_subs f) = {s. is_live s False as}" using tr by (simp add: tracks_def feed_inv_def)
  then show ?thesis
    using subs_range.publish_eq [OF assms(1) inv, of ev] subs_range.publish_eq [OF assms(2) inv, of ev]
    by (simp add: feed_subscribers_def)
qed

theorem publish_never_panics_witness:
  "\<exists>f'. feed_publish ascending_keys (demo_event ''3'') demo_feed = Some f'"
  using publish_never_panics [OF subs_ascending.subs_range_axioms subs_ascending.subs_range_axioms
      demo_feed_history, of "demo_event ''3''"] by blast

end
