(* ===== verification/Alerter.thy ===== *)
theory Alerter
  imports Feed
begin

text \<open>
  \<open>internal/usecase/alert.go\<close> and the \<open>Notifiers\<close> list of \<open>feed.go\<close>. An alerter holds one
  monitor per rule, reached through two tables that share them: \<open>ordered\<close> in configuration order
  and \<open>monitors\<close> by stream. The monitors live in a heap here and both tables hold pointers
  (indices), so that what \<open>Observe\<close> does through one table is seen by \<open>Status\<close> through the
  other. Each operation evaluates the monitors under the mutex and sends the collected
  notifications after it; the model runs them as one step.

  A notifier is a function on a state of its own; its contract is the locale \<open>notifier\<close>,
  which a list of notifiers meets when its members do, and which the feed meets.
\<close>

section \<open>Notifiers\<close>

type_synonym ('e, 's) notify = "notification \<Rightarrow> 's \<Rightarrow> ('e option \<times> 's) option"

definition join_errors :: "'e list \<Rightarrow> 'e list option" where
  \<comment> \<open>\<open>errors.Join\<close>: nil if there is no error\<close>
  "join_errors errs = (if errs = [] then None else Some errs)"

fun notify_each :: "('e, 's) notify list \<Rightarrow> notification \<Rightarrow> 'e list \<Rightarrow> 's \<Rightarrow> ('e list \<times> 's) option" where
  "notify_each [] nt errs st = Some (errs, st)"
| "notify_each (n # ns) nt errs st =
     (case n nt st of
        None \<Rightarrow> None
      | Some (err, st) \<Rightarrow>
          notify_each ns nt (case err of None \<Rightarrow> errs | Some e \<Rightarrow> errs @ [e]) st)"

definition notifiers_notify :: "('e, 's) notify list \<Rightarrow> ('e list, 's) notify" where
  "notifiers_notify ns nt st = map_option (apfst join_errors) (notify_each ns nt [] st)"

section \<open>The alerter\<close>

record rule_status =
  rs_rule :: rule
  rs_firing :: bool

record alerter =
  al_heap :: "monitor list"
  al_ordered :: "nat list"
  al_monitors :: "stream_id \<rightharpoonup> nat list"

definition add_rule :: "rule \<Rightarrow> alerter \<Rightarrow> alerter" where
  \<comment> \<open>the loop body of \<open>NewAlerter\<close>\<close>
  "add_rule r a =
     (let m = length (al_heap a);
          ms = (case al_monitors a (rl_stream r) of None \<Rightarrow> [] | Some ms \<Rightarrow> ms)
      in a\<lparr>al_heap := al_heap a @ [new_monitor r], al_ordered := al_ordered a @ [m],
           al_monitors := (al_monitors a)(rl_stream r \<mapsto> ms @ [m])\<rparr>)"

definition new_alerter :: "rule list \<Rightarrow> alerter" where
  "new_alerter rules = fold add_rule rules \<lparr>al_heap = [], al_ordered = [], al_monitors = Map.empty\<rparr>"

definition set_grace :: "duration \<Rightarrow> nat \<Rightarrow> monitor list \<Rightarrow> monitor list" where
  "set_grace d m h = h[m := (h ! m)\<lparr>mon_grace := d\<rparr>]"

definition set_absent_grace :: "duration \<Rightarrow> alerter \<Rightarrow> alerter" where
  "set_absent_grace d a = a\<lparr>al_heap := fold (set_grace d) (al_ordered a) (al_heap a)\<rparr>"

definition alerter_status :: "alerter \<Rightarrow> rule_status list" where
  "alerter_status a =
     map (\<lambda>m. \<lparr>rs_rule = mon_rule (al_heap a ! m), rs_firing = monitor_firing (al_heap a ! m)\<rparr>) (al_ordered a)"

fun check_loop :: "time \<Rightarrow> nat list \<Rightarrow> monitor list \<Rightarrow> notification list \<Rightarrow> monitor list \<times> notification list" where
  "check_loop now [] h pending = (h, pending)"
| "check_loop now (m # ms) h pending =
     (case monitor_check now (h ! m) of (ev, x) \<Rightarrow>
        check_loop now ms (h[m := x])
          (if ev \<noteq> NoEvent
           then pending @ [\<lparr>ntf_rule = mon_rule x, ntf_event = ev, ntf_time = now, ntf_value = [], ntf_unit = []\<rparr>]
           else pending))"

fun observe_loop :: "sample \<Rightarrow> float64 \<Rightarrow> nat list \<Rightarrow> monitor list \<Rightarrow> notification list \<Rightarrow> monitor list \<times> notification list" where
  "observe_loop s v [] h pending = (h, pending)"
| "observe_loop s v (m # ms) h pending =
     (case monitor_observe (smp_time s) v (h ! m) of (ev, x) \<Rightarrow>
        observe_loop s v ms (h[m := x])
          (if ev \<noteq> NoEvent
           then pending @ [\<lparr>ntf_rule = mon_rule x, ntf_event = ev, ntf_time = smp_time s,
             ntf_value = smp_value s, ntf_unit = smp_unit s\<rparr>]
           else pending))"

fun send_loop :: "('e, 's) notify \<Rightarrow> notification list \<Rightarrow> 'e list \<Rightarrow> 's \<Rightarrow> ('e list \<times> 's) option" where
  "send_loop notify [] errs st = Some (errs, st)"
| "send_loop notify (nt # nts) errs st =
     (case notify nt st of
        None \<Rightarrow> None
      | Some (err, st) \<Rightarrow>
          send_loop notify nts (case err of None \<Rightarrow> errs | Some e \<Rightarrow> errs @ [e]) st)"

definition alerter_send :: "('e, 's) notify \<Rightarrow> notification list \<Rightarrow> 's \<Rightarrow> ('e list option \<times> 's) option" where
  "alerter_send notify pending st = map_option (apfst join_errors) (send_loop notify pending [] st)"

definition alerter_check :: "('e, 's) notify \<Rightarrow> time \<Rightarrow> alerter \<times> 's \<Rightarrow> ('e list option \<times> alerter \<times> 's) option" where
  "alerter_check notify now ast =
     (case ast of (a, st) \<Rightarrow>
      (case check_loop now (al_ordered a) (al_heap a) [] of (h, pending) \<Rightarrow>
       (case alerter_send notify pending st of
          None \<Rightarrow> None
        | Some (err, st) \<Rightarrow> Some (err, a\<lparr>al_heap := h\<rparr>, st))))"

definition alerter_observe :: "('e, 's) notify \<Rightarrow> stream_id \<Rightarrow> sample \<Rightarrow> alerter \<times> 's \<Rightarrow> ('e list option \<times> alerter \<times> 's) option" where
  "alerter_observe notify i s ast =
     (case ast of (a, st) \<Rightarrow>
      let monitors = (case al_monitors a i of None \<Rightarrow> [] | Some ms \<Rightarrow> ms) in
      if length monitors = 0 then Some (None, a, st)
      else (case parse_float (smp_value s) of
              None \<Rightarrow> Some (None, a, st)
            | Some v \<Rightarrow>
                (case observe_loop s v monitors (al_heap a) [] of (h, pending) \<Rightarrow>
                 (case alerter_send notify pending st of
                    None \<Rightarrow> None
                  | Some (err, st) \<Rightarrow> Some (err, a\<lparr>al_heap := h\<rparr>, st)))))"

section \<open>What the loops do\<close>

definition check_notes :: "time \<Rightarrow> monitor \<Rightarrow> notification list" where
  "check_notes now m = (let ev = fst (monitor_check now m) in
     if ev = NoEvent then []
     else [\<lparr>ntf_rule = mon_rule m, ntf_event = ev, ntf_time = now, ntf_value = [], ntf_unit = []\<rparr>])"

definition observe_notes :: "sample \<Rightarrow> float64 \<Rightarrow> monitor \<Rightarrow> notification list" where
  "observe_notes s v m = (let ev = fst (monitor_observe (smp_time s) v m) in
     if ev = NoEvent then []
     else [\<lparr>ntf_rule = mon_rule m, ntf_event = ev, ntf_time = smp_time s, ntf_value = smp_value s,
       ntf_unit = smp_unit s\<rparr>])"

lemma check_loop_Cons:
  "check_loop now (m # ms) h pending =
    check_loop now ms (h[m := snd (monitor_check now (h ! m))]) (pending @ check_notes now (h ! m))"
  by (simp add: check_notes_def Let_def case_prod_beta)

lemma observe_loop_Cons:
  "observe_loop s v (m # ms) h pending =
    observe_loop s v ms (h[m := snd (monitor_observe (smp_time s) v (h ! m))]) (pending @ observe_notes s v (h ! m))"
  by (simp add: observe_notes_def Let_def case_prod_beta)

text \<open>A loop over distinct pointers updates each monitor from its own old value.\<close>

definition at_pointers :: "nat list \<Rightarrow> (monitor \<Rightarrow> monitor) \<Rightarrow> monitor list \<Rightarrow> monitor list" where
  "at_pointers ms f h = map (\<lambda>k. if k \<in> set ms then f (h ! k) else h ! k) [0..<length h]"

lemma at_pointers_Nil [simp]: "at_pointers [] f h = h"
  by (simp add: at_pointers_def map_nth)

lemma at_pointers_Cons:
  assumes "distinct (m # ms)" and "m < length h"
  shows "at_pointers ms f (h[m := f (h ! m)]) = at_pointers (m # ms) f h"
  using assms by (auto simp: at_pointers_def nth_list_update)

lemma map_other_pointers: "m \<notin> set ms \<Longrightarrow> map (\<lambda>k. g (h[m := x] ! k)) ms = map (\<lambda>k. g (h ! k)) ms"
  by (rule map_cong [OF refl], rule arg_cong [of _ _ g], rule nth_list_update_neq) auto

lemma check_loop_eq:
  assumes "distinct ms" and "list_all (\<lambda>m. m < length h) ms"
  shows "check_loop now ms h pending =
    (at_pointers ms (\<lambda>m. snd (monitor_check now m)) h,
     pending @ concat (map (\<lambda>k. check_notes now (h ! k)) ms))"
  using assms
proof (induction ms arbitrary: h pending)
  case Nil
  then show ?case by simp
next
  case (Cons m ms)
  let ?h = "h[m := snd (monitor_check now (h ! m))]"
  have "list_all (\<lambda>m. m < length ?h) ms" "distinct ms" using Cons.prems by auto
  from Cons.IH [OF this(2,1)] show ?case using Cons.prems
    at_pointers_Cons [of m ms h "\<lambda>m. snd (monitor_check now m)"]
    by (simp add: check_loop_Cons map_other_pointers del: check_loop.simps)
qed

lemma observe_loop_eq:
  assumes "distinct ms" and "list_all (\<lambda>m. m < length h) ms"
  shows "observe_loop s v ms h pending =
    (at_pointers ms (\<lambda>m. snd (monitor_observe (smp_time s) v m)) h,
     pending @ concat (map (\<lambda>k. observe_notes s v (h ! k)) ms))"
  using assms
proof (induction ms arbitrary: h pending)
  case Nil
  then show ?case by simp
next
  case (Cons m ms)
  let ?h = "h[m := snd (monitor_observe (smp_time s) v (h ! m))]"
  have "list_all (\<lambda>m. m < length ?h) ms" "distinct ms" using Cons.prems by auto
  from Cons.IH [OF this(2,1)] show ?case using Cons.prems
    at_pointers_Cons [of m ms h "\<lambda>m. snd (monitor_observe (smp_time s) v m)"]
    by (simp add: observe_loop_Cons map_other_pointers del: observe_loop.simps)
qed

section \<open>The shape of an alerter\<close>

definition rules_on :: "stream_id \<Rightarrow> rule list \<Rightarrow> nat list" where
  "rules_on i rules = filter (\<lambda>k. rl_stream (rules ! k) = i) [0..<length rules]"

definition alerter_inv :: "rule list \<Rightarrow> alerter \<Rightarrow> bool" where
  "alerter_inv rules a \<longleftrightarrow>
     map mon_rule (al_heap a) = rules \<and> al_ordered a = [0..<length rules] \<and>
     (\<forall>i. (case al_monitors a i of None \<Rightarrow> [] | Some ms \<Rightarrow> ms) = rules_on i rules)"

lemma rules_on_snoc: "rules_on i (rules @ [r]) =
    rules_on i rules @ (if rl_stream r = i then [length rules] else [])"
proof -
  have "filter (\<lambda>k. rl_stream ((rules @ [r]) ! k) = i) [0..<length rules] = rules_on i rules"
    unfolding rules_on_def by (rule filter_cong) (auto simp: nth_append)
  then show ?thesis by (simp add: rules_on_def)
qed

lemma alerter_inv_length: "alerter_inv rules a \<Longrightarrow> length (al_heap a) = length rules"
  by (auto simp: alerter_inv_def dest: arg_cong [of _ _ length])

lemma alerter_inv_rule: "alerter_inv rules a \<Longrightarrow> k < length rules \<Longrightarrow> mon_rule (al_heap a ! k) = rules ! k"
  unfolding alerter_inv_def by (metis length_map nth_map)

lemma add_rule_inv: "alerter_inv rules a \<Longrightarrow> alerter_inv (rules @ [r]) (add_rule r a)"
  using alerter_inv_length [of rules a]
  by (auto simp: alerter_inv_def add_rule_def Let_def rules_on_snoc new_monitor_def)

lemma fold_add_rule:
  assumes "alerter_inv done a" and "al_heap a = map new_monitor done"
  shows "alerter_inv (done @ rules) (fold add_rule rules a) \<and>
    al_heap (fold add_rule rules a) = map new_monitor (done @ rules)"
  using assms
proof (induction rules arbitrary: "done" a)
  case Nil
  then show ?case by simp
next
  case (Cons r rules)
  have "al_heap (add_rule r a) = map new_monitor (done @ [r])"
    using Cons.prems(2) by (simp add: add_rule_def Let_def)
  from Cons.IH [OF add_rule_inv [OF Cons.prems(1)] this] show ?case by simp
qed

lemma new_alerter_shape:
  "alerter_inv rules (new_alerter rules) \<and> al_heap (new_alerter rules) = map new_monitor rules"
proof -
  have "alerter_inv [] \<lparr>al_heap = [], al_ordered = [], al_monitors = Map.empty\<rparr>"
    by (simp add: alerter_inv_def rules_on_def)
  from fold_add_rule [OF this, of rules] show ?thesis by (simp add: new_alerter_def)
qed

lemmas new_alerter_inv = new_alerter_shape [THEN conjunct1]
lemmas new_alerter_heap = new_alerter_shape [THEN conjunct2]

lemma set_grace_fold:
  "distinct ms \<Longrightarrow> list_all (\<lambda>m. m < length h) ms \<Longrightarrow>
    fold (set_grace d) ms h = at_pointers ms (\<lambda>m. m\<lparr>mon_grace := d\<rparr>) h"
  by (induction ms arbitrary: h) (auto simp: set_grace_def at_pointers_Cons)

lemma at_all_pointers: "at_pointers [0..<length h] f h = map f h"
  by (rule nth_equalityI) (auto simp: at_pointers_def)

lemma list_all_upt [simp]: "list_all (\<lambda>m. m < n) [0..<n]"
  by (simp add: list_all_iff)

lemma set_absent_grace_heap:
  assumes "alerter_inv rules a"
  shows "al_heap (set_absent_grace d a) = map (\<lambda>m. m\<lparr>mon_grace := d\<rparr>) (al_heap a)"
proof -
  have "al_ordered a = [0..<length (al_heap a)]"
    using assms alerter_inv_length [OF assms] by (simp add: alerter_inv_def)
  then show ?thesis by (simp add: set_absent_grace_def set_grace_fold at_all_pointers)
qed

lemma set_absent_grace_inv: "alerter_inv rules a \<Longrightarrow> alerter_inv rules (set_absent_grace d a)"
  using set_absent_grace_heap [of rules a d]
  by (auto simp: alerter_inv_def set_absent_grace_def)

section \<open>Specification: every rule is watched on its own\<close>

datatype alert_op = Observe_Op stream_id sample | Check_Op time

fun inputs_for :: "rule \<Rightarrow> alert_op list \<Rightarrow> input list" where
  \<comment> \<open>what the monitor of one rule is shown\<close>
  "inputs_for r [] = []"
| "inputs_for r (Check_Op t # ops) = Clock_In t # inputs_for r ops"
| "inputs_for r (Observe_Op i s # ops) =
     (case parse_float (smp_value s) of
        Some v \<Rightarrow> (if rl_stream r = i then [Sample_In (smp_time s) v] else []) @ inputs_for r ops
      | None \<Rightarrow> inputs_for r ops)"

fun spec_step :: "alert_op \<Rightarrow> monitor \<Rightarrow> monitor \<times> notification list" where
  "spec_step (Check_Op t) m = (snd (monitor_check t m), check_notes t m)"
| "spec_step (Observe_Op i s) m =
     (case parse_float (smp_value s) of
        Some v \<Rightarrow>
          (if rl_stream (mon_rule m) = i
           then (snd (monitor_observe (smp_time s) v m), observe_notes s v m) else (m, []))
      | None \<Rightarrow> (m, []))"

fun alerter_step :: "('e, 's) notify \<Rightarrow> alert_op \<Rightarrow> alerter \<times> 's \<Rightarrow> ('e list option \<times> alerter \<times> 's) option" where
  "alerter_step notify (Observe_Op i s) ast = alerter_observe notify i s ast"
| "alerter_step notify (Check_Op t) ast = alerter_check notify t ast"

lemma spec_step_rule [simp]: "mon_rule (fst (spec_step x m)) = mon_rule m"
  by (cases x) (auto split: option.splits)

lemma at_rules_on:
  assumes "map mon_rule h = rules"
  shows "at_pointers (rules_on i rules) f h = map (\<lambda>m. if rl_stream (mon_rule m) = i then f m else m) h"
  using assms by (auto simp: at_pointers_def rules_on_def intro!: nth_equalityI)

lemma concat_map_filter: "concat (map g (filter P xs)) = concat (map (\<lambda>x. if P x then g x else []) xs)"
  by (induction xs) auto

lemma notes_rules_on:
  assumes "map mon_rule h = rules"
  shows "concat (map (\<lambda>k. g (h ! k)) (rules_on i rules)) =
    concat (map (\<lambda>m. if rl_stream (mon_rule m) = i then g m else []) h)"
proof -
  have len: "length h = length rules" using assms by auto
  have "map (\<lambda>k. if rl_stream (rules ! k) = i then g (h ! k) else []) [0..<length rules] =
      map (\<lambda>m. if rl_stream (mon_rule m) = i then g m else []) h"
    using assms len by (auto intro!: nth_equalityI)
  then show ?thesis by (simp only: rules_on_def concat_map_filter)
qed

text \<open>
  One operation steps every monitor by itself, and sends the notifications of all of them in
  configuration order.
\<close>

lemma alerter_step_eq:
  assumes "alerter_inv rules a"
  shows "alerter_step notify x (a, st) =
    (case alerter_send notify (concat (map (\<lambda>m. snd (spec_step x m)) (al_heap a))) st of
       None \<Rightarrow> None
     | Some (err, st') \<Rightarrow> Some (err, a\<lparr>al_heap := map (\<lambda>m. fst (spec_step x m)) (al_heap a)\<rparr>, st'))"
proof -
  let ?h = "al_heap a"
  have h: "map mon_rule ?h = rules" and ord: "al_ordered a = [0..<length ?h]"
    using assms alerter_inv_length [OF assms] by (auto simp: alerter_inv_def)
  have all: "map (\<lambda>k. g (?h ! k)) [0..<length ?h] = map g ?h" for g :: "monitor \<Rightarrow> notification list"
    by (rule nth_equalityI) auto
  show ?thesis
  proof (cases x)
    case (Check_Op t)
    have step: "(\<lambda>m. fst (spec_step x m)) = (\<lambda>m. snd (monitor_check t m))"
      "(\<lambda>m. snd (spec_step x m)) = check_notes t" using Check_Op by auto
    show ?thesis unfolding step
      by (simp add: Check_Op alerter_check_def ord check_loop_eq at_all_pointers all)
  next
    case (Observe_Op i s)
    have ms: "(case al_monitors a i of None \<Rightarrow> [] | Some ms \<Rightarrow> ms) = rules_on i rules"
      using assms by (simp add: alerter_inv_def)
    have len: "list_all (\<lambda>m. m < length ?h) (rules_on i rules)"
      using alerter_inv_length [OF assms] by (auto simp: rules_on_def list_all_iff)
    have dist: "distinct (rules_on i rules)" by (simp add: rules_on_def)
    have idle: "alerter_send notify [] st = Some (None, st)"
      by (simp add: alerter_send_def join_errors_def)
    show ?thesis
    proof (cases "parse_float (smp_value s)")
      case None
      then have step: "(\<lambda>m. fst (spec_step x m)) = (\<lambda>m. m)" "(\<lambda>m. snd (spec_step x m)) = (\<lambda>m. [])"
        using Observe_Op by auto
      have quiet: "concat (map (\<lambda>m. []) ?h) = ([] :: notification list)" by simp
      show ?thesis unfolding step quiet list.map_ident using None idle
        by (simp add: Observe_Op alerter_observe_def Let_def)
    next
      case (Some v)
      have none: "rl_stream (mon_rule m) \<noteq> i" if "rules_on i rules = []" "m \<in> set ?h" for m
        using that h by (fastforce simp: rules_on_def filter_empty_conv in_set_conv_nth)
      then have skip: "map (\<lambda>m. if rl_stream (mon_rule m) = i then f m else m) ?h = ?h"
          "concat (map (\<lambda>m. if rl_stream (mon_rule m) = i then g m else []) ?h) = []"
        if "rules_on i rules = []" for f and g :: "monitor \<Rightarrow> notification list"
        using that by (auto intro!: map_idI)
      have step: "(\<lambda>m. fst (spec_step x m)) =
          (\<lambda>m. if rl_stream (mon_rule m) = i then snd (monitor_observe (smp_time s) v m) else m)"
        "(\<lambda>m. snd (spec_step x m)) = (\<lambda>m. if rl_stream (mon_rule m) = i then observe_notes s v m else [])"
        using Observe_Op Some by auto
      show ?thesis
      proof (cases "rules_on i rules = []")
        case True
        show ?thesis unfolding step skip(1) [OF True] skip(2) [OF True]
          using Some True idle by (simp add: Observe_Op alerter_observe_def ms Let_def)
      next
        case False
        have loop: "observe_loop s v (rules_on i rules) ?h [] =
            (map (\<lambda>m. if rl_stream (mon_rule m) = i then snd (monitor_observe (smp_time s) v m) else m) ?h,
             concat (map (\<lambda>m. if rl_stream (mon_rule m) = i then observe_notes s v m else []) ?h))"
          by (simp add: observe_loop_eq [OF dist len] at_rules_on [OF h] notes_rules_on [OF h])
        show ?thesis unfolding step using Some False
          by (simp add: Observe_Op alerter_observe_def ms Let_def loop)
      qed
    qed
  qed
qed

section \<open>The contract of a notifier\<close>

locale notifier =
  fixes notify :: "('e, 's) notify"
    and inv :: "'s \<Rightarrow> bool"
  assumes notify_returns: "inv st \<Longrightarrow> \<exists>err st'. notify nt st = Some (err, st') \<and> inv st'"
begin

lemma send_loop_returns: "inv st \<Longrightarrow> \<exists>errs' st'. send_loop notify nts errs st = Some (errs', st') \<and> inv st'"
proof (induction nts arbitrary: errs st)
  case Nil
  then show ?case by simp
next
  case (Cons nt nts)
  obtain err st1 where "notify nt st = Some (err, st1)" "inv st1"
    using notify_returns [OF Cons.prems] by blast
  then show ?case using Cons.IH by simp
qed

lemma send_returns: "inv st \<Longrightarrow> \<exists>err st'. alerter_send notify nts st = Some (err, st') \<and> inv st'"
  using send_loop_returns [of st nts "[]"] by (auto simp: alerter_send_def)

lemma step_returns:
  assumes "alerter_inv rules a" and "inv st"
  shows "\<exists>err a' st'. alerter_step notify x (a, st) = Some (err, a', st') \<and> inv st' \<and>
    alerter_inv rules a' \<and> al_heap a' = map (\<lambda>m. fst (spec_step x m)) (al_heap a)"
proof -
  let ?a = "a\<lparr>al_heap := map (\<lambda>m. fst (spec_step x m)) (al_heap a)\<rparr>"
  have "alerter_inv rules ?a" using assms(1) by (simp add: alerter_inv_def comp_def)
  then show ?thesis
    using send_returns [OF assms(2), of "concat (map (\<lambda>m. snd (spec_step x m)) (al_heap a))"]
    by (auto simp: alerter_step_eq [OF assms(1)])
qed

end

text \<open>A list of notifiers is a notifier.\<close>

lemma notify_each_returns:
  assumes "list_all (\<lambda>n. notifier n I) ns" and "I st"
  shows "\<exists>errs' st'. notify_each ns nt errs st = Some (errs', st') \<and> I st'"
  using assms
proof (induction ns arbitrary: errs st)
  case Nil
  then show ?case by simp
next
  case (Cons n ns)
  obtain err st1 where "n nt st = Some (err, st1)" "I st1"
    using Cons.prems notifier.notify_returns by fastforce
  then show ?case using Cons by simp
qed

lemma notifiers_notifier: "list_all (\<lambda>n. notifier n I) ns \<Longrightarrow> notifier (notifiers_notify ns) I"
  using notify_each_returns [of I ns] by unfold_locales (fastforce simp: notifiers_notify_def)

text \<open>So is the feed, whatever the order it visits its subscribers in.\<close>

context subs_range
begin

lemma feed_notifier: "notifier (feed_notify rng) feed_inv"
  using publish_inv by unfold_locales (fastforce simp: feed_notify_def)

end

interpretation feed_channel: notifier "feed_notify ascending_keys" feed_inv
  by (rule subs_ascending.feed_notifier)

section \<open>Runs of an alerter\<close>

fun alerter_run :: "('e, 's) notify \<Rightarrow> alert_op list \<Rightarrow> alerter \<times> 's \<Rightarrow> (alerter \<times> 's) option" where
  "alerter_run notify [] ast = Some ast"
| "alerter_run notify (x # xs) ast =
     (case alerter_step notify x ast of
        None \<Rightarrow> None
      | Some (err, ast') \<Rightarrow> alerter_run notify xs ast')"

definition start_alerter :: "duration \<Rightarrow> rule list \<Rightarrow> alerter" where
  \<comment> \<open>how \<open>main\<close> sets an alerter up\<close>
  "start_alerter grace rules = set_absent_grace grace (new_alerter rules)"

definition rule_monitor :: "duration \<Rightarrow> rule \<Rightarrow> alert_op list \<Rightarrow> monitor" where
  "rule_monitor grace r ops = snd (monitor_run (inputs_for r ops) (new_monitor r\<lparr>mon_grace := grace\<rparr>))"

lemma start_alerter_inv: "alerter_inv rules (start_alerter grace rules)"
  by (simp add: start_alerter_def set_absent_grace_inv new_alerter_inv)

lemma start_alerter_heap: "al_heap (start_alerter grace rules) = map (\<lambda>r. rule_monitor grace r []) rules"
  by (simp add: start_alerter_def set_absent_grace_heap [OF new_alerter_inv] new_alerter_heap rule_monitor_def)

lemma inputs_for_append: "inputs_for r (xs @ ys) = inputs_for r xs @ inputs_for r ys"
  by (induction r xs rule: inputs_for.induct) (auto split: option.splits)

lemma spec_step_run:
  "mon_rule m = r \<Longrightarrow> fst (spec_step x m) = snd (monitor_run (inputs_for r [x]) m)"
  by (cases x) (auto split: option.splits prod.splits simp: Let_def)

lemma rule_monitor_rule [simp]: "mon_rule (rule_monitor grace r ops) = r"
  by (simp add: rule_monitor_def new_monitor_def)

lemma rule_monitor_snoc: "rule_monitor grace r (ops @ [x]) = fst (spec_step x (rule_monitor grace r ops))"
  using spec_step_run [of "rule_monitor grace r ops" r x]
  by (simp add: rule_monitor_def inputs_for_append monitor_run_append Let_def case_prod_beta new_monitor_def)

lemma alerter_status_eq:
  assumes "alerter_inv rules a"
  shows "alerter_status a = map (\<lambda>m. \<lparr>rs_rule = mon_rule m, rs_firing = monitor_firing m\<rparr>) (al_heap a)"
proof -
  have "al_ordered a = [0..<length (al_heap a)]"
    using assms alerter_inv_length [OF assms] by (simp add: alerter_inv_def)
  then show ?thesis by (auto simp: alerter_status_def intro!: nth_equalityI)
qed

context notifier
begin

lemma run_from:
  assumes "alerter_inv rules a" and "al_heap a = map (\<lambda>r. rule_monitor g r done) rules" and "inv st"
  shows "\<exists>a' st'. alerter_run notify ops (a, st) = Some (a', st') \<and> inv st' \<and> alerter_inv rules a' \<and>
    al_heap a' = map (\<lambda>r. rule_monitor g r (done @ ops)) rules"
  using assms
proof (induction ops arbitrary: a "done" st)
  case Nil
  then show ?case by simp
next
  case (Cons x xs)
  obtain err a1 st1 where s: "alerter_step notify x (a, st) = Some (err, a1, st1)" "inv st1"
    "alerter_inv rules a1" "al_heap a1 = map (\<lambda>m. fst (spec_step x m)) (al_heap a)"
    using step_returns [OF Cons.prems(1,3), of x] by blast
  have "al_heap a1 = map (\<lambda>r. rule_monitor g r (done @ [x])) rules"
    using s(4) Cons.prems(2) by (simp add: rule_monitor_snoc)
  from Cons.IH [OF s(3) this s(2)] s(1) show ?case by simp
qed

lemma run_status:
  assumes "inv st"
  shows "\<exists>a st'. alerter_run notify ops (start_alerter g rules, st) = Some (a, st') \<and> inv st' \<and>
    alerter_status a = map (\<lambda>r. \<lparr>rs_rule = r, rs_firing = monitor_firing (rule_monitor g r ops)\<rparr>) rules"
  using run_from [OF start_alerter_inv start_alerter_heap assms, where ops = ops and g = g and rules = rules]
  by (auto simp: alerter_status_eq)

end

section \<open>What is sent\<close>

definition log_notification :: "(unit, notification list) notify" where
  \<comment> \<open>a notifier that never fails and writes down what it is given\<close>
  "log_notification nt sent = Some (None, sent @ [nt])"

lemma log_send_loop: "send_loop log_notification nts errs sent = Some (errs, sent @ nts)"
  by (induction nts arbitrary: sent) (auto simp: log_notification_def)

lemma log_send: "alerter_send log_notification nts sent = Some (None, sent @ nts)"
  by (simp add: alerter_send_def log_send_loop join_errors_def)

interpretation log_channel: notifier log_notification "\<lambda>_. True"
  by unfold_locales (simp add: log_notification_def)

definition events_of :: "rule \<Rightarrow> notification list \<Rightarrow> event list" where
  "events_of r nts = map ntf_event (filter (\<lambda>nt. ntf_rule nt = r) nts)"

lemma events_of_append [simp]: "events_of r (xs @ ys) = events_of r xs @ events_of r ys"
  by (simp add: events_of_def)

lemma spec_step_notes_rule: "nt \<in> set (snd (spec_step x m)) \<Longrightarrow> ntf_rule nt = mon_rule m"
  by (cases x) (auto simp: check_notes_def observe_notes_def Let_def split: if_splits option.splits)

lemma events_of_own:
  "mon_rule m = r \<Longrightarrow>
    events_of r (snd (spec_step x m)) = filter (\<lambda>e. e \<noteq> NoEvent) (fst (monitor_run (inputs_for r [x]) m))"
  by (cases x) (auto simp: events_of_def check_notes_def observe_notes_def Let_def split: option.splits prod.splits)

lemma events_of_other: "mon_rule m \<noteq> r \<Longrightarrow> events_of r (snd (spec_step x m)) = []"
  using spec_step_notes_rule [of _ x m] by (auto simp: events_of_def filter_empty_conv)

lemma events_of_all:
  assumes "distinct rules" and "r \<in> set rules" and "\<And>r. mon_rule (M r) = r"
  shows "events_of r (concat (map (\<lambda>r. snd (spec_step x (M r))) rules)) = events_of r (snd (spec_step x (M r)))"
  using assms(1,2)
proof (induction rules)
  case Nil
  then show ?case by simp
next
  case (Cons q rules)
  have none: "events_of r (concat (map (\<lambda>r. snd (spec_step x (M r))) qs)) = []" if "r \<notin> set qs" for qs
    using that by (induction qs) (auto simp: events_of_other assms(3), simp add: events_of_def)
  show ?case
  proof (cases "q = r")
    case True
    with Cons.prems none [of rules] show ?thesis by simp
  next
    case False
    with Cons show ?thesis by (simp add: events_of_other assms(3))
  qed
qed

lemma log_run:
  assumes "alerter_inv rules a" and "al_heap a = map (\<lambda>r. rule_monitor g r done) rules"
    and "distinct rules" and "r \<in> set rules"
  shows "\<exists>a' sent'. alerter_run log_notification ops (a, sent) = Some (a', sent') \<and>
    events_of r sent' = events_of r sent @
      filter (\<lambda>e. e \<noteq> NoEvent) (fst (monitor_run (inputs_for r ops) (rule_monitor g r done)))"
  using assms(1,2)
proof (induction ops arbitrary: a "done" sent)
  case Nil
  then show ?case by simp
next
  case (Cons x xs)
  let ?M = "\<lambda>r. rule_monitor g r done"
  let ?nts = "concat (map (\<lambda>m. snd (spec_step x m)) (al_heap a))"
  let ?a = "a\<lparr>al_heap := map (\<lambda>m. fst (spec_step x m)) (al_heap a)\<rparr>"
  have step: "alerter_step log_notification x (a, sent) = Some (None, ?a, sent @ ?nts)"
    by (simp add: alerter_step_eq [OF Cons.prems(1)] log_send)
  obtain err a1 st1 where "alerter_step log_notification x (a, sent) = Some (err, a1, st1)"
    "alerter_inv rules a1" using log_channel.step_returns [OF Cons.prems(1), where st = sent and x = x] by blast
  then have inv: "alerter_inv rules ?a" using step by simp
  have heap: "al_heap ?a = map (\<lambda>r. rule_monitor g r (done @ [x])) rules"
    using Cons.prems(2) by (simp add: rule_monitor_snoc)
  have "?nts = concat (map (\<lambda>r. snd (spec_step x (?M r))) rules)" by (simp add: Cons.prems(2) comp_def)
  then have nts: "events_of r ?nts =
      filter (\<lambda>e. e \<noteq> NoEvent) (fst (monitor_run (inputs_for r [x]) (?M r)))"
    by (simp add: events_of_all [OF assms(3,4)] events_of_own del: inputs_for.simps)
  have split: "fst (monitor_run (inputs_for r (x # xs)) (?M r)) =
      fst (monitor_run (inputs_for r [x]) (?M r)) @
      fst (monitor_run (inputs_for r xs) (rule_monitor g r (done @ [x])))"
    using inputs_for_append [of r "[x]" xs] spec_step_run [of "?M r" r x]
    by (simp add: monitor_run_append rule_monitor_snoc Let_def case_prod_beta del: inputs_for.simps)
  from Cons.IH [OF inv heap, of "sent @ ?nts"] step nts split show ?case
    by (auto simp: del: inputs_for.simps)
qed

definition recorder :: "(nat \<Rightarrow> notification \<Rightarrow> 'e option) \<Rightarrow> nat \<Rightarrow> ('e, (nat \<times> notification) list) notify" where
  \<comment> \<open>the \<open>j\<close>-th of a list of notifiers, each with its own way to fail\<close>
  "recorder fails j nt given = Some (fails j nt, given @ [(j, nt)])"

lemma notify_each_recorders:
  "notify_each (map (recorder fails) js) nt errs given =
    Some (errs @ List.map_filter (\<lambda>j. fails j nt) js, given @ map (\<lambda>j. (j, nt)) js)"
  by (induction js arbitrary: errs given) (auto simp: recorder_def map_filter_simps split: option.splits)

lemma send_loop_recorders:
  "send_loop (notifiers_notify (map (recorder fails) js)) nts errs given =
    Some (errs @ filter (\<lambda>e. e \<noteq> []) (map (\<lambda>nt. List.map_filter (\<lambda>j. fails j nt) js) nts),
      given @ concat (map (\<lambda>nt. map (\<lambda>j. (j, nt)) js) nts))"
  by (induction nts arbitrary: errs given)
    (auto simp: notifiers_notify_def notify_each_recorders join_errors_def)

section \<open>Properties\<close>

definition demo_ops :: "alert_op list" where
  "demo_ops = [Observe_Op demo_stream \<lparr>smp_time = 1, smp_value = ''101'', smp_unit = []\<rparr>,
     Observe_Op demo_stream \<lparr>smp_time = 180000000001, smp_value = ''1e3'', smp_unit = []\<rparr>]"

text \<open>
  C3: An alerter set up by \<open>NewAlerter\<close> and \<open>SetAbsentGrace\<close> watches every rule on its
  own: after any sequence of samples and checks, with any notifier that returns (an error or not),
  \<open>Status\<close> lists the rules in configuration order, each with the firing state of a monitor of
  that rule alone that was shown the numeric samples of its stream and the checks, in order. Rules
  that share a stream, rules given twice, and failing notifiers do not disturb each other.
\<close>

theorem rules_watched_independently:
  assumes "notifier notify I" and "I st"
  shows "\<exists>a st'. alerter_run notify ops (start_alerter g rules, st) = Some (a, st') \<and> I st' \<and>
    alerter_status a = map (\<lambda>r. \<lparr>rs_rule = r, rs_firing = monitor_firing (rule_monitor g r ops)\<rparr>) rules"
  by (rule notifier.run_status [OF assms])

theorem rules_watched_independently_witness:
  "\<exists>a sent. alerter_run log_notification demo_ops
      (start_alerter 0 [demo_rule OpGreater, demo_rule OpLess], []) = Some (a, sent) \<and>
    map rs_firing (alerter_status a) = [True, False]"
proof -
  have "monitor_firing (rule_monitor 0 (demo_rule OpGreater) demo_ops)"
    "\<not> monitor_firing (rule_monitor 0 (demo_rule OpLess) demo_ops)"
    by code_simp+
  then show ?thesis
    using rules_watched_independently [OF log_channel.notifier_axioms TrueI, of demo_ops 0
        "[demo_rule OpGreater, demo_rule OpLess]" "[]"] by auto
qed



text \<open>
  C37: A failing notifier stops neither the other notifiers nor the later notifications: every
  notifier of the list is given every pending notification, one notification after the other, and
  the error returned collects all failures, nil exactly when there was none.
\<close>

theorem every_notifier_gets_every_notification:
  "alerter_send (notifiers_notify (map (recorder fails) [0..<n])) pending given =
    Some (let errs = filter (\<lambda>e. e \<noteq> []) (map (\<lambda>nt. List.map_filter (\<lambda>j. fails j nt) [0..<n]) pending)
          in if errs = [] then None else Some errs,
      given @ concat (map (\<lambda>nt. map (\<lambda>j. (j, nt)) [0..<n]) pending))"
  by (simp add: alerter_send_def send_loop_recorders join_errors_def Let_def)

end
