(* ===== verification/Go_Format.thy ===== *)
theory Go_Format
  imports Go_Float
begin

text \<open>
  The other float formats the program uses: \<open>FormatFloat(f, 'f', p, 64)\<close> as \<open>%.pf\<close> of
  package \<open>fmt\<close>, and the \<open>'g'\<close> format with a given or the shortest precision. Rounding
  is exact, ties to even.
\<close>

definition fixed_digits :: "nat \<Rightarrow> nat \<Rightarrow> int \<Rightarrow> nat" where
  \<comment> \<open>the value times \<open>10^p\<close>, rounded\<close>
  "fixed_digits p m e = (case fin_ratio m e of (a, b) \<Rightarrow> round_half_even (a * 10 ^ p) b)"

fun format_fixed :: "nat \<Rightarrow> float64 \<Rightarrow> string" where
  "format_fixed p FNaN = ''NaN''"
| "format_fixed p (FInf s) = (if s then ''-Inf'' else ''+Inf'')"
| "format_fixed p (FFin s m e) =
     (if s then ''-'' else []) @ decimal_string (fixed_digits p m e) (- int p)"

fun strip_zeros :: "nat \<Rightarrow> int \<Rightarrow> nat \<times> int" where
  \<comment> \<open>trailing zeros of a decimal moved to its exponent\<close>
  "strip_zeros c k = (if c \<noteq> 0 \<and> c mod 10 = 0 then strip_zeros (c div 10) (k + 1) else (c, k))"

declare strip_zeros.simps [simp del]

definition round_digits :: "nat \<Rightarrow> nat \<Rightarrow> int \<Rightarrow> nat \<times> int" where
  \<comment> \<open>the closest decimal of \<open>n\<close> digits\<close>
  "round_digits n m e =
     (if m = 0 then (0, 0)
      else let r = fin_ratio m e; k = decimal_point r - int n; (a, b) = pow10_at r k
           in strip_zeros (round_half_even a b) k)"

definition exp_string :: "int \<Rightarrow> string" where
  \<comment> \<open>a sign and at least two digits\<close>
  "exp_string x = (if x < 0 then ''-'' else ''+'') @
     (if \<bar>x\<bar> < 10 then ''0'' else []) @ nat_digits (nat \<bar>x\<bar>)"

definition general_string :: "nat \<Rightarrow> nat \<Rightarrow> int \<Rightarrow> string" where
  \<comment> \<open>the choice between the \<open>%e\<close> and the \<open>%f\<close> form\<close>
  "general_string eprec c k =
     (let ds = nat_digits c; dp = (if c = 0 then 0 else int (length ds) + k); x = (if c = 0 then 0 else dp - 1) in
      if x < - 4 \<or> x \<ge> int eprec then
        (case ds of [] \<Rightarrow> [] | d # rest \<Rightarrow> d # (if rest = [] then [] else CHR ''.'' # rest)) @ ''e'' @ exp_string x
      else decimal_string c k)"

fun format_g :: "nat option \<Rightarrow> float64 \<Rightarrow> string" where
  \<comment> \<open>\<^const>\<open>None\<close> is the shortest precision\<close>
  "format_g prec FNaN = ''NaN''"
| "format_g prec (FInf s) = (if s then ''-Inf'' else ''+Inf'')"
| "format_g None (FFin s m e) =
     (case shortest_decimal s m e of (c, k) \<Rightarrow>
        case strip_zeros c k of (c, k) \<Rightarrow> (if s then ''-'' else []) @ general_string 6 c k)"
| "format_g (Some n) (FFin s m e) =
     (case round_digits n m e of (c, k) \<Rightarrow>
        let nd = length (nat_digits c); dp = int nd + k;
            eprec = (if n > nd \<and> int nd \<ge> dp then nd else n)
        in (if s then ''-'' else []) @ general_string eprec c k)"

end
