(* ===== verification/Display.thy ===== *)
theory Display
  imports Go_Format Go_Time
begin

text \<open>
  \<open>internal/domain/format.go\<close>: rendering sample values for people. The conversion
  \<open>int64(n)\<close> of a float that is not in range is left to the implementation by Go: it is the
  least int64 here, as on amd64.
\<close>

definition is_bytes :: "string \<Rightarrow> bool" where
  "is_bytes unit \<longleftrightarrow> unit = ''By'' \<or> unit = ''Bytes''"

definition truncate_int :: "bool \<Rightarrow> nat \<Rightarrow> int \<Rightarrow> int" where
  "truncate_int s m e = (case fin_ratio m e of (a, b) \<Rightarrow> sign_int s (a div b))"

fun int64_of_float :: "float64 \<Rightarrow> int" where
  "int64_of_float (FFin s m e) =
     (let i = truncate_int s m e in if min_duration \<le> i \<and> i \<le> max_duration then i else min_duration)"
| "int64_of_float _ = min_duration"

definition float_of_int :: "int \<Rightarrow> float64" where
  "float_of_int i = round_ratio (i < 0) (nat \<bar>i\<bar>) 1"

definition f64_eq :: "float64 \<Rightarrow> float64 \<Rightarrow> bool" where
  "f64_eq x y \<longleftrightarrow> f64_le x y \<and> f64_le y x"

fun f64_abs :: "float64 \<Rightarrow> float64" where
  \<comment> \<open>\<open>if abs < 0 { abs = -abs }\<close>: a negative zero stays\<close>
  "f64_abs (FFin s m e) = (if s \<and> m \<noteq> 0 then FFin False m e else FFin s m e)"
| "f64_abs (FInf s) = FInf False"
| "f64_abs FNaN = FNaN"

fun f64_kilo :: "float64 \<Rightarrow> float64" where
  \<comment> \<open>division by 1024\<close>
  "f64_kilo (FFin s m e) = (case fin_ratio m e of (a, b) \<Rightarrow> round_ratio s a (b * 1024))"
| "f64_kilo f = f"

definition byte_units :: "string list" where
  "byte_units = [''KB'', ''MB'', ''GB'', ''TB'']"

definition kilo :: float64 where "kilo = float_of_int 1024"
definition minus_kilo :: float64 where "minus_kilo = float_of_int (- 1024)"

fun bytes_loop :: "float64 \<Rightarrow> string list \<Rightarrow> float64 \<times> string" where
  \<comment> \<open>the value scaled and its unit: \<open>units[i]\<close> is the head of the list\<close>
  "bytes_loop v [] = (v, [])"
| "bytes_loop v [u] = (v, u)"
| "bytes_loop v (u # u' # us) =
     (if f64_le kilo v \<or> f64_le v minus_kilo then bytes_loop (f64_kilo v) (u' # us) else (v, u))"

definition bytes_string :: "float64 \<Rightarrow> string" where
  "bytes_string n =
     (if f64_less (f64_abs n) kilo then format_fixed 0 n @ '' B''
      else case bytes_loop (f64_kilo n) byte_units of (v, u) \<Rightarrow> format_fixed 1 v @ '' '' @ u)"

definition display :: "string \<Rightarrow> string \<Rightarrow> string" where
  "display value unit =
     (let plain = (\<lambda>value. if unit = [] \<or> unit = ''1'' then value else value @ '' '' @ unit) in
      case parse_float value of
        None \<Rightarrow> plain value
      | Some n \<Rightarrow>
          if is_bytes unit then bytes_string n
          else if \<not> f64_eq n (float_of_int (int64_of_float n)) then plain (format_g (Some 4) n)
          else plain value)"

section \<open>Properties\<close>

lemma bytes_loop_unit:
  assumes "us \<noteq> []" and "bytes_loop v us = (w, u)"
  shows "u \<in> set us \<and> (u = last us \<or> \<not> f64_le kilo w \<and> \<not> f64_le w minus_kilo)"
  using assms by (induction v us rule: bytes_loop.induct) (auto split: if_splits)

text \<open>
  \<open>Bytes\<close> picks the unit by size: it prints whole bytes below 1024 in magnitude, and
  otherwise a value with one decimal whose magnitude before rounding is below 1024, unless the unit
  is already TB. Not-a-number ends up in KB.
\<close>

theorem bytes_unit_by_size:
  "bytes_string n = format_fixed 0 n @ '' B'' \<and> f64_less (f64_abs n) kilo \<or>
   (\<exists>v u. bytes_string n = format_fixed 1 v @ '' '' @ u \<and> u \<in> set [''KB'', ''MB'', ''GB'', ''TB''] \<and>
     \<not> (u \<noteq> ''TB'' \<and> (f64_le kilo v \<or> f64_le v minus_kilo)))"
proof (cases "f64_less (f64_abs n) kilo")
  case True
  then show ?thesis by (simp add: bytes_string_def)
next
  case False
  obtain v u where vu: "bytes_loop (f64_kilo n) byte_units = (v, u)" by (cases "bytes_loop (f64_kilo n) byte_units")
  then have "u \<in> set byte_units \<and> (u = last byte_units \<or> \<not> f64_le kilo v \<and> \<not> f64_le v minus_kilo)"
    by (intro bytes_loop_unit) (simp_all add: byte_units_def)
  then show ?thesis using False vu by (auto simp: bytes_string_def byte_units_def)
qed

end
