(* ===== verification/Slack.thy ===== *)
theory Slack
  imports Alerter Display Go_Duration
begin

text \<open>
  \<open>internal/adapter/slack/slack.go\<close>: delivering notifications. The state is the map of open
  alerts (rule key to the notification that fired and the time stamp of its message) beside the
  state of the outside world. What the code calls is a record of parameters: one HTTP exchange, the
  JSON encoder for string maps, the decoders of the two reply shapes, and the rendering of a time in
  the notifier's location.
\<close>

section \<open>The outside\<close>

record slack_request =
  sr_url :: string
  sr_ctype :: string
  sr_auth :: string     \<comment> \<open>the \<open>Authorization\<close> header, empty if not set\<close>
  sr_body :: string

record slack_reply =
  rp_status :: nat
  rp_body :: string
  rp_broken :: "string option"

record 'w slack_env =
  se_send :: "slack_request \<Rightarrow> 'w \<Rightarrow> (string + slack_reply) \<times> 'w"
  se_json :: "(string \<times> string) list \<Rightarrow> string"
  se_status :: "string \<Rightarrow> string + bool \<times> string"
  se_ts :: "string \<Rightarrow> string + string"
  se_time :: "time \<Rightarrow> string"
  se_api_base :: string

datatype slack_error =
    NoDestination string
  | Transport string
  | WebhookReturned nat string
  | ApiReturned string nat string
  | ApiFailed string string
  | BadReply string

section \<open>Messages\<close>

definition slack_threshold :: "rule \<Rightarrow> string \<Rightarrow> string" where
  "slack_threshold r unit =
     (if is_bytes unit then bytes_string (rl_threshold r) else format_float (rl_threshold r))"

definition rule_path :: "rule \<Rightarrow> string" where
  "rule_path r = path_string (stream_path (rl_stream r))"

definition newline :: string where "newline = [CHR 0x0A]"

definition check_mark :: string where "check_mark = '':white_check_mark: ''"
definition rotating_light :: string where "rotating_light = '':rotating_light: ''"

definition alert_text :: "(time \<Rightarrow> string) \<Rightarrow> notification \<Rightarrow> string" where
  "alert_text at_loc nt =
     (let r = ntf_rule nt; value = display (ntf_value nt) (ntf_unit nt); at = at_loc (ntf_time nt);
          path = rule_path r in
      if rl_op r = OpAbsent then
        if ntf_event nt = Resolved then
          check_mark @ ''RESOLVED:'' @ path @ '' is reporting again'' @ newline @
          ''latest: '' @ value @ '' at ['' @ at @ '']''
        else
          rotating_light @ ''ALERT:'' @ path @ '' has had no samples for '' @ duration_string (rl_for r) @ newline @
          ''checked at ['' @ at @ '']''
      else if ntf_event nt = Resolved then
        check_mark @ ''RESOLVED:'' @ path @ '' is no longer '' @ op_string (rl_op r) @ '' '' @
        slack_threshold r (ntf_unit nt) @ newline @ ''latest: '' @ value @ '' at ['' @ at @ '']''
      else
        rotating_light @ ''ALERT:'' @ path @ '' has been '' @ op_string (rl_op r) @ '' '' @
        slack_threshold r (ntf_unit nt) @ '' for '' @ duration_string (rl_for r) @ newline @
        ''latest: '' @ value @ '' at ['' @ at @ '']'')"

definition resolved_text :: "(time \<Rightarrow> string) \<Rightarrow> notification \<Rightarrow> notification \<Rightarrow> string" where
  "resolved_text at_loc fired resolved =
     (let r = ntf_rule fired; path = rule_path r;
          detected_at = at_loc (ntf_time fired); resolved_at = at_loc (ntf_time resolved);
          latest = display (ntf_value resolved) (ntf_unit resolved) in
      if rl_op r = OpAbsent then
        check_mark @ ''RESOLVED:'' @ path @ '' is reporting again'' @ newline @
        ''ALERT:'' @ path @ '' had no samples for '' @ duration_string (rl_for r) @ newline @
        ''detected at ['' @ detected_at @ '']'' @ newline @
        ''resolved: '' @ latest @ '' at ['' @ resolved_at @ '']''
      else
        let th = slack_threshold r (ntf_unit fired) in
        check_mark @ ''RESOLVED:'' @ path @ '' is no longer '' @ op_string (rl_op r) @ '' '' @ th @ newline @
        ''ALERT:'' @ path @ '' was '' @ op_string (rl_op r) @ '' '' @ th @ '' for '' @ duration_string (rl_for r) @ newline @
        ''detected: '' @ display (ntf_value fired) (ntf_unit fired) @ '' at ['' @ detected_at @ '']'' @ newline @
        ''resolved: '' @ latest @ '' at ['' @ resolved_at @ '']'')"

definition rule_key :: "rule \<Rightarrow> string" where
  "rule_key r = rule_path r @ ''|'' @ op_string (rl_op r) @ ''|'' @ format_g None (rl_threshold r) @ ''|'' @ rl_channel r"

section \<open>The notifier\<close>

record destination =
  dst_webhook :: string
  dst_token :: string
  dst_channel_id :: string

record posted =
  psd_fired :: notification
  psd_ts :: string

record slack =
  sl_dests :: "string \<rightharpoonup> destination"
  sl_open :: "string \<rightharpoonup> posted"

definition new_slack :: "(string \<rightharpoonup> destination) \<Rightarrow> slack" where
  "new_slack dests = \<lparr>sl_dests = dests, sl_open = Map.empty\<rparr>"

definition read_reply :: "nat \<Rightarrow> slack_reply \<Rightarrow> string \<times> string option" where
  \<comment> \<open>\<open>io.ReadAll(io.LimitReader(body, limit))\<close>: what was read, and the error if one came first\<close>
  "read_reply limit rp =
     (take limit (rp_body rp), if length (rp_body rp) < limit then rp_broken rp else None)"

definition slack_api :: "'w slack_env \<Rightarrow> destination \<Rightarrow> string \<Rightarrow> (string \<times> string) list \<Rightarrow> 'w \<Rightarrow> (slack_error + string) \<times> 'w" where
  \<comment> \<open>the raw reply of a successful call\<close>
  "slack_api env dest meth params w =
     (case se_send env \<lparr>sr_url = se_api_base env @ ''/'' @ meth, sr_ctype = ''application/json; charset=utf-8'',
         sr_auth = ''Bearer '' @ dst_token dest, sr_body = se_json env params\<rparr> w of
        (Inl e, w) \<Rightarrow> (Inl (Transport e), w)
      | (Inr rp, w) \<Rightarrow>
          (case read_reply (2 ^ 16) rp of
             (raw, Some e) \<Rightarrow> (Inl (Transport e), w)
           | (raw, None) \<Rightarrow>
               (case se_status env raw of
                  Inl e \<Rightarrow> (Inl (ApiReturned meth (rp_status rp) (trim_space raw)), w)
                | Inr (ok, err) \<Rightarrow>
                    if rp_status rp div 100 \<noteq> 2 then
                      (Inl (ApiReturned meth (rp_status rp) (trim_space raw)), w)
                    else if \<not> ok then (Inl (ApiFailed meth err), w)
                    else (Inr raw, w))))"

definition slack_post :: "'w slack_env \<Rightarrow> destination \<Rightarrow> string \<Rightarrow> 'w \<Rightarrow> (slack_error + string) \<times> 'w" where
  \<comment> \<open>the time stamp of the message\<close>
  "slack_post env dest text w =
     (if dst_token dest \<noteq> [] then
        (case slack_api env dest ''chat.postMessage'' [(''channel'', dst_channel_id dest), (''text'', text)] w of
           (Inl e, w) \<Rightarrow> (Inl e, w)
         | (Inr raw, w) \<Rightarrow>
             (case se_ts env raw of Inl e \<Rightarrow> (Inl (BadReply e), w) | Inr ts \<Rightarrow> (Inr ts, w)))
      else
        (case se_send env \<lparr>sr_url = dst_webhook dest, sr_ctype = ''application/json'', sr_auth = [],
            sr_body = se_json env [(''text'', text)]\<rparr> w of
           (Inl e, w) \<Rightarrow> (Inl (Transport e), w)
         | (Inr rp, w) \<Rightarrow>
             if rp_status rp div 100 \<noteq> 2 then
               (Inl (WebhookReturned (rp_status rp) (trim_space (fst (read_reply 256 rp)))), w)
             else (Inr [], w)))"

definition slack_update :: "'w slack_env \<Rightarrow> destination \<Rightarrow> string \<Rightarrow> string \<Rightarrow> 'w \<Rightarrow> slack_error option \<times> 'w" where
  "slack_update env dest ts text w =
     (case slack_api env dest ''chat.update''
         [(''channel'', dst_channel_id dest), (''text'', text), (''ts'', ts)] w of
        (Inl e, w) \<Rightarrow> (Some e, w)
      | (Inr raw, w) \<Rightarrow> (None, w))"

definition post_only :: "(slack_error + string) \<times> 'w \<Rightarrow> slack_error option \<times> 'w" where
  "post_only r = (case r of (Inl e, w) \<Rightarrow> (Some e, w) | (Inr ts, w) \<Rightarrow> (None, w))"

definition slack_notify :: "'w slack_env \<Rightarrow> notification \<Rightarrow> slack \<times> 'w \<Rightarrow> slack_error option \<times> slack \<times> 'w" where
  "slack_notify env nt sw =
     (case sw of (s, w) \<Rightarrow>
      (case sl_dests s (rl_channel (ntf_rule nt)) of
         None \<Rightarrow> (Some (NoDestination (rl_channel (ntf_rule nt))), s, w)
       | Some dest \<Rightarrow>
           let key = rule_key (ntf_rule nt) in
           if ntf_event nt \<noteq> Resolved then
             (case slack_post env dest (alert_text (se_time env) nt) w of
                (Inl e, w) \<Rightarrow> (Some e, s, w)
              | (Inr ts, w) \<Rightarrow>
                  (None, s\<lparr>sl_open := (sl_open s)(key \<mapsto> \<lparr>psd_fired = nt, psd_ts = ts\<rparr>)\<rparr>, w))
           else
             let prev = sl_open s key; s = s\<lparr>sl_open := (sl_open s)(key := None)\<rparr> in
             (case prev of
                None \<Rightarrow>
                  (case post_only (slack_post env dest (alert_text (se_time env) nt) w) of (err, w) \<Rightarrow> (err, s, w))
              | Some p \<Rightarrow>
                  let text = resolved_text (se_time env) (psd_fired p) nt in
                  if psd_ts p \<noteq> [] \<and> dst_token dest \<noteq> [] then
                    (case slack_update env dest (psd_ts p) text w of (err, w) \<Rightarrow> (err, s, w))
                  else
                    (case post_only (slack_post env dest text w) of (err, w) \<Rightarrow> (err, s, w)))))"

section \<open>The open alerts\<close>

definition slack_inv :: "slack \<Rightarrow> bool" where
  \<comment> \<open>an open alert is remembered under its own rule's key, and was not a resolution\<close>
  "slack_inv s \<longleftrightarrow> (\<forall>k p. sl_open s k = Some p \<longrightarrow>
     k = rule_key (ntf_rule (psd_fired p)) \<and> ntf_event (psd_fired p) \<noteq> Resolved)"

lemma slack_inv_new: "slack_inv (new_slack dests)"
  by (simp add: slack_inv_def new_slack_def)

text \<open>What a notification does to the open alerts, whatever the outside answers.\<close>

lemma slack_notify_open:
  "fst (snd (slack_notify env nt (s, w))) = s \<or>
   ntf_event nt = Resolved \<and>
     fst (snd (slack_notify env nt (s, w))) = s\<lparr>sl_open := (sl_open s)(rule_key (ntf_rule nt) := None)\<rparr> \<or>
   ntf_event nt \<noteq> Resolved \<and> (\<exists>ts. fst (snd (slack_notify env nt (s, w))) =
     s\<lparr>sl_open := (sl_open s)(rule_key (ntf_rule nt) \<mapsto> \<lparr>psd_fired = nt, psd_ts = ts\<rparr>)\<rparr>)"
  by (auto simp: slack_notify_def Let_def split: option.splits prod.splits sum.splits)

lemma slack_notify_inv: "slack_inv s \<Longrightarrow> slack_inv (fst (snd (slack_notify env nt (s, w))))"
  using slack_notify_open [of env nt s w] by (auto simp: slack_inv_def split: if_splits)

lemma slack_notify_dests [simp]: "sl_dests (fst (snd (slack_notify env nt (s, w)))) = sl_dests s"
  using slack_notify_open [of env nt s w] by auto

lemma slack_api_error: "fst (slack_api env d m ps w) \<noteq> Inl (NoDestination ch)"
  by (auto simp: slack_api_def split: prod.splits sum.splits option.splits)

lemma slack_post_error: "fst (slack_post env d text w) \<noteq> Inl (NoDestination ch)"
  using slack_api_error [of env d "''chat.postMessage''" "[(''channel'', dst_channel_id d), (''text'', text)]" w ch]
  by (auto simp: slack_post_def split: prod.splits sum.splits)

lemma post_only_error: "fst r \<noteq> Inl e \<Longrightarrow> fst (post_only r) \<noteq> Some e"
  by (auto simp: post_only_def split: prod.splits sum.splits)

lemma slack_update_error: "fst (slack_update env d ts text w) \<noteq> Some (NoDestination ch)"
  using slack_api_error [of env d "''chat.update''" "[(''channel'', dst_channel_id d), (''text'', text), (''ts'', ts)]" w ch]
  by (auto simp: slack_update_def split: prod.splits sum.splits)

lemma slack_notify_error:
  assumes "sl_dests s (rl_channel (ntf_rule nt)) = Some d"
  shows "fst (slack_notify env nt (s, w)) \<noteq> Some (NoDestination ch)"
proof (cases "ntf_event nt = Resolved")
  case True
  have "fst (post_only (slack_post env d msg w)) \<noteq> Some (NoDestination ch)" for msg
    by (intro post_only_error slack_post_error)
  moreover have "fst (slack_update env d ts msg w) \<noteq> Some (NoDestination ch)" for ts msg
    by (rule slack_update_error)
  ultimately show ?thesis
    using True assms by (simp add: slack_notify_def Let_def case_prod_beta split: option.split)
next
  case False
  then show ?thesis
    using assms slack_post_error [of env d "alert_text (se_time env) nt" w ch]
    by (auto simp: slack_notify_def Let_def split: prod.split sum.split)
qed

lemma slack_notify_other:
  "rule_key (ntf_rule nt) \<noteq> k \<Longrightarrow> sl_open (fst (snd (slack_notify env nt (s, w)))) k = sl_open s k"
  using slack_notify_open [of env nt s w] by auto

text \<open>A notifier in the sense of the alerter: it always returns.\<close>

definition slack_channel :: "'w slack_env \<Rightarrow> (slack_error, slack \<times> 'w) notify" where
  "slack_channel env nt sw = Some (slack_notify env nt sw)"

interpretation slack_channel: notifier "slack_channel env" "\<lambda>sw. slack_inv (fst sw)"
proof unfold_locales
  fix sw :: "slack \<times> 'a" and nt
  assume "slack_inv (fst sw)"
  then show "\<exists>err sw'. slack_channel env nt sw = Some (err, sw') \<and> slack_inv (fst sw')"
    using slack_notify_inv [of "fst sw" env nt "snd sw"]
    by (cases "slack_notify env nt sw") (auto simp: slack_channel_def)
qed

fun slack_run :: "'w slack_env \<Rightarrow> notification list \<Rightarrow> slack \<times> 'w \<Rightarrow> slack \<times> 'w" where
  "slack_run env [] sw = sw"
| "slack_run env (nt # nts) sw = slack_run env nts (snd (slack_notify env nt sw))"

lemma slack_run_inv: "slack_inv (fst sw) \<Longrightarrow> slack_inv (fst (slack_run env nts sw))"
proof (induction nts arbitrary: sw)
  case (Cons nt nts)
  then show ?case using slack_notify_inv [of "fst sw" env nt "snd sw"] by simp
qed simp

lemma slack_run_frame:
  assumes "\<And>nt. nt \<in> set nts \<Longrightarrow> rule_key (ntf_rule nt) \<noteq> k"
  shows "sl_open (fst (slack_run env nts sw)) k = sl_open (fst sw) k \<and>
    sl_dests (fst (slack_run env nts sw)) = sl_dests (fst sw)"
  using assms
proof (induction nts arbitrary: sw)
  case Nil
  then show ?case by simp
next
  case (Cons nt nts)
  obtain s w where sw: "sw = (s, w)" by (cases sw)
  have "sl_open (fst (snd (slack_notify env nt (s, w)))) k = sl_open s k"
    using Cons.prems by (intro slack_notify_other) auto
  moreover have "\<And>nt'. nt' \<in> set nts \<Longrightarrow> rule_key (ntf_rule nt') \<noteq> k" using Cons.prems by auto
  ultimately show ?case using Cons.IH [of "snd (slack_notify env nt (s, w))"] by (simp add: sw)
qed

lemma slack_fired:
  assumes "ntf_event f \<noteq> Resolved" and "sl_dests s (rl_channel (ntf_rule f)) = Some dest"
    and "slack_post env dest (alert_text (se_time env) f) w = (Inr ts, w1)"
  shows "slack_notify env f (s, w) =
    (None, s\<lparr>sl_open := (sl_open s)(rule_key (ntf_rule f) \<mapsto> \<lparr>psd_fired = f, psd_ts = ts\<rparr>)\<rparr>, w1)"
  using assms by (simp add: slack_notify_def Let_def)

lemma slack_resolved:
  assumes "ntf_event n = Resolved" and "sl_dests s (rl_channel (ntf_rule n)) = Some dest"
    and "dst_token dest \<noteq> []" and "sl_open s (rule_key (ntf_rule n)) = Some \<lparr>psd_fired = f, psd_ts = ts\<rparr>"
    and "ts \<noteq> []"
  shows "slack_notify env n (s, w) =
    (fst (slack_update env dest ts (resolved_text (se_time env) f n) w),
     s\<lparr>sl_open := (sl_open s)(rule_key (ntf_rule n) := None)\<rparr>,
     snd (slack_update env dest ts (resolved_text (se_time env) f n) w))"
  using assms by (simp add: slack_notify_def Let_def case_prod_beta)

lemma rule_key_for: "rule_key (r\<lparr>rl_for := d\<rparr>) = rule_key r"
  by (simp add: rule_key_def rule_path_def)

section \<open>The shape of messages\<close>

lemma resolved_text_lines:
  "\<exists>l1 l2. resolved_text at_loc fired nt =
    '':white_check_mark: RESOLVED:'' @ rule_path (ntf_rule fired) @ l1 @ newline @
    ''ALERT:'' @ rule_path (ntf_rule fired) @ l2"
proof (cases "rl_op (ntf_rule fired) = OpAbsent")
  case True
  show ?thesis
    by (intro exI [of _ "'' is reporting again''"]
        exI [of _ "'' had no samples for '' @ duration_string (rl_for (ntf_rule fired)) @ newline @
          ''detected at ['' @ at_loc (ntf_time fired) @ '']'' @ newline @ ''resolved: '' @
          display (ntf_value nt) (ntf_unit nt) @ '' at ['' @ at_loc (ntf_time nt) @ '']''"])
      (simp add: resolved_text_def Let_def check_mark_def True)
next
  case False
  let ?op = "op_string (rl_op (ntf_rule fired))" and ?th = "slack_threshold (ntf_rule fired) (ntf_unit fired)"
  show ?thesis
    by (intro exI [of _ "'' is no longer '' @ ?op @ '' '' @ ?th"]
        exI [of _ "'' was '' @ ?op @ '' '' @ ?th @ '' for '' @ duration_string (rl_for (ntf_rule fired)) @ newline @
          ''detected: '' @ display (ntf_value fired) (ntf_unit fired) @ '' at ['' @ at_loc (ntf_time fired) @ '']'' @
          newline @ ''resolved: '' @ display (ntf_value nt) (ntf_unit nt) @ '' at ['' @ at_loc (ntf_time nt) @ '']''"])
      (simp add: resolved_text_def Let_def check_mark_def False)
qed

lemma alert_text_prefix:
  "has_prefix (alert_text at_loc nt)
    ((if ntf_event nt = Resolved then '':white_check_mark: RESOLVED:'' else '':rotating_light: ALERT:'') @
      rule_path (ntf_rule nt))"
  by (simp add: alert_text_def Let_def check_mark_def rotating_light_def has_prefix_iff)

section \<open>A Slack that accepts everything\<close>

text \<open>The outside of the witnesses: it keeps the requests, and answers with the last digit of their number.\<close>

definition demo_env :: "slack_request list slack_env" where
  "demo_env = \<lparr>
     se_send = (\<lambda>rq w. (Inr \<lparr>rp_status = 200, rp_body = [digit_char (Suc (length w) mod 10)], rp_broken = None\<rparr>, w @ [rq])),
     se_json = (\<lambda>kvs. concat (map (\<lambda>(k, v). k @ ''='' @ v @ '';'') kvs)),
     se_status = (\<lambda>raw. Inr (True, [])),
     se_ts = Inr,
     se_time = (\<lambda>t. nat_digits (nat t)),
     se_api_base = ''api''\<rparr>"

definition demo_dest :: destination where
  "demo_dest = \<lparr>dst_webhook = [], dst_token = ''xoxb'', dst_channel_id = ''C1''\<rparr>"

definition demo_slack :: slack where
  "demo_slack = new_slack [''ops'' \<mapsto> demo_dest]"

definition demo_note :: "rule \<Rightarrow> event \<Rightarrow> time \<Rightarrow> notification" where
  "demo_note r e t = \<lparr>ntf_rule = r, ntf_event = e, ntf_time = t, ntf_value = ''101'', ntf_unit = []\<rparr>"

lemma demo_post:
  "slack_post demo_env demo_dest text w =
    (Inr [digit_char (Suc (length w) mod 10)],
     w @ [\<lparr>sr_url = ''api/chat.postMessage'', sr_ctype = ''application/json; charset=utf-8'',
       sr_auth = ''Bearer xoxb'', sr_body = ''channel=C1;text='' @ text @ '';''\<rparr>])"
  by (simp add: slack_post_def slack_api_def demo_env_def demo_dest_def read_reply_def)

lemma demo_update:
  "slack_update demo_env demo_dest ts text w =
    (None,
     w @ [\<lparr>sr_url = ''api/chat.update'', sr_ctype = ''application/json; charset=utf-8'',
       sr_auth = ''Bearer xoxb'', sr_body = ''channel=C1;text='' @ text @ '';ts='' @ ts @ '';''\<rparr>])"
  by (simp add: slack_update_def slack_api_def demo_env_def demo_dest_def read_reply_def)

lemma demo_digits [simp]: "digit_char (Suc 0) = CHR ''1''" "digit_char (Suc (Suc 0)) = CHR ''2''" "digit_char 2 = CHR ''2''"
  by code_simp+

lemma demo_slack_dests: "sl_dests demo_slack ''ops'' = Some demo_dest"
  by (simp add: demo_slack_def new_slack_def)

lemma demo_note_fields [simp]:
  "ntf_rule (demo_note r e t) = r" "ntf_event (demo_note r e t) = e" "ntf_time (demo_note r e t) = t"
  by (simp_all add: demo_note_def)

lemma demo_rule_channel [simp]: "rl_channel (demo_rule o') = ''ops''"
  by (simp add: demo_rule_def)

lemma demo_env_time [simp]: "se_time demo_env = (\<lambda>t. nat_digits (nat t))"
  by (simp add: demo_env_def)

section \<open>Properties\<close>

text \<open>
  C21: A resolution edits its own alert: when an alert was posted with a bot token, any
  notifications for other rule keys followed, and then the rule resolves, the notifier makes one
  \<open>chat.update\<close> call with the time stamp of that alert's message and a text that quotes that
  alert, and forgets the alert.
\<close>

theorem resolution_edits_its_alert:
  assumes "ntf_event f \<noteq> Resolved" and "ntf_event n = Resolved" and "ntf_rule n = ntf_rule f"
    and "sl_dests s (rl_channel (ntf_rule f)) = Some dest" and "dst_token dest \<noteq> []"
    and "slack_post env dest (alert_text (se_time env) f) w = (Inr ts, w1)" and "ts \<noteq> []"
    and "\<And>nt. nt \<in> set others \<Longrightarrow> rule_key (ntf_rule nt) \<noteq> rule_key (ntf_rule f)"
    and "slack_run env (f # others) (s, w) = (s2, w2)"
  shows "slack_notify env n (s2, w2) =
    (fst (slack_update env dest ts (resolved_text (se_time env) f n) w2),
     s2\<lparr>sl_open := (sl_open s2)(rule_key (ntf_rule f) := None)\<rparr>,
     snd (slack_update env dest ts (resolved_text (se_time env) f n) w2))"
proof -
  let ?s1 = "s\<lparr>sl_open := (sl_open s)(rule_key (ntf_rule f) \<mapsto> \<lparr>psd_fired = f, psd_ts = ts\<rparr>)\<rparr>"
  have "slack_run env others (?s1, w1) = (s2, w2)"
    using assms(9) slack_fired [OF assms(1,4,6)] by simp
  then have "sl_open s2 (rule_key (ntf_rule f)) = Some \<lparr>psd_fired = f, psd_ts = ts\<rparr>" "sl_dests s2 = sl_dests s"
    using slack_run_frame [OF assms(8), of others env "(?s1, w1)"] by auto
  then show ?thesis
    using assms(4) slack_resolved [OF assms(2) _ assms(5) _ assms(7), where s = s2 and f = f and w = w2]
    by (simp add: assms(3))
qed

theorem resolution_edits_its_alert_witness:
  "\<exists>s2 w2. slack_notify demo_env (demo_note (demo_rule OpGreater) Resolved 9) (s2, w2) =
    (None, s2\<lparr>sl_open := (sl_open s2)(rule_key (demo_rule OpGreater) := None)\<rparr>,
     w2 @ [\<lparr>sr_url = ''api/chat.update'', sr_ctype = ''application/json; charset=utf-8'',
       sr_auth = ''Bearer xoxb'', sr_body = ''channel=C1;text='' @
         resolved_text (\<lambda>t. nat_digits (nat t)) (demo_note (demo_rule OpGreater) Fired 5)
           (demo_note (demo_rule OpGreater) Resolved 9) @ '';ts=1;''\<rparr>])"
proof -
  let ?f = "demo_note (demo_rule OpGreater) Fired 5" and ?n = "demo_note (demo_rule OpGreater) Resolved 9"
  obtain s2 w2 where run: "slack_run demo_env [?f] (demo_slack, []) = (s2, w2)"
    by (cases "slack_run demo_env [?f] (demo_slack, [])")
  have token: "dst_token demo_dest \<noteq> []" by (simp add: demo_dest_def)
  have ts: "[digit_char (Suc (length ([] :: slack_request list)) mod 10)] = ''1''" by simp
  show ?thesis
    using resolution_edits_its_alert [of ?f ?n demo_slack demo_dest demo_env "[]", OF _ _ _ _ token demo_post, of "[]", simplified ts]
      run demo_slack_dests demo_update
    by auto
qed

text \<open>
  The key under which an open alert is remembered leaves the duration of the rule out. Of two
  rules that differ in nothing but their duration (a warning after one minute and a critical alert
  after five, say), the alert that fires second displaces the first: when the first rule resolves,
  its resolution is written into the message of the second alert and quotes the second rule.
\<close>

theorem rules_differing_in_duration_share_an_alert:
  assumes "ntf_event f1 \<noteq> Resolved" and "ntf_event f2 \<noteq> Resolved" and "ntf_event n = Resolved"
    and "ntf_rule f2 = (ntf_rule f1)\<lparr>rl_for := d\<rparr>" and "ntf_rule n = ntf_rule f1"
    and "sl_dests s (rl_channel (ntf_rule f1)) = Some dest" and "dst_token dest \<noteq> []"
    and "slack_post env dest (alert_text (se_time env) f1) w = (Inr ts1, w1)"
    and "slack_post env dest (alert_text (se_time env) f2) w1 = (Inr ts2, w2)" and "ts2 \<noteq> []"
    and "slack_run env [f1, f2] (s, w) = (s2, w2)"
  shows "fst (slack_notify env n (s2, w2)) = fst (slack_update env dest ts2 (resolved_text (se_time env) f2 n) w2) \<and>
    snd (snd (slack_notify env n (s2, w2))) = snd (slack_update env dest ts2 (resolved_text (se_time env) f2 n) w2)"
proof -
  let ?s1 = "s\<lparr>sl_open := (sl_open s)(rule_key (ntf_rule f1) \<mapsto> \<lparr>psd_fired = f1, psd_ts = ts1\<rparr>)\<rparr>"
  have "slack_run env [f2] (?s1, w1) = (s2, w2)"
    using assms(11) slack_fired [OF assms(1,6,8)] by simp
  moreover have "sl_dests ?s1 (rl_channel (ntf_rule f2)) = Some dest" using assms(4,6) by simp
  ultimately have "s2 = ?s1\<lparr>sl_open := (sl_open ?s1)(rule_key (ntf_rule f1) \<mapsto> \<lparr>psd_fired = f2, psd_ts = ts2\<rparr>)\<rparr>"
    using slack_fired [OF assms(2) _ assms(9)] by (simp add: assms(4) rule_key_for)
  then show ?thesis
    using assms(6) slack_resolved [OF assms(3) _ assms(7) _ assms(10), where s = s2 and f = f2 and w = w2]
    by (simp add: assms(5))
qed

theorem rules_differing_in_duration_share_an_alert_witness:
  "\<exists>s2 w2. snd (snd (slack_notify demo_env (demo_note (demo_rule OpGreater) Resolved 9) (s2, w2))) =
     w2 @ [\<lparr>sr_url = ''api/chat.update'', sr_ctype = ''application/json; charset=utf-8'',
       sr_auth = ''Bearer xoxb'', sr_body = ''channel=C1;text='' @
         resolved_text (\<lambda>t. nat_digits (nat t)) (demo_note ((demo_rule OpGreater)\<lparr>rl_for := seconds 300\<rparr>) Fired 6)
           (demo_note (demo_rule OpGreater) Resolved 9) @ '';ts=2;''\<rparr>]"
proof -
  let ?f1 = "demo_note (demo_rule OpGreater) Fired 5" and ?n = "demo_note (demo_rule OpGreater) Resolved 9"
  let ?f2 = "demo_note ((demo_rule OpGreater)\<lparr>rl_for := seconds 300\<rparr>) Fired 6"
  obtain w1 where w1: "slack_post demo_env demo_dest (alert_text (se_time demo_env) ?f1) [] = (Inr ''1'', w1)" "length w1 = 1"
    using demo_post [of "alert_text (se_time demo_env) ?f1" "[]"] by simp
  obtain w2 where w2: "slack_post demo_env demo_dest (alert_text (se_time demo_env) ?f2) w1 = (Inr ''2'', w2)"
    using demo_post [of "alert_text (se_time demo_env) ?f2" w1] w1(2) by simp
  have dest: "sl_dests demo_slack (rl_channel (ntf_rule ?f1)) = Some demo_dest" using demo_slack_dests by simp
  have token: "dst_token demo_dest \<noteq> []" by (simp add: demo_dest_def)
  obtain s2 where run: "slack_run demo_env [?f1, ?f2] (demo_slack, []) = (s2, w2)"
    using slack_fired [OF _ dest w1(1)] slack_fired [OF _ _ w2] dest by simp
  show ?thesis
    using rules_differing_in_duration_share_an_alert [OF _ _ _ _ _ dest token w1(1) w2 _ run, of ?n] demo_update
    by auto
qed

text \<open>
  A fresh message starts with the icon and the word that fit the event, \<open>ALERT:\<close> or
  \<open>RESOLVED:\<close>, followed by the path of the watched stream; the text of a known alert's
  resolution starts with \<open>RESOLVED:\<close> and has the \<open>ALERT:\<close> line second.
\<close>

theorem messages_start_with_keyword:
  "has_prefix (alert_text at_loc nt)
     ((if ntf_event nt = Resolved then '':white_check_mark: RESOLVED:'' else '':rotating_light: ALERT:'') @
       rule_path (ntf_rule nt)) \<and>
   (\<exists>l1 l2. resolved_text at_loc fired nt =
     '':white_check_mark: RESOLVED:'' @ rule_path (ntf_rule fired) @ l1 @ newline @
     ''ALERT:'' @ rule_path (ntf_rule fired) @ l2)"
  using resolved_text_lines [of at_loc fired nt] alert_text_prefix [of at_loc nt] by (intro conjI)

text \<open>
  Whatever notifications were delivered or failed, the notifier remembers only alerts, never
  resolutions, each under the key of its own rule.
\<close>

theorem remembers_only_open_alerts:
  "list_all (\<lambda>k. case sl_open (fst (slack_run env nts (new_slack dests, w))) k of
     None \<Rightarrow> True
   | Some p \<Rightarrow> k = rule_key (ntf_rule (psd_fired p)) \<and> ntf_event (psd_fired p) \<noteq> Resolved) keys"
proof -
  have "slack_inv (fst (slack_run env nts (new_slack dests, w)))"
    by (rule slack_run_inv) (simp add: slack_inv_new)
  then show ?thesis unfolding list_all_iff slack_inv_def by (simp split: option.split)
qed

end
