(* ===== verification/Grpcapi.thy ===== *)
theory Grpcapi
  imports Alerter Browse
begin

text \<open>
  \<open>internal/adapter/grpcapi/grpcapi.go\<close>: the gRPC face of the system of record. The messages
  are the ones of the generated \<open>sor.pb.go\<close>; what the protobuf library makes of a time and a
  duration is a parameter (\<open>pb_wire\<close>). \<open>Watch\<close> runs against the live feed: one turn of
  its loop is a function of the case \<open>select\<close> picks, and \<open>watch_run\<close> says how the turns of
  one call interleave with everything else that happens to the feed.
\<close>

section \<open>Messages\<close>

record pb_entry =
  pe_name :: string
  pe_dir :: bool

record 'ts pb_sample =
  ps_time :: 'ts
  ps_value :: string
  ps_unit :: string

record 'dur pb_rule =
  pr_path :: string
  pr_op :: string
  pr_threshold :: float64
  pr_hold_for :: 'dur
  pr_channel :: string

record 'dur pb_rule_status =
  prs_rule :: "'dur pb_rule"
  prs_firing :: bool

datatype alert_state = AlertStateUnspecified | AlertStateFired | AlertStateResolved

record 'dur pb_alert_event =
  pae_rule :: "'dur pb_rule"
  pae_state :: alert_state

record ('ts, 'dur) watch_response =
  wr_path :: string
  wr_sample :: "'ts pb_sample"
  wr_alert :: "'dur pb_alert_event option"

record ('ts, 'dur) pb_wire =
  pb_timestamp :: "time \<Rightarrow> 'ts"      \<comment> \<open>\<open>timestamppb.New\<close>\<close>
  pb_duration :: "duration \<Rightarrow> 'dur"  \<comment> \<open>\<open>durationpb.New\<close>\<close>

definition to_sample :: "('ts, 'dur) pb_wire \<Rightarrow> sample \<Rightarrow> 'ts pb_sample" where
  "to_sample pb s = \<lparr>ps_time = pb_timestamp pb (smp_time s), ps_value = smp_value s, ps_unit = smp_unit s\<rparr>"

definition to_rule :: "('ts, 'dur) pb_wire \<Rightarrow> rule \<Rightarrow> 'dur pb_rule" where
  "to_rule pb r =
     \<lparr>pr_path = path_string (stream_path (rl_stream r)), pr_op = op_string (rl_op r),
      pr_threshold = rl_threshold r, pr_hold_for = pb_duration pb (rl_for r), pr_channel = rl_channel r\<rparr>"

definition alert_state_of :: "event \<Rightarrow> alert_state" where
  "alert_state_of ev =
     (case ev of Fired \<Rightarrow> AlertStateFired | Resolved \<Rightarrow> AlertStateResolved | _ \<Rightarrow> AlertStateUnspecified)"

definition to_event :: "('ts, 'dur) pb_wire \<Rightarrow> feed_event \<Rightarrow> ('ts, 'dur) watch_response" where
  "to_event pb ev =
     \<lparr>wr_path = path_string (stream_path (fe_stream ev)), wr_sample = to_sample pb (fe_sample ev),
      wr_alert = map_option (\<lambda>nt. \<lparr>pae_rule = to_rule pb (ntf_rule nt),
        pae_state = alert_state_of (ntf_event nt)\<rparr>) (fe_alert ev)\<rparr>"

datatype grpc_code = GrpcNotFound | GrpcInvalidArgument | GrpcInternal

definition to_status :: "(string \<Rightarrow> string) \<Rightarrow> fs_error \<Rightarrow> grpc_code \<times> string" where
  "to_status q e =
     (let text = error_text q e in
      if err_base e = ErrNotFound then (GrpcNotFound, text)
      else if err_base e = ErrBadPath \<or> err_base e = ErrNotDir \<or> err_base e = ErrIsDir
      then (GrpcInvalidArgument, text)
      else (GrpcInternal, text))"

lemma alert_state_inj:
  "alert_state_of a = alert_state_of b \<Longrightarrow> a \<noteq> NoEvent \<Longrightarrow> b \<noteq> NoEvent \<Longrightarrow> a = b"
  by (cases a; cases b) (simp_all add: alert_state_of_def)

lemma stream_path_inj:
  "stream_wf i \<Longrightarrow> stream_wf j \<Longrightarrow> path_string (stream_path i) = path_string (stream_path j) \<Longrightarrow> i = j"
  by (metis path_stream_inverse path_string_inj stream_wf_path)

lemma op_string_inj: "op_string a = op_string b \<Longrightarrow> a = b"
  using parse_op_iff by (metis option.inject)

lemma to_rule_inj:
  assumes "inj (pb_duration pb)" and "stream_wf (rl_stream r)" and "stream_wf (rl_stream r')"
    and "to_rule pb r = to_rule pb r'"
  shows "r = r'"
  using assms stream_path_inj [of "rl_stream r" "rl_stream r'"] op_string_inj [of "rl_op r" "rl_op r'"]
  by (simp add: to_rule_def inj_eq)

section \<open>Unary calls\<close>

definition grpc_ls :: "(string \<Rightarrow> string) \<Rightarrow> (string \<Rightarrow> fs_error + entry list) \<Rightarrow> string \<Rightarrow>
    (grpc_code \<times> string) + pb_entry list" where
  "grpc_ls q ls pth =
     (case ls pth of
        Inl e \<Rightarrow> Inl (to_status q e)
      | Inr es \<Rightarrow> Inr (map (\<lambda>e. \<lparr>pe_name = ent_name e, pe_dir = ent_dir e\<rparr>) es))"

definition grpc_cat :: "('ts, 'dur) pb_wire \<Rightarrow> (string \<Rightarrow> string) \<Rightarrow> (string \<Rightarrow> fs_error + sample list) \<Rightarrow> string \<Rightarrow>
    (grpc_code \<times> string) + 'ts pb_sample list" where
  "grpc_cat pb q cat pth =
     (case cat pth of
        Inl e \<Rightarrow> Inl (to_status q e)
      | Inr ss \<Rightarrow> Inr (map (to_sample pb) ss))"

definition grpc_rules :: "('ts, 'dur) pb_wire \<Rightarrow> alerter option \<Rightarrow> 'dur pb_rule_status list" where
  \<comment> \<open>no alerter: no rules\<close>
  "grpc_rules pb alerts =
     (case alerts of
        None \<Rightarrow> []
      | Some a \<Rightarrow> map (\<lambda>rs. \<lparr>prs_rule = to_rule pb (rs_rule rs), prs_firing = rs_firing rs\<rparr>) (alerter_status a))"

section \<open>Watch\<close>

datatype watch_state = Idle | Watching nat | Returned "string option"  \<comment> \<open>the text of the error\<close>

datatype select_case = PickDone | PickEvent

definition watch_enter :: "feed option \<Rightarrow> watch_state \<times> feed option" where
  "watch_enter f =
     (case f of
        None \<Rightarrow> (Idle, None)
      | Some f \<Rightarrow> (case feed_subscribe f of (s, f) \<Rightarrow> (Watching s, Some f)))"

definition watch_idle :: "bool \<Rightarrow> watch_state" where
  \<comment> \<open>without a feed: wait for the client to go away\<close>
  "watch_idle gone = (if gone then Returned None else Idle)"

definition watch_turn :: "('ts, 'dur) pb_wire \<Rightarrow> (('ts, 'dur) watch_response \<Rightarrow> string option) \<Rightarrow> select_case \<Rightarrow> nat \<Rightarrow>
    feed \<Rightarrow> (watch_state \<times> feed \<times> ('ts, 'dur) watch_response list) option" where
  \<comment> \<open>one turn of the loop and what it hands to \<open>Send\<close>; None if the chosen case is not ready\<close>
  "watch_turn pb snd_err pick s f =
     (case pick of
        PickDone \<Rightarrow> Some (Returned None, feed_cancel s f, [])
      | PickEvent \<Rightarrow>
          (case chan_receive s f of
             (Blocked, f) \<Rightarrow> None
           | (Ended, f) \<Rightarrow> Some (Returned None, feed_cancel s f, [])
           | (Got ev, f) \<Rightarrow>
               let r = to_event pb ev in
               (case snd_err r of
                  Some e \<Rightarrow> Some (Returned (Some e), feed_cancel s f, [r])
                | None \<Rightarrow> Some (Watching s, f, [r]))))"

section \<open>A call among everything else\<close>

text \<open>
  \<open>watch_run pb rng buffer s as f w out\<close>: the call that subscribed as \<open>s\<close> is in state
  \<open>w\<close> and has handed \<open>out\<close> to \<open>Send\<close>, after the feed went through \<open>as\<close> and
  became \<open>f\<close>. Others subscribe, cancel their own subscriptions, publish and receive at will;
  each \<open>Send\<close> succeeds or fails as it likes.
\<close>

inductive watch_run :: "('ts, 'dur) pb_wire \<Rightarrow> ((nat \<rightharpoonup> unit) \<Rightarrow> nat list) \<Rightarrow> nat \<Rightarrow> nat \<Rightarrow> feed_action list \<Rightarrow> feed \<Rightarrow>
    watch_state \<Rightarrow> ('ts, 'dur) watch_response list \<Rightarrow> bool"
  for pb rng buffer s where
  enter: "feed_history rng buffer as f \<Longrightarrow> watch_enter (Some f) = (Watching s, Some f') \<Longrightarrow>
    watch_run pb rng buffer s (as @ [Subscribed s]) f' (Watching s) []"
| turn: "watch_run pb rng buffer s as f (Watching s) out \<Longrightarrow>
    watch_turn pb snd_err PickEvent s f = Some (Watching s, f', rs) \<Longrightarrow>
    chan_receive s f = (r, g) \<Longrightarrow>
    watch_run pb rng buffer s (as @ [Received s r]) f' (Watching s) (out @ rs)"
| stop: "watch_run pb rng buffer s as f (Watching s) out \<Longrightarrow>
    watch_turn pb snd_err PickEvent s f = Some (Returned e, f', rs) \<Longrightarrow>
    chan_receive s f = (r, g) \<Longrightarrow>
    watch_run pb rng buffer s (as @ [Received s r, Cancelled s]) f' (Returned e) (out @ rs)"
| gone: "watch_run pb rng buffer s as f (Watching s) out \<Longrightarrow>
    watch_turn pb snd_err PickDone s f = Some (w, f', rs) \<Longrightarrow>
    watch_run pb rng buffer s (as @ [Cancelled s]) f' w (out @ rs)"
| subscribe: "watch_run pb rng buffer s as f w out \<Longrightarrow> feed_subscribe f = (t, f') \<Longrightarrow>
    watch_run pb rng buffer s (as @ [Subscribed t]) f' w out"
| cancel: "watch_run pb rng buffer s as f w out \<Longrightarrow> t < length (fd_heap f) \<Longrightarrow> t \<noteq> s \<Longrightarrow>
    watch_run pb rng buffer s (as @ [Cancelled t]) (feed_cancel t f) w out"
| publish: "watch_run pb rng buffer s as f w out \<Longrightarrow> feed_publish rng ev f = Some f' \<Longrightarrow>
    watch_run pb rng buffer s (as @ [Published ev]) f' w out"
| receive: "watch_run pb rng buffer s as f w out \<Longrightarrow> t < length (fd_heap f) \<Longrightarrow> t \<noteq> s \<Longrightarrow>
    chan_receive t f = (r, f') \<Longrightarrow>
    watch_run pb rng buffer s (as @ [Received t r]) f' w out"


text \<open>What a call did, in terms of the history of the feed: it sent what it received, in order,
  its channel is open while it runs, and its subscription is gone when it has returned.\<close>

definition watch_ok :: "('ts, 'dur) pb_wire \<Rightarrow> nat \<Rightarrow> feed_action list \<Rightarrow> feed \<Rightarrow> watch_state \<Rightarrow>
    ('ts, 'dur) watch_response list \<Rightarrow> bool" where
  "watch_ok pb s as f w out \<longleftrightarrow> s < length (fd_heap f) \<and> out = map (to_event pb) (got s as) \<and>
     is_live s False as = (w = Watching s) \<and> (\<forall>t. w = Watching t \<longrightarrow> t = s) \<and> w \<noteq> Idle"

lemma heap_length [simp]:
  "length (fd_heap (feed_cancel t f)) = length (fd_heap f)"
  "chan_receive t f = (r, f') \<Longrightarrow> length (fd_heap f') = length (fd_heap f)"
  by (auto simp: feed_cancel_def chan_receive_def split: list.splits)

lemma watch_turn_event:
  "watch_turn pb snd_err PickEvent s f = Some (Watching t, f', rs) \<Longrightarrow> chan_receive s f = (r, g) \<Longrightarrow>
    t = s \<and> f' = g \<and> (\<exists>ev. r = Got ev \<and> rs = [to_event pb ev])"
  by (auto simp: watch_turn_def Let_def split: received.splits option.splits)

lemma watch_turn_stop:
  "watch_turn pb snd_err PickEvent s f = Some (Returned e, f', rs) \<Longrightarrow> chan_receive s f = (r, g) \<Longrightarrow>
    f' = feed_cancel s g \<and> (r = Ended \<and> rs = [] \<or> (\<exists>ev. r = Got ev \<and> rs = [to_event pb ev]))"
  by (auto simp: watch_turn_def Let_def split: received.splits option.splits)

lemma watch_turn_gone:
  "watch_turn pb snd_err PickDone s f = Some (w, f', rs) \<Longrightarrow> w = Returned None \<and> f' = feed_cancel s f \<and> rs = []"
  by (auto simp: watch_turn_def)

context subs_range
begin

lemma publish_length: "feed_inv f \<Longrightarrow> feed_publish rng ev f = Some f' \<Longrightarrow> length (fd_heap f') = length (fd_heap f)"
  by (simp add: publish_eq) (metis feed.ext_inject feed.surjective feed.update_convs(3) length_map)

lemma watch_run_ok:
  "watch_run pb rng buffer s as f w out \<Longrightarrow> feed_history rng buffer as f \<and> watch_ok pb s as f w out"
proof (induction rule: watch_run.induct)
  case (enter as f f')
  then have f': "feed_subscribe f = (s, f')" by (simp add: watch_enter_def split: prod.splits)
  then have s: "s = length (fd_heap f)" "length (fd_heap f') = Suc (length (fd_heap f))"
    by (auto simp: feed_subscribe_def Let_def)
  have "got s as = []" using history_tracks [OF enter(1)] s(1) by (simp add: tracks_def)
  then show ?case using feed_history.subscribe [OF enter(1) f'] s by (simp add: watch_ok_def history_simps)
next
  case (turn as f out snd_err f' rs r g)
  note t = watch_turn_event [OF turn.hyps(2,3)]
  have "feed_history rng buffer (as @ [Received s r]) f'"
    using turn.IH turn.hyps(3) t by (auto intro: feed_history.receive simp: watch_ok_def)
  then show ?case using turn.IH turn.hyps(3) t by (auto simp: watch_ok_def history_simps)
next
  case (stop as f out snd_err e f' rs r g)
  note t = watch_turn_stop [OF stop.hyps(2,3)]
  have len: "s < length (fd_heap g)" using stop.IH stop.hyps(3) by (simp add: watch_ok_def)
  have "feed_history rng buffer (as @ [Received s r]) g"
    using stop.IH stop.hyps(3) by (auto intro: feed_history.receive simp: watch_ok_def)
  from feed_history.cancel [OF this len] have "feed_history rng buffer (as @ [Received s r, Cancelled s]) f'"
    using t by simp
  then show ?case using stop.IH stop.hyps(3) t len by (auto simp: watch_ok_def history_simps)
next
  case (gone as f out snd_err w f' rs)
  then show ?case using watch_turn_gone [OF gone.hyps(2)]
    by (auto intro: feed_history.cancel simp: watch_ok_def history_simps)
next
  case (subscribe as f w out t f')
  then have "t = length (fd_heap f)" "length (fd_heap f') = Suc (length (fd_heap f))"
    by (auto simp: feed_subscribe_def Let_def)
  then show ?case using subscribe by (auto intro: feed_history.subscribe simp: watch_ok_def history_simps)
next
  case (cancel as f w out t)
  then show ?case by (auto intro: feed_history.cancel simp: watch_ok_def history_simps)
next
  case (publish as f w out ev f')
  have "feed_inv f" using history_tracks publish.IH by (auto simp: tracks_def)
  then have "length (fd_heap f') = length (fd_heap f)" using publish.hyps(2) by (rule publish_length)
  then show ?case using publish by (auto intro: feed_history.publish simp: watch_ok_def history_simps)
next
  case (receive as f w out t r f')
  then have "got s (as @ [Received t r]) = got s as" by (cases r) (auto simp: history_simps)
  then show ?case using receive by (auto intro: feed_history.receive simp: watch_ok_def history_simps)
qed

text \<open>While the call runs nobody closes its channel: the branch for a closed channel is dead.\<close>

lemma watching_open:
  assumes "watch_run pb rng buffer s as f (Watching t) out"
  shows "t = s \<and> \<not> sub_closed (fd_heap f ! s)"
proof -
  have "tracks buffer as f" using watch_run_ok [OF assms] history_tracks by blast
  then show ?thesis using watch_run_ok [OF assms] by (auto simp: watch_ok_def tracks_def)
qed

end

section \<open>Properties\<close>

definition demo_wire :: "(time, duration) pb_wire" where
  "demo_wire = \<lparr>pb_timestamp = id, pb_duration = id\<rparr>"

text \<open>A call that subscribes to a fresh feed, is sent one event and then loses its client.\<close>

lemma demo_watch:
  "watch_run demo_wire ascending_keys 1 0 [Subscribed 0, Published (demo_event ''1''),
      Received 0 (Got (demo_event ''1'')), Cancelled 0]
    \<lparr>fd_buffer = 1, fd_subs = Map.empty, fd_heap = [\<lparr>sub_ch = [], sub_closed = True\<rparr>]\<rparr>
    (Returned None) [to_event demo_wire (demo_event ''1'')]"
proof -
  let ?f = "\<lambda>ch. \<lparr>fd_buffer = 1, fd_subs = [0 \<mapsto> ()], fd_heap = [\<lparr>sub_ch = ch, sub_closed = False\<rparr>]\<rparr>"
  let ?run = "watch_run demo_wire ascending_keys 1 0"
  have "?run ([] @ [Subscribed 0]) (?f []) (Watching 0) []"
    by (rule watch_run.enter [OF feed_history.start])
      (simp add: watch_enter_def feed_subscribe_def new_feed_def)
  then have "?run (([] @ [Subscribed 0]) @ [Published (demo_event ''1'')]) (?f [demo_event ''1'']) (Watching 0) []"
    by (rule watch_run.publish) (simp add: feed_publish_def offer_def)
  then have "?run ((([] @ [Subscribed 0]) @ [Published (demo_event ''1'')]) @ [Received 0 (Got (demo_event ''1''))])
      (?f []) (Watching 0) ([] @ [to_event demo_wire (demo_event ''1'')])"
    by (rule watch_run.turn [where snd_err = "\<lambda>_. None" and g = "?f []"])
      (simp_all add: watch_turn_def chan_receive_def Let_def)
  from watch_run.gone [OF this, of "\<lambda>_. None"] show ?thesis
    by (simp add: watch_turn_def feed_cancel_def)
qed

text \<open>
  C24: A \<open>Watch\<close> call sends a subsequence of the events published while it was subscribed, in
  their order, and as long as it never falls more than the buffer behind a prefix of them. Its
  subscription lives exactly as long as the call, however it ends, and while it runs its channel is
  never closed under it.
\<close>

theorem watch_sends_feed_in_order:
  assumes "subs_range rng" and "watch_run pb rng buffer s as f w out"
  shows "subseq out (map (to_event pb) (offered s False as)) \<and>
    (never_behind buffer s as \<longrightarrow> prefix out (map (to_event pb) (offered s False as))) \<and>
    (is_live s False as \<longleftrightarrow> w = Watching s) \<and>
    (w = Watching s \<longrightarrow> fst (chan_receive s f) \<noteq> Ended)"
proof -
  have hist: "feed_history rng buffer as f" and ok: "watch_ok pb s as f w out"
    using subs_range.watch_run_ok [OF assms] by blast+
  have tr: "tracks buffer as f" by (rule subs_range.history_tracks [OF assms(1) hist])
  have len: "s < length (fd_heap f)" and out: "out = map (to_event pb) (got s as)"
    and live: "is_live s False as \<longleftrightarrow> w = Watching s"
    using ok unfolding watch_ok_def by blast+
  have sub: "subseq (got s as @ sub_ch (fd_heap f ! s)) (offered s False as)"
    and all: "never_behind buffer s as \<longrightarrow> got s as @ sub_ch (fd_heap f ! s) = offered s False as"
    using tr len unfolding tracks_def by blast+
  have "prefix (got s as) (got s as @ sub_ch (fd_heap f ! s))" by simp
  then have "subseq (got s as) (offered s False as)"
    using sub prefix_imp_subseq subseq_order.order_trans by blast
  then have "subseq out (map (to_event pb) (offered s False as))"
    unfolding out by (rule subseq_map)
  moreover have "never_behind buffer s as \<longrightarrow> prefix out (map (to_event pb) (offered s False as))"
    unfolding out using all by (metis map_append prefixI)
  moreover have "w = Watching s \<longrightarrow> fst (chan_receive s f) \<noteq> Ended"
    using subs_range.watching_open [OF assms(1), of pb buffer s as f s out] assms(2)
    by (auto simp: chan_receive_def split: list.splits)
  ultimately show ?thesis using live by blast
qed

theorem watch_sends_feed_in_order_witness:
  "prefix [to_event demo_wire (demo_event ''1'')]
     (map (to_event demo_wire) (offered 0 False [Subscribed 0, Published (demo_event ''1''),
        Received 0 (Got (demo_event ''1'')), Cancelled 0]))"
  using watch_sends_feed_in_order [OF subs_ascending.subs_range_axioms demo_watch] by simp

text \<open>
  The messages tell their reader everything: two rules with the same message are the same
  rule, and two events with the same message are of the same stream and sample and, for a
  transition, of the same rule and in the same direction, provided the protobuf library keeps times
  and durations apart and the streams are ones a path can name.
\<close>

theorem messages_identify_events:
  assumes "inj (pb_timestamp pb)" and "inj (pb_duration pb)"
    and "stream_wf (fe_stream e)" and "stream_wf (fe_stream e')"
    and "\<And>nt. fe_alert e = Some nt \<or> fe_alert e' = Some nt \<Longrightarrow>
      stream_wf (rl_stream (ntf_rule nt)) \<and> ntf_event nt \<noteq> NoEvent"
    and "to_event pb e = to_event pb e'"
  shows "fe_stream e = fe_stream e' \<and> fe_sample e = fe_sample e' \<and>
    map_option (\<lambda>nt. (ntf_rule nt, ntf_event nt)) (fe_alert e) =
      map_option (\<lambda>nt. (ntf_rule nt, ntf_event nt)) (fe_alert e')"
proof (intro conjI)
  show "fe_stream e = fe_stream e'"
    using assms(3,4,6) stream_path_inj by (auto simp: to_event_def)
  show "fe_sample e = fe_sample e'"
    using assms(1,6) by (auto simp: to_event_def to_sample_def inj_eq)
  show "map_option (\<lambda>nt. (ntf_rule nt, ntf_event nt)) (fe_alert e) =
      map_option (\<lambda>nt. (ntf_rule nt, ntf_event nt)) (fe_alert e')"
  proof (cases "fe_alert e"; cases "fe_alert e'")
    fix nt nt'
    assume nt: "fe_alert e = Some nt" "fe_alert e' = Some nt'"
    then have "to_rule pb (ntf_rule nt) = to_rule pb (ntf_rule nt')"
      and "alert_state_of (ntf_event nt) = alert_state_of (ntf_event nt')"
      using assms(6) by (simp_all add: to_event_def)
    then show ?thesis
      using to_rule_inj [OF assms(2)] alert_state_inj assms(5) [of nt] assms(5) [of nt'] nt by simp
  qed (use assms(6) in \<open>auto simp: to_event_def\<close>)
qed

theorem messages_identify_events_witness:
  "fe_sample (demo_event ''1'') = \<lparr>smp_time = 1, smp_value = ''1'', smp_unit = []\<rparr>"
  using messages_identify_events [of demo_wire "demo_event ''1''"
      "\<lparr>fe_stream = demo_stream, fe_sample = \<lparr>smp_time = 1, smp_value = ''1'', smp_unit = []\<rparr>, fe_alert = None\<rparr>"]
  by (simp add: demo_wire_def demo_event_def demo_stream_def stream_wf_def slash_free_def to_event_def)

end
