(* ===== verification/Sor.thy ===== *)
theory Sor
  imports Memstore Alertconf Slack Grpcapi
begin

text \<open>
  \<open>cmd/sor/main.go\<close> and \<open>validate.go\<close>: how the system of record is put together. Its
  state is the store, the alerter (if there is one), the Slack notifier beside the outside world it
  talks to, and the live feed. The operations are what the goroutines of \<open>main\<close> do: a sample
  arrives at the \<open>tee\<close>, the rules are checked, the retention window is applied, a gRPC client
  subscribes, reads and leaves. \<open>sor_run\<close> interleaves them in any order, each as one step.
  Flag parsing, listening and logging are not modelled.
\<close>

section \<open>The wiring\<close>

definition destinations :: "config \<Rightarrow> string \<rightharpoonup> destination" where
  "destinations cfg =
     fold (\<lambda>ch out. out(ch_name ch \<mapsto>
       \<lparr>dst_webhook = ch_url ch, dst_token = ch_token ch, dst_channel_id = ch_channel_id ch\<rparr>))
     (cfg_channels cfg) Map.empty"

record 'w sor =
  sor_store :: store
  sor_alerter :: "alerter option"
  sor_slack :: "slack \<times> 'w"
  sor_feed :: feed

type_synonym 'w notified = "(slack \<times> 'w) \<times> feed"

definition via_slack :: "'w slack_env \<Rightarrow> (slack_error, 'w notified) notify" where
  "via_slack env nt n =
     (case n of (sw, f) \<Rightarrow> map_option (\<lambda>(err, sw). (err, sw, f)) (slack_channel env nt sw))"

definition via_feed :: "((nat \<rightharpoonup> unit) \<Rightarrow> nat list) \<Rightarrow> (slack_error, 'w notified) notify" where
  "via_feed rfd nt n =
     (case n of (sw, f) \<Rightarrow> map_option (\<lambda>(err, f). (err, sw, f)) (feed_notify rfd nt f))"

definition sor_notify :: "'w slack_env \<Rightarrow> ((nat \<rightharpoonup> unit) \<Rightarrow> nat list) \<Rightarrow> (slack_error list, 'w notified) notify" where
  \<comment> \<open>\<open>usecase.Notifiers{slack, feed}\<close>\<close>
  "sor_notify env rfd = notifiers_notify [via_slack env, via_feed rfd]"

definition tee_ingest :: "'w slack_env \<Rightarrow> (streams \<Rightarrow> stream_id list) \<Rightarrow> ((nat \<rightharpoonup> unit) \<Rightarrow> nat list) \<Rightarrow> budget \<Rightarrow>
    stream_id \<Rightarrow> sample \<Rightarrow> 'w sor \<Rightarrow> (slack_error list list option \<times> 'w sor) option" where
  \<comment> \<open>the error is the one that is logged; None is a panic\<close>
  "tee_ingest env rst rfd b i s S =
     (case ingester_ingest store_append store_count (store_drop_oldest rst) b i s (sor_store S) of
        None \<Rightarrow> None
      | Some st \<Rightarrow>
          (case feed_ingest rfd i s (sor_feed S) of
             None \<Rightarrow> None
           | Some f \<Rightarrow>
               let S = S\<lparr>sor_store := st, sor_feed := f\<rparr> in
               (case sor_alerter S of
                  None \<Rightarrow> Some (None, S)
                | Some a \<Rightarrow>
                    (case alerter_observe (sor_notify env rfd) i s (a, sor_slack S, sor_feed S) of
                       None \<Rightarrow> None
                     | Some (err, a, sw, f) \<Rightarrow>
                         Some (err, S\<lparr>sor_alerter := Some a, sor_slack := sw, sor_feed := f\<rparr>)))))"

definition sor_check :: "'w slack_env \<Rightarrow> ((nat \<rightharpoonup> unit) \<Rightarrow> nat list) \<Rightarrow> time \<Rightarrow> 'w sor \<Rightarrow>
    (slack_error list list option \<times> 'w sor) option" where
  \<comment> \<open>one turn of the \<open>check-every\<close> loop; without an alerter there is no such loop\<close>
  "sor_check env rfd now S =
     (case sor_alerter S of
        None \<Rightarrow> Some (None, S)
      | Some a \<Rightarrow>
          (case alerter_check (sor_notify env rfd) now (a, sor_slack S, sor_feed S) of
             None \<Rightarrow> None
           | Some (err, a, sw, f) \<Rightarrow>
               Some (err, S\<lparr>sor_alerter := Some a, sor_slack := sw, sor_feed := f\<rparr>)))"

definition sor_evict :: "(streams \<Rightarrow> stream_id list) \<Rightarrow> window \<Rightarrow> time \<Rightarrow> 'w sor \<Rightarrow> int \<times> 'w sor" where
  \<comment> \<open>one turn of the \<open>evict-every\<close> loop\<close>
  "sor_evict rst w now S =
     (case evictor_run (store_drop_before rst) w now (sor_store S) of (n, st) \<Rightarrow> (n, S\<lparr>sor_store := st\<rparr>))"

section \<open>Starting\<close>

record sor_flags =
  fl_alerts :: string
  fl_absent_grace :: duration
  fl_max_samples :: int
  fl_retention :: duration

datatype 'e start_error = NegativeGrace | BadConfig "'e conf_error" | StartPanic

definition sor_start :: "'w slack_env \<Rightarrow> ((nat \<rightharpoonup> unit) \<Rightarrow> nat list) \<Rightarrow> sor_flags \<Rightarrow>
    (string \<Rightarrow> 'e conf_error + config) \<Rightarrow> time \<Rightarrow> 'w \<Rightarrow> 'e start_error + 'w sor" where
  \<comment> \<open>up to the point where \<open>main\<close> starts its goroutines; \<open>load\<close> is \<open>alertconf.Load\<close>\<close>
  "sor_start env rfd fl load now w =
     (let S = \<lparr>sor_store = new_store, sor_alerter = None, sor_slack = (new_slack Map.empty, w),
               sor_feed = new_feed 256\<rparr> in
      if fl_alerts fl = [] then Inr S
      else if dur_less (fl_absent_grace fl) 0 then Inl NegativeGrace
      else (case load (fl_alerts fl) of
              Inl e \<Rightarrow> Inl (BadConfig e)
            | Inr cfg \<Rightarrow>
                let S = S\<lparr>sor_slack := (new_slack (destinations cfg), w),
                          sor_alerter := Some (set_absent_grace (fl_absent_grace fl) (new_alerter (cfg_rules cfg)))\<rparr>
                in (case sor_check env rfd now S of
                      None \<Rightarrow> Inl StartPanic
                    | Some (err, S) \<Rightarrow> Inr S)))"

datatype 'e validate_error = NeedsAlerts | Invalid "'e conf_error"

definition validate_alerts :: "(string \<Rightarrow> 'e conf_error + config) \<Rightarrow> string \<Rightarrow> 'e validate_error + string" where
  "validate_alerts load path =
     (if path = [] then Inl NeedsAlerts
      else (case load path of
              Inl e \<Rightarrow> Inl (Invalid e)
            | Inr cfg \<Rightarrow> Inr (nat_digits (length (cfg_rules cfg)) @ '' rules, '' @
                nat_digits (length (cfg_channels cfg)) @ '' channels'')))"

section \<open>Runs\<close>

text \<open>What the alerter is shown in a run, and what happens to the feed beside it.\<close>

inductive sor_run :: "'w slack_env \<Rightarrow> (streams \<Rightarrow> stream_id list) \<Rightarrow> ((nat \<rightharpoonup> unit) \<Rightarrow> nat list) \<Rightarrow> sor_flags \<Rightarrow>
    (string \<Rightarrow> unit conf_error + config) \<Rightarrow> alert_op list \<Rightarrow> 'w sor \<Rightarrow> bool"
  for env rst rfd fl load where
  start: "sor_start env rfd fl load now w = Inr S \<Longrightarrow> sor_run env rst rfd fl load [Check_Op now] S"
| ingest: "sor_run env rst rfd fl load ops S \<Longrightarrow>
    tee_ingest env rst rfd \<lparr>max_samples = fl_max_samples fl\<rparr> i s S = Some (err, S') \<Longrightarrow>
    sor_run env rst rfd fl load (ops @ [Observe_Op i s]) S'"
| check: "sor_run env rst rfd fl load ops S \<Longrightarrow> sor_check env rfd now S = Some (err, S') \<Longrightarrow>
    sor_run env rst rfd fl load (ops @ [Check_Op now]) S'"
| evict: "sor_run env rst rfd fl load ops S \<Longrightarrow>
    sor_evict rst \<lparr>win_duration = fl_retention fl\<rparr> now S = (n, S') \<Longrightarrow>
    sor_run env rst rfd fl load ops S'"
| subscribe: "sor_run env rst rfd fl load ops S \<Longrightarrow> feed_subscribe (sor_feed S) = (k, f) \<Longrightarrow>
    sor_run env rst rfd fl load ops (S\<lparr>sor_feed := f\<rparr>)"
| leave: "sor_run env rst rfd fl load ops S \<Longrightarrow> k < length (fd_heap (sor_feed S)) \<Longrightarrow>
    sor_run env rst rfd fl load ops (S\<lparr>sor_feed := feed_cancel k (sor_feed S)\<rparr>)"
| read: "sor_run env rst rfd fl load ops S \<Longrightarrow> k < length (fd_heap (sor_feed S)) \<Longrightarrow>
    chan_receive k (sor_feed S) = (r, f) \<Longrightarrow>
    sor_run env rst rfd fl load ops (S\<lparr>sor_feed := f\<rparr>)"

section \<open>The list of notifiers\<close>

definition notified_inv :: "'w notified \<Rightarrow> bool" where
  "notified_inv n \<longleftrightarrow> slack_inv (fst (fst n)) \<and> feed_inv (snd n)"

lemma via_slack_notifier: "notifier (via_slack env) notified_inv"
  for env :: "'w slack_env"
proof
  fix n :: "'w notified" and nt
  assume "notified_inv n"
  moreover obtain sw f where n: "n = (sw, f)" by (cases n)
  ultimately obtain err sw' where "slack_channel env nt sw = Some (err, sw')" "slack_inv (fst sw')"
    using slack_channel.notify_returns [of sw env nt] by (auto simp: notified_inv_def)
  with \<open>notified_inv n\<close> show "\<exists>err n'. via_slack env nt n = Some (err, n') \<and> notified_inv n'"
    by (simp add: via_slack_def n notified_inv_def)
qed

context subs_range
begin

lemma via_feed_notifier: "notifier (via_feed rng) notified_inv"
proof
  fix n :: "'w notified" and nt
  assume "notified_inv n"
  moreover obtain sw f where n: "n = (sw, f)" by (cases n)
  ultimately obtain err :: "slack_error option" and f' where "feed_notify rng nt f = Some (err, f')" "feed_inv f'"
    using notifier.notify_returns [OF feed_notifier, of f nt] by (auto simp: notified_inv_def)
  with \<open>notified_inv n\<close> show "\<exists>err n'. via_feed rng nt n = Some (err, n') \<and> notified_inv n'"
    by (simp add: via_feed_def n notified_inv_def)
qed

lemma sor_notifier: "notifier (sor_notify env rng) notified_inv"
  unfolding sor_notify_def by (rule notifiers_notifier) (simp add: via_slack_notifier via_feed_notifier)

end

interpretation sor_channel: notifier "sor_notify env ascending_keys" notified_inv
  by (rule subs_ascending.sor_notifier)

section \<open>Invariant\<close>

definition sor_rules :: "sor_flags \<Rightarrow> (string \<Rightarrow> 'e conf_error + config) \<Rightarrow> rule list option" where
  "sor_rules fl load =
     (if fl_alerts fl = [] then None
      else case load (fl_alerts fl) of Inl e \<Rightarrow> None | Inr cfg \<Rightarrow> Some (cfg_rules cfg))"

definition sor_ok :: "sor_flags \<Rightarrow> rule list option \<Rightarrow> alert_op list \<Rightarrow> 'w sor \<Rightarrow> bool" where
  "sor_ok fl rules ops S \<longleftrightarrow> store_inv (sor_store S) \<and>
     (0 < fl_max_samples fl \<longrightarrow> store_count (sor_store S) \<le> fl_max_samples fl) \<and>
     notified_inv (sor_slack S, sor_feed S) \<and>
     (case sor_alerter S of
        None \<Rightarrow> rules = None
      | Some a \<Rightarrow> \<exists>rs. rules = Some rs \<and> alerter_inv rs a \<and>
          al_heap a = map (\<lambda>r. rule_monitor (fl_absent_grace fl) r ops) rs)"

text \<open>Every operation of the alerter goes through, keeps the invariant and steps every monitor.\<close>

context notifier
begin

lemma step_monitors:
  assumes "alerter_inv rs a" and "al_heap a = map (\<lambda>r. rule_monitor g r ops) rs" and "inv st"
  shows "\<exists>err a' st'. alerter_step notify x (a, st) = Some (err, a', st') \<and> inv st' \<and> alerter_inv rs a' \<and>
    al_heap a' = map (\<lambda>r. rule_monitor g r (ops @ [x])) rs"
  using step_returns [OF assms(1,3), of x] by (auto simp: assms(2) rule_monitor_snoc)

end

context subs_range
begin

lemma tee_ok:
  assumes "streams_range rst" and "sor_ok fl rules ops S"
  shows "\<exists>err S'. tee_ingest env rst rng \<lparr>max_samples = fl_max_samples fl\<rparr> i s S = Some (err, S') \<and>
    sor_ok fl rules (ops @ [Observe_Op i s]) S'"
proof -
  let ?b = "\<lparr>max_samples = fl_max_samples fl\<rparr>"
  have inv: "store_inv (sor_store S)" and n: "notified_inv (sor_slack S, sor_feed S)"
    using assms(2) by (simp_all add: sor_ok_def)
  obtain st where st: "ingester_ingest store_append store_count (store_drop_oldest rst) ?b i s (sor_store S) = Some st"
    "store_inv st" "store_count st = store_count (sor_store S) + 1 - excess ?b (store_count (sor_store S) + 1)"
    using streams_range.ingest_on_store(1) [OF assms(1) inv] by blast
  have cap: "0 < fl_max_samples fl \<longrightarrow> store_count st \<le> fl_max_samples fl"
    using st(3) by (simp add: excess_def)
  obtain f where f: "feed_ingest rng i s (sor_feed S) = Some f" "feed_inv f"
    using publish_inv n by (auto simp: feed_ingest_def notified_inv_def)
  have nf: "notified_inv (sor_slack S, f)" using n f by (simp add: notified_inv_def)
  show ?thesis
  proof (cases "sor_alerter S")
    case None
    then show ?thesis using assms(2) st(1,2) f cap nf by (simp add: tee_ingest_def sor_ok_def Let_def)
  next
    case (Some a)
    obtain rs where rs: "rules = Some rs" "alerter_inv rs a"
      "al_heap a = map (\<lambda>r. rule_monitor (fl_absent_grace fl) r ops) rs"
      using assms(2) Some by (auto simp: sor_ok_def)
    obtain err a' sw f' where step: "alerter_step (sor_notify env rng) (Observe_Op i s) (a, sor_slack S, f) =
        Some (err, a', sw, f')" "notified_inv (sw, f')" "alerter_inv rs a'"
      "al_heap a' = map (\<lambda>r. rule_monitor (fl_absent_grace fl) r (ops @ [Observe_Op i s])) rs"
      using notifier.step_monitors [OF sor_notifier rs(2,3) nf, of env "Observe_Op i s"] by (metis surj_pair)
    then show ?thesis using Some st(1,2) f cap rs(1) by (simp add: tee_ingest_def sor_ok_def Let_def)
  qed
qed

lemma check_ok:
  assumes "sor_ok fl rules ops S"
  shows "\<exists>err S'. sor_check env rng now S = Some (err, S') \<and> sor_ok fl rules (ops @ [Check_Op now]) S'"
proof (cases "sor_alerter S")
  case None
  then show ?thesis using assms by (simp add: sor_check_def sor_ok_def)
next
  case (Some a)
  obtain rs where rs: "rules = Some rs" "alerter_inv rs a"
    "al_heap a = map (\<lambda>r. rule_monitor (fl_absent_grace fl) r ops) rs"
    and n: "notified_inv (sor_slack S, sor_feed S)"
    using assms Some by (auto simp: sor_ok_def)
  obtain err a' sw f' where step: "alerter_step (sor_notify env rng) (Check_Op now) (a, sor_slack S, sor_feed S) =
      Some (err, a', sw, f')" "notified_inv (sw, f')" "alerter_inv rs a'"
    "al_heap a' = map (\<lambda>r. rule_monitor (fl_absent_grace fl) r (ops @ [Check_Op now])) rs"
    using notifier.step_monitors [OF sor_notifier rs(2,3) n, of env "Check_Op now"] by (metis surj_pair)
  then show ?thesis using Some rs(1) assms by (simp add: sor_check_def sor_ok_def)
qed

lemma evict_ok:
  assumes "streams_range rst" and "sor_ok fl rules ops S"
  shows "sor_ok fl rules ops (snd (sor_evict rst w now S))"
  using assms(2) streams_range.evict_count_on_store [OF assms(1), of "sor_store S" w now]
  by (auto simp: sor_ok_def sor_evict_def case_prod_beta)

lemma start_ok:
  shows "sor_start env rng fl load now w \<noteq> Inl StartPanic"
    and "sor_start env rng fl load now w = Inr S \<Longrightarrow> sor_ok fl (sor_rules fl load) [Check_Op now] S"
proof -
  let ?init = "\<lambda>cfg. \<lparr>sor_store = new_store,
      sor_alerter = Some (start_alerter (fl_absent_grace fl) (cfg_rules cfg)),
      sor_slack = (new_slack (destinations cfg), w), sor_feed = new_feed 256\<rparr>"
  have count: "store_count new_store = 0" by (simp add: store_count_def new_store_def)
  have init: "sor_ok fl (Some (cfg_rules cfg)) [] (?init cfg)" for cfg
    using start_alerter_inv start_alerter_heap
    by (simp add: sor_ok_def count notified_inv_def slack_inv_new store_inv_new)
  have eq: "sor_start env rng fl load now w =
      (if fl_alerts fl = [] then
         Inr \<lparr>sor_store = new_store, sor_alerter = None, sor_slack = (new_slack Map.empty, w), sor_feed = new_feed 256\<rparr>
       else if dur_less (fl_absent_grace fl) 0 then Inl NegativeGrace
       else (case load (fl_alerts fl) of
               Inl e \<Rightarrow> Inl (BadConfig e)
             | Inr cfg \<Rightarrow> (case sor_check env rng now (?init cfg) of None \<Rightarrow> Inl StartPanic | Some (err, S) \<Rightarrow> Inr S)))"
    unfolding sor_start_def start_alerter_def Let_def by (simp split: sum.split)
  show "sor_start env rng fl load now w \<noteq> Inl StartPanic"
  proof (cases "load (fl_alerts fl)")
    case (Inr cfg)
    then show ?thesis unfolding eq using check_ok [OF init, of env now cfg] by auto
  qed (simp add: eq)
  show "sor_ok fl (sor_rules fl load) [Check_Op now] S" if start: "sor_start env rng fl load now w = Inr S"
  proof (cases "fl_alerts fl = []")
    case True
    then show ?thesis using start unfolding eq
      by (auto simp: sor_ok_def sor_rules_def count notified_inv_def slack_inv_new store_inv_new)
  next
    case False
    then obtain cfg where cfg: "load (fl_alerts fl) = Inr cfg"
      using start unfolding eq by (auto split: if_splits sum.splits)
    obtain err S' where "sor_check env rng now (?init cfg) = Some (err, S')"
      "sor_ok fl (Some (cfg_rules cfg)) ([] @ [Check_Op now]) S'"
      using check_ok [OF init] by blast
    then show ?thesis using False cfg start unfolding eq by (simp add: sor_rules_def split: if_splits)
  qed
qed

lemma feed_steps_ok:
  assumes "sor_ok fl rules ops S"
  shows "sor_ok fl rules ops (S\<lparr>sor_feed := snd (feed_subscribe (sor_feed S))\<rparr>)"
    and "k < length (fd_heap (sor_feed S)) \<Longrightarrow>
      sor_ok fl rules ops (S\<lparr>sor_feed := feed_cancel k (sor_feed S)\<rparr>)"
    and "k < length (fd_heap (sor_feed S)) \<Longrightarrow>
      sor_ok fl rules ops (S\<lparr>sor_feed := snd (chan_receive k (sor_feed S))\<rparr>)"
  using assms feed_inv_subscribe [of "sor_feed S"] feed_inv_cancel [of "sor_feed S" k]
    feed_inv_receive [of "sor_feed S" k]
  by (simp_all add: sor_ok_def notified_inv_def)

lemma run_ok:
  assumes "streams_range rst" and "sor_run env rst rng fl load ops S"
  shows "sor_ok fl (sor_rules fl load) ops S"
  using assms(2)
proof (induction rule: sor_run.induct)
  case (start now w S)
  then show ?case by (rule start_ok(2))
next
  case (ingest ops S i s err S')
  then show ?case using tee_ok [OF assms(1) ingest.IH, of env i s] by auto
next
  case (check ops S now err S')
  then show ?case using check_ok [OF check.IH, of env now] by auto
next
  case (evict ops S now n S')
  then show ?case
    using evict_ok [OF assms(1) evict.IH, of "\<lparr>win_duration = fl_retention fl\<rparr>" now] by simp
next
  case (subscribe ops S k f)
  then show ?case using feed_steps_ok(1) [OF subscribe.IH] by simp
next
  case (leave ops S k)
  then show ?case using feed_steps_ok(2) by blast
next
  case (read ops S k r f)
  then show ?case using feed_steps_ok(3) [OF read.IH, of k] by simp
qed

text \<open>What a list of notifications does to the feed beside Slack: it publishes each of them.\<close>

lemma sor_notify_feed:
  assumes "sor_notify env rng nt (sw, f) = Some (err, sw', f')" and "feed_inv f"
  shows "f' = f\<lparr>fd_heap := map (delivered (fd_buffer f) (notification_event nt)) (fd_heap f)\<rparr>"
  using assms(1) publish_eq [OF assms(2), of "notification_event nt"]
  by (auto simp: sor_notify_def notifiers_notify_def via_slack_def via_feed_def feed_notify_def
      slack_channel_def split: option.splits prod.splits)

lemma send_loop_feed:
  assumes "send_loop (sor_notify env rng) nts errs (sw, f) = Some (errs', sw', f')" and "notified_inv (sw, f)"
  shows "f' = f\<lparr>fd_heap := map (fold (delivered (fd_buffer f)) (map notification_event nts)) (fd_heap f)\<rparr>"
  using assms
proof (induction nts arbitrary: errs sw f)
  case Nil
  then show ?case by simp
next
  case (Cons nt nts)
  obtain err sw1 f1 where n: "sor_notify env rng nt (sw, f) = Some (err, sw1, f1)" "notified_inv (sw1, f1)"
    using notifier.notify_returns [OF sor_notifier Cons.prems(2)] by (metis surj_pair)
  have f1: "f1 = f\<lparr>fd_heap := map (delivered (fd_buffer f) (notification_event nt)) (fd_heap f)\<rparr>"
    using sor_notify_feed [OF n(1)] Cons.prems(2) by (simp add: notified_inv_def)
  have "f' = f1\<lparr>fd_heap := map (fold (delivered (fd_buffer f1)) (map notification_event nts)) (fd_heap f1)\<rparr>"
    using Cons.IH [OF _ n(2)] Cons.prems(1) n(1) by (simp split: option.splits)
  then show ?case by (simp add: f1 comp_def)
qed

end

text \<open>Where notifications go.\<close>

lemma destinations_Some:
  "destinations cfg n = Some d \<Longrightarrow> \<exists>ch\<in>set (cfg_channels cfg). n = ch_name ch \<and>
    d = \<lparr>dst_webhook = ch_url ch, dst_token = ch_token ch, dst_channel_id = ch_channel_id ch\<rparr>"
proof -
  have "fold (\<lambda>ch out. out(ch_name ch \<mapsto> D ch)) chs m n = Some d \<Longrightarrow>
      m n = Some d \<or> (\<exists>ch\<in>set chs. n = ch_name ch \<and> d = D ch)" for chs m and D :: "channel \<Rightarrow> destination"
    by (induction chs arbitrary: m) (fastforce split: if_splits)+
  from this [of "\<lambda>ch. \<lparr>dst_webhook = ch_url ch, dst_token = ch_token ch, dst_channel_id = ch_channel_id ch\<rparr>"
      "cfg_channels cfg" Map.empty]
  show "destinations cfg n = Some d \<Longrightarrow> \<exists>ch\<in>set (cfg_channels cfg). n = ch_name ch \<and>
    d = \<lparr>dst_webhook = ch_url ch, dst_token = ch_token ch, dst_channel_id = ch_channel_id ch\<rparr>"
    by (simp add: destinations_def)
qed

lemma destinations_dom: "dom (destinations cfg) = ch_name ` set (cfg_channels cfg)"
proof -
  have "dom (fold (\<lambda>ch out. out(ch_name ch \<mapsto> D ch)) chs m) = dom m \<union> ch_name ` set chs"
    for chs m and D :: "channel \<Rightarrow> destination"
    by (induction chs arbitrary: m) auto
  then show ?thesis by (simp add: destinations_def)
qed

lemma slack_run_dests [simp]: "sl_dests (fst (slack_run env nts sw)) = sl_dests (fst sw)"
proof (induction nts arbitrary: sw)
  case (Cons nt nts)
  then show ?case by (cases sw) simp
qed simp

lemma fold_delivered:
  "\<not> sub_closed x \<Longrightarrow> length (sub_ch x) + length evs \<le> buffer \<Longrightarrow>
    fold (delivered buffer) evs x = x\<lparr>sub_ch := sub_ch x @ evs\<rparr>"
  by (induction evs arbitrary: x) (auto simp: delivered_def)

section \<open>Properties\<close>


text \<open>
  \<open>sor -validate\<close> accepts exactly the rules files a sor starts with.
\<close>

theorem validate_predicts_start:
  assumes "subs_range rfd" and "\<not> dur_less (fl_absent_grace fl) 0" and "fl_alerts fl \<noteq> []"
  shows "(\<exists>text. validate_alerts load (fl_alerts fl) = Inr text) \<longleftrightarrow>
    (\<exists>S. sor_start env rfd fl load now w = Inr S)"
proof (cases "load (fl_alerts fl)")
  case (Inl e)
  then show ?thesis using assms by (simp add: validate_alerts_def sor_start_def Let_def)
next
  case (Inr cfg)
  have "sor_start env rfd fl load now w \<noteq> Inl StartPanic" by (rule subs_range.start_ok(1) [OF assms(1)])
  then have "\<exists>S. sor_start env rfd fl load now w = Inr S"
    using Inr assms(2,3) by (simp add: sor_start_def Let_def split: option.splits prod.splits)
  then show ?thesis using Inr assms(3) by (simp add: validate_alerts_def)
qed

definition demo_flags :: sor_flags where
  "demo_flags = \<lparr>fl_alerts = ''alert.conf'', fl_absent_grace = 0, fl_max_samples = 2, fl_retention = 10\<rparr>"

definition demo_outside :: "unit slack_env" where
  "demo_outside = \<lparr>se_send = (\<lambda>r w. (Inr \<lparr>rp_status = 200, rp_body = ''ok'', rp_broken = None\<rparr>, w)),
     se_json = (\<lambda>_. []), se_status = (\<lambda>_. Inr (True, [])), se_ts = (\<lambda>_. Inr ''1''), se_time = (\<lambda>_. []),
     se_api_base = []\<rparr>"

theorem validate_predicts_start_witness:
  "\<exists>S. sor_start demo_outside ascending_keys demo_flags (\<lambda>_. Inr demo_config :: unit conf_error + config) 5 () = Inr S"
  using validate_predicts_start [OF subs_ascending.subs_range_axioms, of demo_flags
      "\<lambda>_. Inr demo_config :: unit conf_error + config" demo_outside 5 "()"]
  by (simp add: demo_flags_def validate_alerts_def dur_less_def)

lemma demo_sor_run:
  "\<exists>S. sor_run demo_outside ascending_keys ascending_keys demo_flags (\<lambda>_. Inr demo_config) [Check_Op 5] S \<and>
    sor_alerter S \<noteq> None"
proof -
  have "sor_start demo_outside ascending_keys demo_flags (\<lambda>_. Inr demo_config :: unit conf_error + config) 5 () \<noteq>
      Inl StartPanic" by (rule subs_ascending.start_ok(1))
  then obtain S where S: "sor_start demo_outside ascending_keys demo_flags
      (\<lambda>_. Inr demo_config :: unit conf_error + config) 5 () = Inr S"
    by (auto simp: sor_start_def demo_flags_def Let_def dur_less_def split: option.splits)
  from sor_run.start [OF S, of ascending_keys] subs_ascending.start_ok(2) [OF S] show ?thesis
    by (intro exI [of _ S]) (auto simp: sor_ok_def sor_rules_def demo_flags_def split: option.splits)
qed


text \<open>
  C27: With a configuration \<open>alert.conf\<close> was accepted for, no notification of one of its rules
  fails for want of a destination, whatever was notified before, and the destination it goes to has
  either a webhook or a bot token with a channel.
\<close>

theorem alerts_have_destination:
  assumes "parse_env r lookup = Inr cfg" and "ntf_rule nt \<in> set (cfg_rules cfg)"
  shows "fst (slack_notify env nt (slack_run env nts (new_slack (destinations cfg), w))) \<noteq>
      Some (NoDestination ch) \<and>
    (\<exists>d. destinations cfg (rl_channel (ntf_rule nt)) = Some d \<and>
      (dst_token d = []) = (dst_webhook d \<noteq> []) \<and> (dst_token d = []) = (dst_channel_id d = []))"
proof -
  have ok: "config_ok cfg" by (rule parse_env_ok [OF assms(1)])
  then have "rl_channel (ntf_rule nt) \<in> dom (destinations cfg)"
    using assms(2) by (simp add: destinations_dom config_ok_def list_all_iff)
  then obtain d where d: "destinations cfg (rl_channel (ntf_rule nt)) = Some d" by blast
  obtain c where c: "c \<in> set (cfg_channels cfg)"
    "d = \<lparr>dst_webhook = ch_url c, dst_token = ch_token c, dst_channel_id = ch_channel_id c\<rparr>"
    using destinations_Some [OF d] by blast
  have "channel_ok c" using ok c(1) by (simp add: config_ok_def list_all_iff)
  then have "(dst_token d = []) = (dst_webhook d \<noteq> []) \<and> (dst_token d = []) = (dst_channel_id d = [])"
    using c(2) by (auto simp: channel_ok_def)
  moreover have "fst (slack_notify env nt (s, w)) \<noteq> Some (NoDestination ch)"
    if "sl_dests s = destinations cfg" for s w
    using slack_notify_error [of s nt d env w ch] d that by simp
  moreover have "sl_dests (fst (slack_run env nts (new_slack (destinations cfg), w))) = destinations cfg"
    by (simp add: new_slack_def)
  ultimately show ?thesis using d by (metis prod.collapse)
qed

theorem alerts_have_destination_witness:
  "\<exists>d. destinations demo_config ''ops'' = Some d \<and> dst_token d = [] \<and> dst_webhook d \<noteq> []"
proof -
  have "parse_env (demo_conf, None :: unit option) None = Inr demo_config" by code_simp
  moreover have "demo_rule OpGreater \<in> set (cfg_rules demo_config)" by (simp add: demo_config_def)
  ultimately have "\<exists>d. destinations demo_config (rl_channel (demo_rule OpGreater)) = Some d \<and>
      (dst_token d = []) = (dst_webhook d \<noteq> [])"
    using alerts_have_destination [of "(demo_conf, None :: unit option)" None demo_config
        "demo_note (demo_rule OpGreater) Fired 1" demo_outside "[]" "()" undefined]
    by (auto simp: demo_note_def)
  then obtain d where "destinations demo_config ''ops'' = Some d" "(dst_token d = []) = (dst_webhook d \<noteq> [])"
    by (auto simp: demo_rule_def)
  moreover from this(1) have "dst_token d = []" by (auto simp: destinations_def demo_config_def)
  ultimately show ?thesis by auto
qed

text \<open>
  C26: A live client that has room sees a sample before the alerts it causes: ingesting a sample
  appends to its channel the event of the sample and then, in the order of the configuration, one
  event for every rule on the stream the sample makes fire or resolve.
\<close>

definition caused_alerts :: "sor_flags \<Rightarrow> (string \<Rightarrow> unit conf_error + config) \<Rightarrow> alert_op list \<Rightarrow>
    stream_id \<Rightarrow> sample \<Rightarrow> notification list" where
  "caused_alerts fl load ops i s =
     (case sor_rules fl load of
        None \<Rightarrow> []
      | Some rs \<Rightarrow>
          concat (map (\<lambda>r. snd (spec_step (Observe_Op i s) (rule_monitor (fl_absent_grace fl) r ops))) rs))"

lemma tee_feed:
  assumes "subs_range rfd" and "sor_ok fl (sor_rules fl load) ops S"
    and "tee_ingest env rst rfd b i s S = Some (err, S')"
  shows "fd_heap (sor_feed S') = map (fold (delivered (fd_buffer (sor_feed S)))
    (\<lparr>fe_stream = i, fe_sample = s, fe_alert = None\<rparr> # map notification_event (caused_alerts fl load ops i s)))
    (fd_heap (sor_feed S))"
proof -
  let ?ev = "\<lparr>fe_stream = i, fe_sample = s, fe_alert = None\<rparr>"
  let ?f = "(sor_feed S)\<lparr>fd_heap := map (delivered (fd_buffer (sor_feed S)) ?ev) (fd_heap (sor_feed S))\<rparr>"
  have inv: "feed_inv (sor_feed S)" and sinv: "slack_inv (fst (sor_slack S))"
    using assms(2) by (simp_all add: sor_ok_def notified_inv_def)
  have pub: "feed_ingest rfd i s (sor_feed S) = Some ?f"
    using subs_range.publish_eq [OF assms(1) inv] by (simp add: feed_ingest_def)
  then have "feed_inv ?f" using subs_range.publish_inv [OF assms(1) inv, of ?ev] by (auto simp: feed_ingest_def)
  then have ninv: "notified_inv (sor_slack S, ?f)" using sinv by (simp add: notified_inv_def)
  show ?thesis
  proof (cases "sor_alerter S")
    case None
    then have "caused_alerts fl load ops i s = []" using assms(2) by (simp add: sor_ok_def caused_alerts_def)
    then show ?thesis using assms(3) None pub
      by (auto simp: tee_ingest_def Let_def split: option.splits)
  next
    case (Some a)
    obtain rs where rs: "sor_rules fl load = Some rs" "alerter_inv rs a"
      "al_heap a = map (\<lambda>r. rule_monitor (fl_absent_grace fl) r ops) rs"
      using assms(2) Some by (auto simp: sor_ok_def)
    have nts: "concat (map (\<lambda>m. snd (spec_step (Observe_Op i s) m)) (al_heap a)) = caused_alerts fl load ops i s"
      by (simp add: rs caused_alerts_def comp_def)
    obtain err' a' sw f where step: "alerter_step (sor_notify env rfd) (Observe_Op i s) (a, sor_slack S, ?f) =
        Some (err', a', sw, f)" "f = sor_feed S'"
      using assms(3) Some pub by (auto simp: tee_ingest_def Let_def split: option.splits)
    then obtain errs where "send_loop (sor_notify env rfd) (caused_alerts fl load ops i s) [] (sor_slack S, ?f) =
        Some (errs, sw, f)"
      unfolding alerter_step_eq [OF rs(2)] nts alerter_send_def by (auto split: option.splits)
    from subs_range.send_loop_feed [OF assms(1) this ninv] step(2) show ?thesis by (simp add: comp_def)
  qed
qed

theorem tee_publishes_sample_first:
  assumes "streams_range rst" and "subs_range rfd" and "sor_run env rst rfd fl load ops S"
    and "tee_ingest env rst rfd b i s S = Some (err, S')"
    and "k < length (fd_heap (sor_feed S))" and "\<not> sub_closed (fd_heap (sor_feed S) ! k)"
    and "length (sub_ch (fd_heap (sor_feed S) ! k)) + 1 + length (caused_alerts fl load ops i s) \<le>
      fd_buffer (sor_feed S)"
  shows "sub_ch (fd_heap (sor_feed S') ! k) = sub_ch (fd_heap (sor_feed S) ! k) @
    \<lparr>fe_stream = i, fe_sample = s, fe_alert = None\<rparr> # map notification_event (caused_alerts fl load ops i s)"
proof -
  have "fd_heap (sor_feed S') = map (fold (delivered (fd_buffer (sor_feed S)))
    (\<lparr>fe_stream = i, fe_sample = s, fe_alert = None\<rparr> # map notification_event (caused_alerts fl load ops i s)))
    (fd_heap (sor_feed S))"
    by (rule tee_feed [OF assms(2) subs_range.run_ok [OF assms(2,1,3)] assms(4)])
  then have "fd_heap (sor_feed S') ! k = fold (delivered (fd_buffer (sor_feed S)))
    (\<lparr>fe_stream = i, fe_sample = s, fe_alert = None\<rparr> # map notification_event (caused_alerts fl load ops i s))
    (fd_heap (sor_feed S) ! k)" using assms(5) by (simp only: nth_map)
  then show ?thesis using assms(6,7) by (subst (asm) fold_delivered) simp_all
qed

text \<open>A rule that fires at once, a sor that watches it, and a client.\<close>

definition demo_now :: config where
  "demo_now = demo_config\<lparr>cfg_rules := [(demo_rule OpGreater)\<lparr>rl_for := 0\<rparr>]\<rparr>"

definition demo_load :: "string \<Rightarrow> unit conf_error + config" where
  "demo_load p = Inr demo_now"

definition demo_breach :: sample where
  "demo_breach = \<lparr>smp_time = 6, smp_value = ''101'', smp_unit = []\<rparr>"

lemma demo_start:
  "\<exists>a. sor_start demo_outside ascending_keys demo_flags demo_load 5 () =
    Inr \<lparr>sor_store = new_store, sor_alerter = Some a, sor_slack = (new_slack (destinations demo_now), ()),
         sor_feed = new_feed 256\<rparr>"
proof -
  let ?m = "rule_monitor 0 ((demo_rule OpGreater)\<lparr>rl_for := 0\<rparr>) []"
  have quiet: "snd (spec_step (Check_Op 5) ?m) = []" by code_simp
  have heap: "al_heap (start_alerter 0 (cfg_rules demo_now)) = [?m]"
    by (simp add: start_alerter_heap demo_now_def demo_config_def)
  have "alerter_step (sor_notify demo_outside ascending_keys) (Check_Op 5)
      (start_alerter 0 (cfg_rules demo_now), (new_slack (destinations demo_now), ()), new_feed 256) =
    Some (None, (start_alerter 0 (cfg_rules demo_now))\<lparr>al_heap := [fst (spec_step (Check_Op 5) ?m)]\<rparr>,
      (new_slack (destinations demo_now), ()), new_feed 256)"
    unfolding alerter_step_eq [OF start_alerter_inv] heap
    using quiet by (simp add: alerter_send_def join_errors_def del: spec_step.simps)
  then show ?thesis
    by (simp add: sor_start_def demo_flags_def demo_load_def dur_less_def Let_def sor_check_def start_alerter_def)
qed

theorem tee_publishes_sample_first_witness:
  "\<exists>S S' err. tee_ingest demo_outside ascending_keys ascending_keys \<lparr>max_samples = 2\<rparr> demo_stream demo_breach S =
      Some (err, S') \<and>
    map fe_alert (sub_ch (fd_heap (sor_feed (S' :: unit sor)) ! 0)) =
      [None, Some \<lparr>ntf_rule = (demo_rule OpGreater)\<lparr>rl_for := 0\<rparr>, ntf_event = Fired, ntf_time = 6,
        ntf_value = ''101'', ntf_unit = []\<rparr>]"
proof -
  obtain a where "sor_start demo_outside ascending_keys demo_flags demo_load 5 () =
    Inr \<lparr>sor_store = new_store, sor_alerter = Some a, sor_slack = (new_slack (destinations demo_now), ()),
         sor_feed = new_feed 256\<rparr>" using demo_start by blast
  note run0 = sor_run.start [OF this, of ascending_keys]
  let ?S = "\<lparr>sor_store = new_store, sor_alerter = Some a, sor_slack = (new_slack (destinations demo_now), ()),
    sor_feed = snd (feed_subscribe (new_feed 256))\<rparr>"
  have "sor_run demo_outside ascending_keys ascending_keys demo_flags demo_load [Check_Op 5] ?S"
    using sor_run.subscribe [OF run0, of 0 "snd (feed_subscribe (new_feed 256))"]
    by (simp add: feed_subscribe_def new_feed_def)
  note run = this
  obtain err S' where t: "tee_ingest demo_outside ascending_keys ascending_keys \<lparr>max_samples = 2\<rparr> demo_stream
      demo_breach ?S = Some (err, S')"
    using subs_ascending.tee_ok [OF ordered.streams_range_axioms
        subs_ascending.run_ok [OF ordered.streams_range_axioms run], of demo_outside demo_stream demo_breach]
    by (auto simp: demo_flags_def)
  have heap: "fd_heap (snd (feed_subscribe (new_feed 256))) = [\<lparr>sub_ch = [], sub_closed = False\<rparr>]"
    "fd_buffer (snd (feed_subscribe (new_feed 256))) = 256"
    by (simp_all add: feed_subscribe_def new_feed_def)
  have caused: "caused_alerts demo_flags demo_load [Check_Op 5] demo_stream demo_breach =
      [\<lparr>ntf_rule = (demo_rule OpGreater)\<lparr>rl_for := 0\<rparr>, ntf_event = Fired, ntf_time = 6,
        ntf_value = ''101'', ntf_unit = []\<rparr>]"
    by code_simp
  have "sub_ch (fd_heap (sor_feed S') ! 0) = sub_ch (fd_heap (sor_feed ?S) ! 0) @
      \<lparr>fe_stream = demo_stream, fe_sample = demo_breach, fe_alert = None\<rparr> #
      map notification_event (caused_alerts demo_flags demo_load [Check_Op 5] demo_stream demo_breach)"
    by (rule tee_publishes_sample_first [OF ordered.streams_range_axioms subs_ascending.subs_range_axioms run t])
      (simp_all add: heap caused)
  then show ?thesis
    using t by (intro exI [of _ ?S] exI [of _ S'] exI [of _ err]) (simp add: heap caused notification_event_def)
qed

end
