(* ===== verification/Float_Exact.thy ===== *)
theory Float_Exact
  imports Go_Float Complex_Main
begin

text \<open>
  A float64 is exactly representable by itself: rounding the ratio it stands for, or its exact
  decimal expansion, gives it back; and every integer of 64 bits rounds to a finite float.
\<close>

definition is_double :: "float64 \<Rightarrow> bool" where
  \<comment> \<open>the finite values of binary64: a mantissa of 53 bits, normalized unless the exponent is least\<close>
  "is_double f \<longleftrightarrow>
     (case f of
        FFin s m e \<Rightarrow> min_exp \<le> e \<and> e \<le> max_exp \<and> m < 2 ^ 53 \<and> (2 ^ 52 \<le> m \<or> e = min_exp)
      | _ \<Rightarrow> True)"

section \<open>Bits\<close>

lemma nat_bits_bounds: "0 < n \<Longrightarrow> 2 ^ (nat_bits n - 1) \<le> n \<and> n < 2 ^ nat_bits n \<and> 0 < nat_bits n"
proof (induction n rule: nat_bits.induct)
  case (1 n)
  show ?case
  proof (cases "n div 2 = 0")
    case True
    then have "n = 1" using 1 by simp
    then show ?thesis by (simp add: nat_bits.simps [of "Suc 0"] nat_bits.simps [of 0])
  next
    case False
    then have IH: "2 ^ (nat_bits (n div 2) - 1) \<le> n div 2" "n div 2 < 2 ^ nat_bits (n div 2)" "0 < nat_bits (n div 2)"
      using 1 by simp_all
    obtain b where b: "nat_bits (n div 2) = Suc b" using IH(3) by (cases "nat_bits (n div 2)") auto
    then show ?thesis using IH(1,2) 1(2) by (simp add: nat_bits.simps [of n]) linarith
  qed
qed

lemma nat_bits_le: "n < 2 ^ k \<Longrightarrow> nat_bits n \<le> k"
proof (induction n arbitrary: k rule: nat_bits.induct)
  case (1 n)
  show ?case
  proof (cases "n = 0")
    case False
    then obtain j where k: "k = Suc j" using "1.prems" by (cases k) auto
    then have "n div 2 < 2 ^ j" using "1.prems" by auto
    then show ?thesis using "1.IH" [OF False] False k by (simp add: nat_bits.simps [of n])
  qed (simp add: nat_bits.simps [of 0])
qed

section \<open>Ratios as real numbers\<close>

lemma ratio_at_value:
  assumes "ratio_at n d e = (a, b)" and "0 < d"
  shows "0 < b" and "real a = real b * (real n / real d / 2 powi e)"
  using assms by (auto simp: ratio_at_def power_int_def field_simps split: if_splits)

lemma bits_real:
  assumes "0 < n"
  shows "2 powi (int (nat_bits n) - 1) \<le> real n" and "real n < 2 powi int (nat_bits n)"
proof -
  obtain b where b: "nat_bits n = Suc b" using nat_bits_bounds [OF assms] by (cases "nat_bits n") auto
  have "2 ^ b \<le> n" "n < 2 ^ Suc b" using nat_bits_bounds [OF assms] by (simp_all add: b)
  then have "real (2 ^ b) \<le> real n" "real n < real (2 ^ Suc b)" by (simp_all only: of_nat_le_iff of_nat_less_iff)
  then show "2 powi (int (nat_bits n) - 1) \<le> real n" "real n < 2 powi int (nat_bits n)"
    by (simp_all add: b power_int_def nat_add_distrib)
qed

text \<open>A positive ratio at the exponent chosen for it has 53 bits before the point.\<close>

definition top_exp :: "nat \<Rightarrow> nat \<Rightarrow> int" where
  "top_exp n d =
     (let e0 = int (nat_bits n) - int (nat_bits d) - 53; (a, b) = ratio_at n d e0
      in if a div b \<ge> 2 ^ 53 then e0 + 1 else e0)"

lemma ratio_exp_top: "ratio_exp n d = max min_exp (top_exp n d)"
  by (simp add: ratio_exp_def top_exp_def Let_def split: prod.split)

lemma powi_split: "(2 :: real) powi (i + j) = 2 powi i * 2 powi j"
  by (simp add: power_int_add)

lemma top_exp_range:
  assumes "0 < n" and "0 < d"
  shows "2 ^ 52 * 2 powi top_exp n d \<le> real n / real d" and "real n / real d < 2 ^ 53 * 2 powi top_exp n d"
proof -
  define e0 where "e0 = int (nat_bits n) - int (nat_bits d) - 53"
  obtain a b where ab: "ratio_at n d e0 = (a, b)" by (cases "ratio_at n d e0")
  note v = ratio_at_value [OF ab assms(2)]
  let ?x = "real n / real d"
  note N = bits_real [OF assms(1)] and D = bits_real [OF assms(2)]
  have dpos: "(0::real) < real d" using assms(2) by simp
  have "2 powi (int (nat_bits n) - 1) / 2 powi int (nat_bits d) < real n / real d"
    using N(1) D(2) dpos by (intro frac_less2) auto
  moreover have "(2::real) powi (int (nat_bits n) - 1) / 2 powi int (nat_bits d) = 2 ^ 52 * 2 powi e0"
  proof -
    have "int (nat_bits n) - 1 = 52 + e0 + int (nat_bits d)" by (simp add: e0_def)
    then show ?thesis by (simp only: powi_split) simp
  qed
  ultimately have lo: "2 ^ 52 * 2 powi e0 < ?x" by simp
  have "real n / real d < 2 powi int (nat_bits n) / 2 powi (int (nat_bits d) - 1)"
    using N(2) D(1) dpos by (intro frac_less) auto
  moreover have "(2::real) powi int (nat_bits n) / 2 powi (int (nat_bits d) - 1) = 2 ^ 54 * 2 powi e0"
  proof -
    have "int (nat_bits n) = 54 + e0 + (int (nat_bits d) - 1)" by (simp add: e0_def)
    then show ?thesis by (simp only: powi_split) simp
  qed
  ultimately have hi: "?x < 2 ^ 54 * 2 powi e0" by simp
  have test: "2 ^ 53 \<le> a div b \<longleftrightarrow> 2 ^ 53 * 2 powi e0 \<le> ?x"
  proof -
    have "2 ^ 53 \<le> a div b \<longleftrightarrow> 2 ^ 53 * b \<le> a" using v(1) by (simp add: less_eq_div_iff_mult_less_eq)
    also have "\<dots> \<longleftrightarrow> real (2 ^ 53 * b) \<le> real a" by (simp only: of_nat_le_iff)
    also have "\<dots> \<longleftrightarrow> real b * 2 ^ 53 \<le> real b * (?x / 2 powi e0)" unfolding v(2) by (simp add: mult.commute)
    also have "\<dots> \<longleftrightarrow> 2 ^ 53 \<le> ?x / 2 powi e0" by (rule mult_le_cancel_left_pos) (simp add: v(1))
    also have "\<dots> \<longleftrightarrow> 2 ^ 53 * 2 powi e0 \<le> ?x" by (rule pos_le_divide_eq) simp
    finally show ?thesis .
  qed
  have top: "top_exp n d = (if 2 ^ 53 \<le> a div b then e0 + 1 else e0)"
    by (simp add: top_exp_def e0_def [symmetric] ab)
  have suc: "(2::real) powi (e0 + 1) = 2 * 2 powi e0" by (simp add: powi_split)
  show "2 ^ 52 * 2 powi top_exp n d \<le> ?x" using lo test by (auto simp: top suc)
  show "?x < 2 ^ 53 * 2 powi top_exp n d" using hi test by (auto simp: top suc)
qed

lemma powi_less_iff: "(2::real) powi i < 2 powi j \<longleftrightarrow> i < j"
proof (cases i j rule: linorder_cases)
  case less
  then show ?thesis by (simp add: power_int_strict_increasing)
next
  case greater
  then have "(2::real) powi j < 2 powi i" by (simp add: power_int_strict_increasing)
  then show ?thesis using greater by simp
qed simp

lemma top_exp_unique:
  assumes "0 < n" and "0 < d" and "real n / real d = real m * 2 powi e" and "m < 2 ^ 53"
  shows "2 ^ 52 \<le> m \<Longrightarrow> top_exp n d = e" and "m < 2 ^ 52 \<Longrightarrow> top_exp n d < e"
proof -
  let ?t = "top_exp n d"
  note R = top_exp_range [OF assms(1,2), unfolded assms(3)]
  have m: "real m < 2 ^ 53" using assms(4) by (metis of_nat_less_iff of_nat_numeral of_nat_power)
  have "2 ^ 52 * 2 powi ?t < 2 ^ 53 * (2 :: real) powi e"
    using R(1) m by (meson le_less_trans mult_strict_right_mono zero_less_power_int zero_less_numeral)
  then have "2 powi ?t < (2 :: real) powi (e + 1)" by (simp add: powi_split)
  then have le: "?t \<le> e" by (simp add: powi_less_iff)
  show "?t = e" if "2 ^ 52 \<le> m"
  proof -
    have "real (2 ^ 52) \<le> real m" using that by (simp only: of_nat_le_iff)
    then have "2 ^ 52 * 2 powi e \<le> real m * 2 powi e" by simp
    then have "2 ^ 52 * (2 :: real) powi e < 2 ^ 53 * 2 powi ?t" using R(2) by linarith
    then have "(2 :: real) powi e < 2 powi (?t + 1)" by (simp add: powi_split)
    then show ?thesis using le by (simp add: powi_less_iff)
  qed
  show "?t < e" if "m < 2 ^ 52"
  proof -
    have "real m < real (2 ^ 52)" using that by (simp only: of_nat_less_iff)
    then have "real m * 2 powi e < 2 ^ 52 * 2 powi e" by simp
    then have "2 ^ 52 * (2 :: real) powi ?t < 2 ^ 52 * 2 powi e" using R(1) by linarith
    then show ?thesis by (simp add: powi_less_iff)
  qed
qed

section \<open>Exact values round to themselves\<close>

lemma round_half_even_exact: "0 < b \<Longrightarrow> round_half_even (m * b) b = m"
  by (simp add: round_half_even_def)

lemma round_ratio_exact:
  assumes "is_double (FFin s m e)" and "0 < d" and "real n / real d = real m * 2 powi e"
  shows "round_ratio s n d = FFin s m e"
proof (cases "n = 0")
  case True
  then have "m = 0" using assms(3) by simp
  then show ?thesis using assms(1) True by (simp add: round_ratio_def is_double_def)
next
  case False
  have m: "m < 2 ^ 53" "e \<le> max_exp" "2 ^ 52 \<le> m \<or> e = min_exp" "min_exp \<le> e"
    using assms(1) by (simp_all add: is_double_def)
  have exp: "ratio_exp n d = e"
    using top_exp_unique [OF _ assms(2,3) m(1)] False m(3,4) unfolding ratio_exp_top
    by (cases "2 ^ 52 \<le> m") (auto simp: not_le)
  obtain a b where ab: "ratio_at n d e = (a, b)" by (cases "ratio_at n d e")
  have "real a = real b * real m" using ratio_at_value [OF ab assms(2)] assms(3) by simp
  then have "a = m * b" by (metis mult.commute of_nat_eq_iff of_nat_mult)
  then have "round_half_even a b = m" using ratio_at_value(1) [OF ab assms(2)] by (simp add: round_half_even_exact)
  then show ?thesis using False m(1,2) by (simp add: round_ratio_def exp ab Let_def)
qed

lemma power_ratio_exact:
  assumes "is_double (FFin s m e)" and "0 < b" and "real c * real b powi k = real m * 2 powi e"
  shows "power_ratio s c b k = FFin s m e"
proof (cases "0 \<le> k")
  case True
  have "real (c * b ^ nat k) / real 1 = real m * 2 powi e" using assms(3) True by (simp add: power_int_def)
  from round_ratio_exact [OF assms(1) _ this] show ?thesis using True by (simp add: power_ratio_def)
next
  case False
  have "real c / real (b ^ nat (- k)) = real m * 2 powi e"
    using assms(3) False by (simp add: power_int_def divide_inverse power_inverse)
  from round_ratio_exact [OF assms(1) _ this] show ?thesis using False assms(2) by (simp add: power_ratio_def)
qed

lemma exact_decimal_value: "exact_decimal m e = (c, k) \<Longrightarrow> real c * 10 powi k = real m * 2 powi e"
proof -
  assume "exact_decimal m e = (c, k)"
  moreover have "(5 :: real) ^ j / 10 ^ j = 1 / 2 ^ j" for j
    by (simp add: power_divide [symmetric] power_one_over)
  ultimately show "real c * 10 powi k = real m * 2 powi e"
    by (auto simp: exact_decimal_def power_int_def power_inverse field_simps power_mult_distrib [symmetric] split: if_splits)
qed

lemma exact_decimal_float:
  "is_double (FFin s m e) \<Longrightarrow> exact_decimal m e = (c, k) \<Longrightarrow> decimal_float s c k = FFin s m e"
  unfolding decimal_float_def
  by (rule power_ratio_exact) (simp_all add: exact_decimal_value)

section \<open>Integers\<close>

lemma round_ratio_int: "n < 2 ^ 64 \<Longrightarrow> \<exists>m e. round_ratio s n 1 = FFin s m e"
proof -
  assume n: "n < 2 ^ 64"
  have "nat_bits 1 = 1" by (simp add: nat_bits.simps [of "Suc 0"] nat_bits.simps [of 0])
  then have "top_exp n 1 \<le> 11"
    using nat_bits_le [OF n] by (simp add: top_exp_def Let_def split: prod.split)
  then have "ratio_exp n 1 \<le> 11" by (simp add: ratio_exp_top min_exp_def)
  then show "\<exists>m e. round_ratio s n 1 = FFin s m e"
    by (auto simp: round_ratio_def max_exp_def Let_def split: prod.splits)
qed

end
