(* ===== verification/Float_Text.thy ===== *)
theory Float_Text
  imports Float_Exact
begin

text \<open>
  Text and floats: what \<open>ParseFloat\<close> returns on the decimal texts the program itself produces.
  Every float64 survives \<open>FormatFloat(f, 'f', -1, 64)\<close> followed by \<open>ParseFloat\<close>
  unchanged (\<open>parse_format_float\<close>), and the text of an integer parses to the float nearest to it.
\<close>

section \<open>Digits\<close>

lemma digit_not_special:
  assumes "is_digit c"
  shows "c \<noteq> CHR ''_''" "c \<noteq> CHR ''.''" "c \<noteq> CHR ''+''" "c \<noteq> CHR ''-''"
    "lower_byte c = c"
  using assms by (auto simp: is_digit_def lower_byte_def less_eq_char_def)

lemma digit_not_letter:
  assumes "is_digit c"
  shows "c \<noteq> CHR ''n''" "c \<noteq> CHR ''i''" "c \<noteq> CHR ''x''" "c \<noteq> CHR ''b''" "c \<noteq> CHR ''o''"
  using assms by (auto simp: is_digit_def)

lemma digits_val_scale: "digits_val acc xs = acc * 10 ^ length xs + digits_val 0 xs"
proof (induction xs arbitrary: acc)
  case Nil
  then show ?case by simp
next
  case (Cons c xs)
  show ?case
    using Cons [of "10 * acc + digit_val c"] Cons [of "digit_val c"] by (simp add: algebra_simps)
qed

lemma digits_val_zeros: "digits_val 0 (replicate n CHR ''0'' @ xs) = digits_val 0 xs"
  by (induction n) (auto simp: digit_val_def)

lemma nat_digits_length: "n < 10 ^ j \<Longrightarrow> 0 < j \<Longrightarrow> length (nat_digits n) \<le> j"
proof (induction n arbitrary: j rule: nat_digits.induct)
  case (1 n)
  show ?case
  proof (cases "n < 10")
    case True
    then show ?thesis using "1.prems" by (subst nat_digits.simps) simp
  next
    case False
    then obtain i where j: "j = Suc i" "0 < i"
      using "1.prems" by (cases j; cases "j - 1") auto
    then have "n div 10 < 10 ^ i" using "1.prems" by (simp add: div_less_iff_less_mult mult.commute)
    then show ?thesis using "1.IH" [OF False _ j(2)] False j by (subst nat_digits.simps) simp
  qed
qed

lemma pad_digits_facts:
  assumes "n < 10 ^ j" and "0 < j"
  shows "length (pad_digits j n) = j" and "list_all is_digit (pad_digits j n)"
    and "digits_val 0 (pad_digits j n) = n"
proof -
  have zero: "is_digit CHR ''0''" by (simp add: is_digit_def)
  show "length (pad_digits j n) = j"
    using nat_digits_length [OF assms] by (simp add: pad_digits_def Let_def)
  show "list_all is_digit (pad_digits j n)"
    using zero by (auto simp: pad_digits_def Let_def list_all_iff dest: nat_digits_is_digit)
  show "digits_val 0 (pad_digits j n) = n"
    by (simp add: pad_digits_def Let_def digits_val_zeros digits_val_nat_digits)
qed

lemma nat_digits_all: "list_all is_digit (nat_digits n)"
  by (auto simp: list_all_iff dest: nat_digits_is_digit)

section \<open>Reading a mantissa\<close>

lemma read_mantissa_digits:
  assumes "list_all is_digit ds"
  shows "read_mantissa False a (ds @ rest) =
    read_mantissa False (a\<lparr>mant_value := digits_val (mant_value a) ds,
      mant_frac := (if mant_dot a then mant_frac a + length ds else mant_frac a),
      mant_digits := (mant_digits a \<or> ds \<noteq> [])\<rparr>) rest"
  using assms
proof (induction ds arbitrary: a)
  case Nil
  then show ?case by simp
next
  case (Cons c ds)
  then have c: "c \<noteq> CHR ''_''" "c \<noteq> CHR ''.''" "is_digit c" "list_all is_digit ds"
    by (auto dest: digit_not_special)
  then show ?case by (simp add: digit_of_def Cons.IH)
qed

definition decimal_text :: "string \<Rightarrow> string \<Rightarrow> string" where
  \<comment> \<open>whole digits, and a point with fraction digits unless there are none\<close>
  "decimal_text ds fs = ds @ (if fs = [] then [] else CHR ''.'' # fs)"

lemma read_mantissa_decimal:
  assumes "list_all is_digit ds" and "list_all is_digit fs" and "ds \<noteq> []"
  shows "\<exists>dot. read_mantissa False \<lparr>mant_value = 0, mant_frac = 0, mant_dot = False, mant_digits = False\<rparr>
      (decimal_text ds fs) =
    (\<lparr>mant_value = digits_val 0 (ds @ fs), mant_frac = length fs, mant_dot = dot, mant_digits = True\<rparr>, [])"
proof (cases "fs = []")
  case True
  then show ?thesis
    using read_mantissa_digits [OF assms(1), of _ "[]"] assms(3)
    by (intro exI [of _ False]) (simp add: decimal_text_def)
next
  case False
  then show ?thesis
    using read_mantissa_digits [OF assms(1)] read_mantissa_digits [OF assms(2), of _ "[]"] assms(3)
    by (intro exI [of _ True]) (simp add: decimal_text_def digits_val_append)
qed

lemma parse_special_digit:
  assumes "is_digit c" and "g = [] \<or> g = ''-''"
  shows "parse_special (g @ c # cs) = None"
  using assms(2) digit_not_letter [OF assms(1)] digit_not_special [OF assms(1)]
  by (auto simp: parse_special_def Let_def lower_byte_def)

lemma decimal_text_chars:
  assumes "list_all is_digit ds" and "list_all is_digit fs"
  shows "CHR ''_'' \<notin> set (decimal_text ds fs)" and "CHR ''x'' \<notin> lower_byte ` set (decimal_text ds fs)"
proof -
  have d: "c \<noteq> CHR ''_''" "CHR ''x'' \<noteq> lower_byte c" if "is_digit c" for c
    using digit_not_special [OF that] digit_not_letter [OF that] by auto
  have p: "lower_byte CHR ''.'' = CHR ''.''" by (simp add: lower_byte_def less_eq_char_def)
  have "c \<noteq> CHR ''_''" if "c \<in> set (decimal_text ds fs)" for c
    using that assms d(1) by (auto simp: decimal_text_def list_all_iff split: if_splits)
  then show "CHR ''_'' \<notin> set (decimal_text ds fs)" by blast
  have "CHR ''x'' \<noteq> lower_byte c" if "c \<in> set (decimal_text ds fs)" for c
    using that assms d(2) p by (auto simp: decimal_text_def list_all_iff split: if_splits)
  then show "CHR ''x'' \<notin> lower_byte ` set (decimal_text ds fs)" by blast
qed

text \<open>A decimal text, with or without a minus, is read as its digits over a power of ten.\<close>

lemma parse_number_decimal:
  assumes "list_all is_digit ds" and "list_all is_digit fs" and "ds \<noteq> []"
  shows "parse_number ((if neg then ''-'' else []) @ decimal_text ds fs) =
    Some (power_ratio neg (digits_val 0 (ds @ fs)) 10 (- int (length fs)))"
proof -
  let ?t = "decimal_text ds fs"
  obtain c cs where ds: "ds = c # cs" using assms(3) by (cases ds) auto
  with assms(1) have c: "is_digit c" by simp
  have head: "?t = c # cs @ (if fs = [] then [] else CHR ''.'' # fs)" by (simp add: ds decimal_text_def)
  have drop: "drop_sign ((if neg then ''-'' else []) @ ?t) = ?t"
    using digit_not_special [OF c] head by (simp add: drop_sign_def)
  have neg: "(case (if neg then ''-'' else []) @ ?t of c # _ \<Rightarrow> c = CHR ''-'' | [] \<Rightarrow> False) = neg"
    using digit_not_special [OF c] head by simp
  have hex: "(case ?t of z # x # _ # _ \<Rightarrow> z = CHR ''0'' \<and> lower_byte x = CHR ''x'' | _ \<Rightarrow> False) = False"
    using decimal_text_chars(2) [OF assms(1,2)] by (auto split: list.splits)
  have us: "CHR ''_'' \<notin> set ((if neg then ''-'' else []) @ ?t)"
    using decimal_text_chars(1) [OF assms(1,2)] by simp
  obtain dot where mant: "read_mantissa False
      \<lparr>mant_value = 0, mant_frac = 0, mant_dot = False, mant_digits = False\<rparr> ?t =
      (\<lparr>mant_value = digits_val 0 (ds @ fs), mant_frac = length fs, mant_dot = dot, mant_digits = True\<rparr>, [])"
    using read_mantissa_decimal [OF assms] by blast
  show ?thesis
    unfolding parse_number_def Let_def drop neg hex using us mant by simp
qed

lemma parse_float_decimal:
  assumes "list_all is_digit ds" and "list_all is_digit fs" and "ds \<noteq> []"
    and "power_ratio neg (digits_val 0 (ds @ fs)) 10 (- int (length fs)) = FFin s m e"
  shows "parse_float ((if neg then ''-'' else []) @ decimal_text ds fs) = Some (FFin s m e)"
proof -
  obtain c cs where ds: "ds = c # cs" using assms(3) by (cases ds) auto
  with assms(1) have "is_digit c" by simp
  then have "parse_special ((if neg then ''-'' else []) @ decimal_text ds fs) = None"
    using parse_special_digit [of c "if neg then ''-'' else []"] by (simp add: ds decimal_text_def)
  then show ?thesis
    using parse_number_decimal [OF assms(1-3), of neg] assms(4) by (simp add: parse_float_def)
qed

section \<open>Round trips\<close>

lemma decimal_string_parse:
  assumes "decimal_float s c k = FFin s m e"
  shows "parse_float ((if s then ''-'' else []) @ decimal_string c k) = Some (FFin s m e)"
proof (cases "0 \<le> k")
  case True
  have "decimal_string c k = decimal_text (nat_digits (c * 10 ^ nat k)) []"
    using True by (simp add: decimal_string_def decimal_text_def)
  moreover have "power_ratio s (digits_val 0 (nat_digits (c * 10 ^ nat k) @ [])) 10 (- int (length ([] :: string))) =
      decimal_float s c k"
    using True by (simp add: decimal_float_def power_ratio_def digits_val_nat_digits)
  ultimately show ?thesis
    using parse_float_decimal [OF nat_digits_all, of "[]"] assms by simp
next
  case False
  let ?p = "nat (- k)"
  have p: "0 < ?p" "c mod 10 ^ ?p < 10 ^ ?p" using False by auto
  note pad = pad_digits_facts [OF p(2,1)]
  have nonempty: "pad_digits ?p (c mod 10 ^ ?p) \<noteq> []" using pad(1) p(1) by force
  have "decimal_string c k = decimal_text (nat_digits (c div 10 ^ ?p)) (pad_digits ?p (c mod 10 ^ ?p))"
    using False nonempty by (simp add: decimal_string_def decimal_text_def)
  moreover have "digits_val 0 (nat_digits (c div 10 ^ ?p) @ pad_digits ?p (c mod 10 ^ ?p)) = c"
    using pad div_mult_mod_eq [of c "10 ^ ?p"]
    by (simp add: digits_val_append digits_val_nat_digits digits_val_scale [of "c div 10 ^ ?p"])
  moreover have "power_ratio s c 10 (- int (length (pad_digits ?p (c mod 10 ^ ?p)))) = decimal_float s c k"
    using False pad(1) by (simp add: decimal_float_def power_ratio_def)
  ultimately show ?thesis
    using parse_float_decimal [OF nat_digits_all pad(2)] assms by simp
qed

lemma first_some_Some: "first_some g xs = Some y \<Longrightarrow> \<exists>x\<in>set xs. g x = Some y"
  by (induction xs) (auto split: option.splits)

lemma round_ratio_zero: "round_ratio s 0 d = FFin s 0 min_exp"
  by (simp add: round_ratio_def)

lemma shortest_decimal_value:
  assumes "is_double (FFin s m e)" and "shortest_decimal s m e = (c, k)"
  shows "decimal_float s c k = FFin s m e"
proof (cases "m = 0")
  case True
  then have "decimal_float s 0 k' = FFin s 0 min_exp" for k'
    by (simp add: decimal_float_def power_ratio_def round_ratio_zero)
  then show ?thesis
    using assms True by (auto simp: shortest_decimal_def is_double_def)
next
  case False
  show ?thesis
  proof (cases "first_some (shortest_at (FFin s m e) (fin_ratio m e) s) [1..<18]")
    case None
    then have "exact_decimal m e = (c, k)" using assms(2) False by (simp add: shortest_decimal_def)
    then show ?thesis using assms(1) by (simp add: exact_decimal_float)
  next
    case (Some ck)
    then have ck: "ck = (c, k)" using assms(2) False by (simp add: shortest_decimal_def)
    obtain n where "shortest_at (FFin s m e) (fin_ratio m e) s n = Some (c, k)"
      using first_some_Some [OF Some] ck by blast
    then show ?thesis by (auto simp: shortest_at_def Let_def split: prod.splits if_splits)
  qed
qed

lemma parse_format_float:
  assumes "is_double f"
  shows "parse_float (format_float f) = Some f"
proof (cases f)
  case FNaN
  have "parse_float ''NaN'' = Some FNaN" by code_simp
  with FNaN show ?thesis by simp
next
  case (FInf b)
  have "parse_float ''-Inf'' = Some (FInf True)" "parse_float ''+Inf'' = Some (FInf False)" by code_simp+
  with FInf show ?thesis by simp
next
  case (FFin s m e)
  obtain c k where ck: "shortest_decimal s m e = (c, k)" by (cases "shortest_decimal s m e")
  have "decimal_float s c k = FFin s m e" using assms FFin by (intro shortest_decimal_value [OF _ ck]) simp
  then show ?thesis using decimal_string_parse [of s c k m e] FFin ck by simp
qed

lemma parse_int_text:
  assumes "\<bar>i\<bar> < 2 ^ 64"
  shows "parse_float (int_digits i) = Some (round_ratio (i < 0) (nat \<bar>i\<bar>) 1)"
proof -
  have "nat \<bar>i\<bar> < 2 ^ 64" using assms by simp
  then obtain s m e where fin: "round_ratio (i < 0) (nat \<bar>i\<bar>) 1 = FFin s m e" using round_ratio_int by blast
  have "int_digits i = (if i < 0 then ''-'' else []) @ decimal_text (nat_digits (nat \<bar>i\<bar>)) []"
    by (simp add: int_digits_def decimal_text_def)
  moreover have "power_ratio (i < 0) (digits_val 0 (nat_digits (nat \<bar>i\<bar>) @ [])) 10 (- int (length ([] :: string))) =
      FFin s m e"
    using fin by (simp add: power_ratio_def digits_val_nat_digits)
  ultimately show ?thesis unfolding fin using parse_float_decimal [OF nat_digits_all, of "[]"] by simp
qed

end
