(* ===== verification/Go_Url.thy ===== *)
theory Go_Url
  imports Go_Strings
begin

text \<open>
  Parts of \<open>net/url\<close> and of the request multiplexer of \<open>net/http\<close>: \<open>QueryEscape\<close> and the
  lookup of a query parameter, which are inverse to each other, and \<open>ServeMux\<close> for patterns
  without method, host and wildcard, as far as two patterns never overlap.
\<close>

section \<open>Query escaping\<close>

definition byte_range :: "char \<Rightarrow> char \<Rightarrow> char \<Rightarrow> bool" where
  "byte_range lo hi c \<longleftrightarrow> lo \<le> c \<and> c \<le> hi"

definition unreserved :: "char \<Rightarrow> bool" where
  "unreserved c \<longleftrightarrow> byte_range CHR ''a'' CHR ''z'' c \<or> byte_range CHR ''A'' CHR ''Z'' c \<or> is_digit c \<or>
     c \<in> {CHR ''-'', CHR ''_'', CHR ''.'', CHR ''~''}"

definition hex_char :: "nat \<Rightarrow> char" where
  "hex_char n = ''0123456789ABCDEF'' ! n"

definition hex_value :: "char \<Rightarrow> nat option" where
  "hex_value c =
     (if is_digit c then Some (digit_val c)
      else if byte_range CHR ''a'' CHR ''f'' c then Some (of_char c - 97 + 10)
      else if byte_range CHR ''A'' CHR ''F'' c then Some (of_char c - 65 + 10)
      else None)"

definition escape_char :: "char \<Rightarrow> string" where
  "escape_char c =
     (if unreserved c then [c]
      else if c = CHR '' '' then ''+''
      else [CHR ''%'', hex_char (of_char c div 16), hex_char (of_char c mod 16)])"

definition query_escape :: "string \<Rightarrow> string" where
  "query_escape s = concat (map escape_char s)"

fun unescape :: "bool \<Rightarrow> string \<Rightarrow> string option" where
  \<comment> \<open>whether a plus is a space, as in a query\<close>
  "unescape sp [] = Some []"
| "unescape sp (c # cs) =
     (if c = CHR ''%'' then
        (case cs of
           a # b # rest \<Rightarrow>
             (case (hex_value a, hex_value b) of
                (Some h, Some l) \<Rightarrow> map_option ((#) (char_of (16 * h + l))) (unescape sp rest)
              | _ \<Rightarrow> None)
         | _ \<Rightarrow> None)
      else map_option ((#) (if sp \<and> c = CHR ''+'' then CHR '' '' else c)) (unescape sp cs))"

section \<open>The parameters of a query\<close>

definition cut_byte :: "char \<Rightarrow> string \<Rightarrow> string \<times> string" where
  \<comment> \<open>\<open>strings.Cut\<close> on one byte, without the flag\<close>
  "cut_byte c s = (case index_byte s c of Some i \<Rightarrow> (take i s, drop (Suc i) s) | None \<Rightarrow> (s, []))"

definition query_param :: "string \<Rightarrow> (string \<times> string) option" where
  "query_param kv =
     (if CHR '';'' \<in> set kv \<or> kv = [] then None
      else case cut_byte CHR ''='' kv of (k, v) \<Rightarrow>
        (case (unescape True k, unescape True v) of (Some k, Some v) \<Rightarrow> Some (k, v) | _ \<Rightarrow> None))"

definition query_get :: "string \<Rightarrow> string \<Rightarrow> string" where
  \<comment> \<open>\<open>URL.Query().Get(name)\<close>: malformed parameters are left out, the first of a name counts\<close>
  "query_get name query =
     (case map_of (List.map_filter query_param (split_byte CHR ''&'' query)) name of
        Some v \<Rightarrow> v
      | None \<Rightarrow> [])"

section \<open>Routing\<close>

definition clean_url_path :: "string \<Rightarrow> string" where
  "clean_url_path p =
     (if p = [] then ''/''
      else let p = (if has_prefix p ''/'' then p else CHR ''/'' # p); np = path_clean p
        in if last p = CHR ''/'' \<and> np \<noteq> ''/'' then np @ ''/'' else np)"

definition path_segments :: "string \<Rightarrow> string list" where
  "path_segments p = map (\<lambda>w. case unescape False w of Some v \<Rightarrow> v | None \<Rightarrow> w) (split_byte CHR ''/'' p)"

definition pattern_matches :: "string \<Rightarrow> string \<Rightarrow> bool" where
  \<comment> \<open>a pattern that ends in a slash stands for the subtree\<close>
  "pattern_matches pat p =
     (let ws = split_byte CHR ''/'' pat; vs = path_segments p in
      if last pat = CHR ''/'' then length ws \<le> length vs \<and> take (length ws - 1) vs = butlast ws
      else vs = ws)"

datatype 'h route = Found 'h | RedirectTo string | NotFound

definition mux_route :: "(string \<times> 'h) list \<Rightarrow> string \<Rightarrow> string \<Rightarrow> 'h route" where
  \<comment> \<open>the patterns with their handlers, the method and the escaped path\<close>
  "mux_route pats meth escaped =
     (let p = (if meth = ''CONNECT'' then escaped else clean_url_path escaped);
          handler = map_option snd (find (\<lambda>(pat, h). pattern_matches pat p) pats)
      in if Option.is_none handler \<and> p \<noteq> [] \<and> last p \<noteq> CHR ''/'' \<and>
           list_ex (\<lambda>(pat, h). last pat = CHR ''/'' \<and> split_byte CHR ''/'' pat = path_segments (p @ ''/'')) pats
         then RedirectTo (p @ ''/'')
         else if p \<noteq> escaped then RedirectTo p
         else case handler of None \<Rightarrow> NotFound | Some h \<Rightarrow> Found h)"

section \<open>Escaping is undone\<close>

lemma less_16_cases: "n < 16 \<Longrightarrow> n \<in> set [0..<16]" for n :: nat
  by simp

lemma hex_value_char: "n < 16 \<Longrightarrow> hex_value (hex_char n) = Some n"
proof -
  have "list_all (\<lambda>n. hex_value (hex_char n) = Some n) [0..<16]" by code_simp
  then show "n < 16 \<Longrightarrow> hex_value (hex_char n) = Some n" by (simp add: list_all_iff)
qed

lemma unreserved_chars: "unreserved c \<Longrightarrow> c \<notin> {CHR ''%'', CHR ''+'', CHR ''&'', CHR '';'', CHR ''='', CHR ''?'', CHR '' ''}"
  by (auto simp: unreserved_def byte_range_def is_digit_def less_eq_char_def)

lemma unescape_escape_char:
  "unescape True (escape_char c @ s) = map_option ((#) c) (unescape True s)"
proof (cases "unreserved c \<or> c = CHR '' ''")
  case True
  then show ?thesis using unreserved_chars [of c] by (auto simp: escape_char_def)
next
  case False
  have "(of_char c :: nat) < 256" by (rule nat_of_char_less_256)
  then show ?thesis using False by (simp add: escape_char_def hex_value_char less_mult_imp_div_less)
qed

lemma unescape_escape: "unescape True (query_escape s) = Some s"
  by (induction s) (simp_all add: query_escape_def unescape_escape_char)

lemma query_escape_chars: "c \<in> set (query_escape s) \<Longrightarrow> c \<notin> {CHR ''&'', CHR '';'', CHR ''='', CHR ''?''}"
proof -
  have hex: "list_all (\<lambda>n. hex_char n \<notin> {CHR ''&'', CHR '';'', CHR ''='', CHR ''?''}) [0..<16]" by code_simp
  have "(of_char d :: nat) < 256" for d by (rule nat_of_char_less_256)
  then have "hex_char (of_char d div 16) \<notin> {CHR ''&'', CHR '';'', CHR ''='', CHR ''?''}"
    "hex_char (of_char d mod 16) \<notin> {CHR ''&'', CHR '';'', CHR ''='', CHR ''?''}" for d
    using hex by (simp_all add: list_all_iff less_mult_imp_div_less)
  then show "c \<in> set (query_escape s) \<Longrightarrow> c \<notin> {CHR ''&'', CHR '';'', CHR ''='', CHR ''?''}"
    using unreserved_chars by (fastforce simp: query_escape_def escape_char_def split: if_splits)
qed

lemma cut_byte_append: "c \<notin> set w \<Longrightarrow> cut_byte c (w @ c # s) = (w, s)"
  by (simp add: cut_byte_def index_byte_append)

text \<open>Slashes before an absolute path are cleaned away.\<close>

lemma path_clean_slashes: "path_clean (replicate n CHR ''/'' @ CHR ''/'' # s) = path_clean (CHR ''/'' # s)"
proof -
  have "split_byte CHR ''/'' (replicate n CHR ''/'' @ t) = replicate n [] @ split_byte CHR ''/'' t" for t
    by (induction n) simp_all
  moreover have "fold (clean_step True) (replicate n []) acc = acc" for acc by (induction n) simp_all
  moreover have "has_prefix (replicate n CHR ''/'' @ CHR ''/'' # t) ''/''" for t by (cases n) simp_all
  moreover have "has_prefix (CHR ''/'' # s) ''/''" by simp
  ultimately show ?thesis by (simp add: path_clean_def del: has_prefix_Cons)
qed

lemma clean_url_path_slashes:
  "clean_url_path (replicate n CHR ''/'' @ CHR ''/'' # s) = clean_url_path (CHR ''/'' # s)"
proof -
  have "has_prefix (replicate n CHR ''/'' @ CHR ''/'' # s) ''/''" by (cases n) simp_all
  then show ?thesis by (simp add: clean_url_path_def path_clean_slashes Let_def)
qed

text \<open>A parameter that a client escaped is the one the handler sees.\<close>

lemma query_get_path: "query_get ''path'' (''path='' @ query_escape s) = s"
proof -
  have "CHR ''&'' \<notin> set (''path='' @ query_escape s)" "CHR '';'' \<notin> set (''path='' @ query_escape s)"
    using query_escape_chars by fastforce+
  moreover have "cut_byte CHR ''='' (''path'' @ CHR ''='' # query_escape s) = (''path'', query_escape s)"
    by (rule cut_byte_append) simp
  ultimately show ?thesis
    by (simp add: query_get_def query_param_def unescape_escape map_filter_simps)
qed

end
