(* ===== verification/Go_Http.thy ===== *)
theory Go_Http
  imports Go_Url
begin

text \<open>
  The parts of \<open>net/http\<close> the handlers use: requests and responses as records, the error
  reply of \<open>http.Error\<close>, a body read through \<open>MaxBytesReader\<close>, a multiplexer over
  the routing of \<open>Go_Url\<close>, and a client that follows its redirects.
\<close>

record http_request =
  req_method :: string
  req_ctype :: string          \<comment> \<open>the \<open>Content-Type\<close> header\<close>
  req_body :: string           \<comment> \<open>the bytes that arrive\<close>
  req_broken :: "string option" \<comment> \<open>the error the body ends with, if it does\<close>

record http_response =
  res_status :: nat
  res_ctype :: string
  res_body :: string

definition status_ok :: nat where "status_ok = 200"
definition status_bad_request :: nat where "status_bad_request = 400"
definition status_not_found :: nat where "status_not_found = 404"
definition status_method_not_allowed :: nat where "status_method_not_allowed = 405"
definition status_unsupported_media_type :: nat where "status_unsupported_media_type = 415"
definition status_internal_error :: nat where "status_internal_error = 500"

lemmas http_status_defs = status_ok_def status_bad_request_def status_not_found_def
  status_method_not_allowed_def status_unsupported_media_type_def status_internal_error_def

definition http_error :: "string \<Rightarrow> nat \<Rightarrow> http_response" where
  "http_error msg code =
     \<lparr>res_status = code, res_ctype = ''text/plain; charset=utf-8'', res_body = msg @ [CHR 0x0A]\<rparr>"

definition read_limited :: "nat \<Rightarrow> http_request \<Rightarrow> string + string" where
  "read_limited limit req =
     (if length (req_body req) > limit then Inl ''http: request body too large''
      else case req_broken req of Some e \<Rightarrow> Inl e | None \<Rightarrow> Inr (req_body req))"

section \<open>Handlers\<close>

record url_request =
  ur_path :: string            \<comment> \<open>the path of the URL, escaped\<close>
  ur_query :: string
  ur_http :: http_request

datatype http_reply = Answer http_response | Redirected string  \<comment> \<open>301 to a path, with the query of the request\<close>

type_synonym 's handler = "url_request \<Rightarrow> 's \<Rightarrow> (http_reply \<times> 's) option"  \<comment> \<open>None is a panic\<close>

definition not_found_page :: http_response where
  "not_found_page = http_error ''404 page not found'' status_not_found"

definition serve_mux :: "(string \<times> 's handler) list \<Rightarrow> 's handler" where
  "serve_mux pats r st =
     (case mux_route pats (req_method (ur_http r)) (ur_path r) of
        Found h \<Rightarrow> h r st
      | RedirectTo p \<Rightarrow> Some (Redirected p, st)
      | NotFound \<Rightarrow> Some (Answer not_found_page, st))"

lemma mux_route_Found: "mux_route pats m p = Found h \<Longrightarrow> h \<in> snd ` set pats"
proof -
  assume "mux_route pats m p = Found h"
  then have "map_option snd (find (\<lambda>(pat, h). pattern_matches pat
      (if m = ''CONNECT'' then p else clean_url_path p)) pats) = Some h"
    unfolding mux_route_def Let_def by (simp split: if_splits option.splits) (metis prod.collapse)+
  then obtain q x where "find (\<lambda>(pat, h). pattern_matches pat q) pats = Some x" "snd x = h" by auto
  then show "h \<in> snd ` set pats" by (metis find_Some_iff image_eqI nth_mem)
qed

text \<open>A multiplexer without effect of its own: what holds of its handlers holds of it.\<close>

lemma serve_mux_cases:
  assumes "\<And>pat h. (pat, h) \<in> set pats \<Longrightarrow> P (h r st)" and "\<And>reply. P (Some (reply, st))"
  shows "P (serve_mux pats r st)"
proof (cases "mux_route pats (req_method (ur_http r)) (ur_path r)")
  case (Found h)
  with assms(1) mux_route_Found [OF Found] show ?thesis by (auto simp: serve_mux_def)
qed (use assms(2) in \<open>simp_all add: serve_mux_def\<close>)

section \<open>Clients\<close>

fun http_follow :: "nat \<Rightarrow> (url_request \<Rightarrow> http_reply option) \<Rightarrow> url_request \<Rightarrow> http_response option" where
  \<comment> \<open>at most \<open>n\<close> requests; None when the exchange fails\<close>
  "http_follow 0 exchange r = None"
| "http_follow (Suc n) exchange r =
     (case exchange r of
        None \<Rightarrow> None
      | Some (Answer res) \<Rightarrow> Some res
      | Some (Redirected p) \<Rightarrow> http_follow n exchange (r\<lparr>ur_path := p\<rparr>))"

definition get_request :: http_request where
  "get_request = \<lparr>req_method = ''GET'', req_ctype = [], req_body = [], req_broken = None\<rparr>"

definition http_get :: "(url_request \<Rightarrow> http_reply option) \<Rightarrow> string \<Rightarrow> http_response option" where
  \<comment> \<open>\<open>rest\<close> is the URL after its host; a client gives up after ten redirects\<close>
  "http_get exchange rest =
     (case cut_byte CHR ''?'' rest of
        (p, query) \<Rightarrow> http_follow 10 exchange \<lparr>ur_path = p, ur_query = query, ur_http = get_request\<rparr>)"

lemma http_error_status [simp]: "res_status (http_error msg code) = code"
  by (simp add: http_error_def)

end
