(* ===== verification/Otlp.thy ===== *)
theory Otlp
  imports Domain Float_Text Go_Http
begin

text \<open>
  \<open>internal/adapter/otlp/receiver.go\<close>: decoding OTLP export requests into samples. The message
  types are the ones of the OTLP protocol, as far as the receiver reads them; a field that may be
  unset is an option. The sink and the clock are parameters over a state of their own: the theorem
  about them fixes the samples and their order. Decoding and encoding of messages (protobuf and its
  JSON form) are parameters of \<open>serve\<close>.
\<close>

section \<open>Messages\<close>

datatype 'o any_value =
    StringValue string | BoolValue bool | IntValue "64 word" | DoubleValue float64
  | OtherValue 'o  \<comment> \<open>arrays, maps, bytes\<close>
  | NoValue

record 'o key_value =
  kv_key :: string
  kv_value :: "'o any_value option"

type_synonym 'o resource = "'o key_value list"

datatype number = AsInt "64 word" | AsDouble float64 | NoNumber

record number_point =
  np_time :: "64 word"
  np_value :: number

record histogram_point =
  hp_time :: "64 word"
  hp_count :: "64 word"
  hp_sum :: "float64 option"

datatype metric_data = Metric_Gauge "number_point list" | Metric_Sum "number_point list"
  | Metric_Histogram "histogram_point list" | Metric_Other

record metric =
  met_name :: string
  met_unit :: string
  met_data :: metric_data

record 'o resource_metrics =
  rm_resource :: "'o resource option"
  rm_scopes :: "metric list list"

record 'o log_record =
  lr_time :: "64 word"
  lr_observed :: "64 word"
  lr_number :: int       \<comment> \<open>an open enum, any int32\<close>
  lr_text :: string
  lr_body :: "'o any_value option"

record 'o scope_logs =
  sl_scope :: "string option"   \<comment> \<open>the name of the scope, if it is set\<close>
  sl_records :: "'o log_record list"

record 'o resource_logs =
  rs_resource :: "'o resource option"
  rs_scopes :: "'o scope_logs list"

section \<open>Rendering\<close>

definition string_of_value :: "'o any_value option \<Rightarrow> string" where
  \<comment> \<open>\<open>GetStringValue\<close>: empty for every other kind\<close>
  "string_of_value v = (case v of Some (StringValue s) \<Rightarrow> s | _ \<Rightarrow> [])"

definition default_namespace :: string where "default_namespace = ''default''"
definition default_service :: string where "default_service = ''unknown''"
definition default_log_stream :: string where "default_log_stream = ''default''"

fun identity_loop :: "'o key_value list \<Rightarrow> string \<times> string \<Rightarrow> string \<times> string" where
  "identity_loop [] acc = acc"
| "identity_loop (kv # kvs) (ns, svc) =
     identity_loop kvs
       (if kv_key kv = ''service.namespace'' then (string_of_value (kv_value kv), svc)
        else if kv_key kv = ''service.name'' then (ns, string_of_value (kv_value kv))
        else (ns, svc))"

definition identity :: "'o resource option \<Rightarrow> string \<times> string" where
  "identity res =
     identity_loop (case res of None \<Rightarrow> [] | Some attrs \<Rightarrow> attrs) (default_namespace, default_service)"

definition severity :: "'o log_record \<Rightarrow> string" where
  "severity lr =
     (if lr_text lr \<noteq> [] then lr_text lr
      else let n = lr_number lr in
        if n = 0 then ''UNSET''
        else if n \<le> 4 then ''TRACE''
        else if n \<le> 8 then ''DEBUG''
        else if n \<le> 12 then ''INFO''
        else if n \<le> 16 then ''WARN''
        else if n \<le> 20 then ''ERROR''
        else ''FATAL'')"

fun any_value_string :: "('o \<Rightarrow> string) \<Rightarrow> 'o any_value option \<Rightarrow> string" where
  \<comment> \<open>\<open>js\<close> stands for \<open>protojson.Marshal\<close>\<close>
  "any_value_string js (Some (StringValue s)) = s"
| "any_value_string js (Some (IntValue i)) = int_digits (sint i)"
| "any_value_string js (Some (DoubleValue f)) = format_float f"
| "any_value_string js (Some (BoolValue b)) = (if b then ''true'' else ''false'')"
| "any_value_string js (Some NoValue) = []"
| "any_value_string js None = []"
| "any_value_string js (Some (OtherValue v)) = js v"

section \<open>The receiver\<close>

type_synonym 's sink = "stream_id \<Rightarrow> sample \<Rightarrow> 's \<Rightarrow> 's"
type_synonym 's clock = "'s \<Rightarrow> time \<times> 's"

definition stamp :: "'s clock \<Rightarrow> 64 word \<Rightarrow> 's \<Rightarrow> time \<times> 's" where
  "stamp now nanos st = (if nanos = 0 then now st else (time_unix_nano nanos, st))"

definition log_stamp :: "'s clock \<Rightarrow> 'o log_record \<Rightarrow> 's \<Rightarrow> time \<times> 's" where
  "log_stamp now lr st =
     (if lr_time lr \<noteq> 0 then stamp now (lr_time lr) st else stamp now (lr_observed lr) st)"

fun numbers_loop :: "'s sink \<Rightarrow> 's clock \<Rightarrow> stream_id \<Rightarrow> string \<Rightarrow> number_point list \<Rightarrow> 's \<Rightarrow> 's" where
  "numbers_loop ingest now i unit [] st = st"
| "numbers_loop ingest now i unit (dp # dps) st =
     (case (case np_value dp of
              AsInt v \<Rightarrow> Some (int_digits (sint v))
            | AsDouble f \<Rightarrow> Some (format_float f)
            | NoNumber \<Rightarrow> None) of
        None \<Rightarrow> numbers_loop ingest now i unit dps st
      | Some v \<Rightarrow>
          (case stamp now (np_time dp) st of (t, st) \<Rightarrow>
             numbers_loop ingest now i unit dps
               (ingest i \<lparr>smp_time = t, smp_value = v, smp_unit = unit\<rparr> st)))"

fun histogram_loop :: "'s sink \<Rightarrow> 's clock \<Rightarrow> (string \<Rightarrow> stream_id) \<Rightarrow> string \<Rightarrow> string \<Rightarrow> histogram_point list \<Rightarrow> 's \<Rightarrow> 's" where
  "histogram_loop ingest now ident name unit [] st = st"
| "histogram_loop ingest now ident name unit (dp # dps) st =
     (case stamp now (hp_time dp) st of (t, st) \<Rightarrow>
        let st = ingest (ident (name @ ''.count''))
                   \<lparr>smp_time = t, smp_value = nat_digits (unat (hp_count dp)), smp_unit = ''1''\<rparr> st;
            st = (case hp_sum dp of
                    None \<Rightarrow> st
                  | Some f \<Rightarrow> ingest (ident (name @ ''.sum''))
                      \<lparr>smp_time = t, smp_value = format_float f, smp_unit = unit\<rparr> st)
        in histogram_loop ingest now ident name unit dps st)"

definition receive_metric :: "'s sink \<Rightarrow> 's clock \<Rightarrow> string \<Rightarrow> string \<Rightarrow> metric \<Rightarrow> 's \<Rightarrow> 's" where
  "receive_metric ingest now ns svc m st =
     (let ident = (\<lambda>name. \<lparr>sid_namespace = ns, sid_service = svc, sid_kind = Metrics, sid_name = name\<rparr>) in
      case met_data m of
        Metric_Gauge dps \<Rightarrow> numbers_loop ingest now (ident (met_name m)) (met_unit m) dps st
      | Metric_Sum dps \<Rightarrow> numbers_loop ingest now (ident (met_name m)) (met_unit m) dps st
      | Metric_Histogram dps \<Rightarrow> histogram_loop ingest now ident (met_name m) (met_unit m) dps st
      | Metric_Other \<Rightarrow> st)"

definition receive_metrics :: "'s sink \<Rightarrow> 's clock \<Rightarrow> 'o resource_metrics list \<Rightarrow> 's \<Rightarrow> 's" where
  "receive_metrics ingest now rms st =
     fold (\<lambda>rm st. case identity (rm_resource rm) of (ns, svc) \<Rightarrow>
       fold (\<lambda>ms st. fold (receive_metric ingest now ns svc) ms st) (rm_scopes rm) st) rms st"

definition log_line :: "('o \<Rightarrow> string) \<Rightarrow> 'o log_record \<Rightarrow> string" where
  "log_line js lr = severity lr @ '' '' @ any_value_string js (lr_body lr)"

fun records_loop :: "'s sink \<Rightarrow> 's clock \<Rightarrow> ('o \<Rightarrow> string) \<Rightarrow> stream_id \<Rightarrow> 'o log_record list \<Rightarrow> 's \<Rightarrow> 's" where
  "records_loop ingest now js i [] st = st"
| "records_loop ingest now js i (lr # lrs) st =
     (case log_stamp now lr st of (t, st) \<Rightarrow>
        records_loop ingest now js i lrs
          (ingest i \<lparr>smp_time = t, smp_value = log_line js lr, smp_unit = []\<rparr> st))"

definition scope_stream :: "'o scope_logs \<Rightarrow> string" where
  "scope_stream sl =
     (let name = (case sl_scope sl of None \<Rightarrow> [] | Some n \<Rightarrow> n)
      in if name = [] then default_log_stream else name)"

definition receive_logs :: "'s sink \<Rightarrow> 's clock \<Rightarrow> ('o \<Rightarrow> string) \<Rightarrow> 'o resource_logs list \<Rightarrow> 's \<Rightarrow> 's" where
  "receive_logs ingest now js rls st =
     fold (\<lambda>rl st. case identity (rs_resource rl) of (ns, svc) \<Rightarrow>
       fold (\<lambda>sl st. records_loop ingest now js
           \<lparr>sid_namespace = ns, sid_service = svc, sid_kind = Logs, sid_name = scope_stream sl\<rparr> (sl_records sl) st)
         (rs_scopes rl) st) rls st"

section \<open>The HTTP handler\<close>

definition ct_proto :: string where "ct_proto = ''application/x-protobuf''"
definition ct_json :: string where "ct_json = ''application/json''"
definition max_body :: nat where "max_body = 16 * 2 ^ 20"

definition media_type :: "string \<Rightarrow> string" where
  "media_type ctype =
     (case index_byte ctype CHR '';'' of
        None \<Rightarrow> ctype
      | Some i \<Rightarrow> trim_space (take i ctype))"

definition serve :: "(string \<Rightarrow> string + 'm) \<Rightarrow> (string \<Rightarrow> string + 'm) \<Rightarrow> string \<Rightarrow> string \<Rightarrow>
    http_request \<Rightarrow> ('m \<Rightarrow> 's \<Rightarrow> 's) \<Rightarrow> 's \<Rightarrow> http_response \<times> 's" where
  \<comment> \<open>decoders for the two encodings, and the encoded empty reply of each\<close>
  "serve of_proto of_json proto_reply json_reply req handle st =
     (if req_method req \<noteq> ''POST'' then
        (http_error ''method not allowed'' status_method_not_allowed, st)
      else
        let ctype = media_type (req_ctype req) in
        if ctype \<noteq> ct_proto \<and> ctype \<noteq> ct_json then
          (http_error ''unsupported content type'' status_unsupported_media_type, st)
        else
          let unmarshal = (if ctype = ct_proto then of_proto else of_json);
              reply = (if ctype = ct_proto then proto_reply else json_reply) in
          case read_limited max_body req of
            Inl e \<Rightarrow> (http_error e status_bad_request, st)
          | Inr body \<Rightarrow>
              (case unmarshal body of
                 Inl e \<Rightarrow> (http_error e status_bad_request, st)
               | Inr m \<Rightarrow>
                   (\<lparr>res_status = status_ok, res_ctype = ctype, res_body = reply\<rparr>, handle m st)))"

section \<open>Reference: the samples of a request\<close>

text \<open>
  What a request stands for, as a plain list: the samples in the order of the message, those
  without a time stamped with the moment \<open>t\<close> the clock shows.
\<close>

type_synonym samples = "(stream_id \<times> sample) list"

definition point_time :: "time \<Rightarrow> 64 word \<Rightarrow> time" where
  "point_time t nanos = (if nanos = 0 then t else time_unix_nano nanos)"

fun number_text :: "number \<Rightarrow> string option" where
  "number_text (AsInt v) = Some (int_digits (sint v))"
| "number_text (AsDouble f) = Some (format_float f)"
| "number_text NoNumber = None"

definition number_samples :: "time \<Rightarrow> stream_id \<Rightarrow> string \<Rightarrow> number_point list \<Rightarrow> samples" where
  "number_samples t i unit dps = List.map_filter (\<lambda>dp. map_option (\<lambda>v.
     (i, \<lparr>smp_time = point_time t (np_time dp), smp_value = v, smp_unit = unit\<rparr>)) (number_text (np_value dp))) dps"

definition histogram_samples :: "time \<Rightarrow> (string \<Rightarrow> stream_id) \<Rightarrow> string \<Rightarrow> string \<Rightarrow> histogram_point list \<Rightarrow> samples" where
  "histogram_samples t ident name unit dps = concat (map (\<lambda>dp.
     (ident (name @ ''.count''),
        \<lparr>smp_time = point_time t (hp_time dp), smp_value = nat_digits (unat (hp_count dp)), smp_unit = ''1''\<rparr>) #
     (case hp_sum dp of None \<Rightarrow> []
      | Some f \<Rightarrow> [(ident (name @ ''.sum''),
          \<lparr>smp_time = point_time t (hp_time dp), smp_value = format_float f, smp_unit = unit\<rparr>)])) dps)"

definition metric_samples :: "time \<Rightarrow> string \<Rightarrow> string \<Rightarrow> metric \<Rightarrow> samples" where
  "metric_samples t ns svc m =
     (let ident = (\<lambda>name. \<lparr>sid_namespace = ns, sid_service = svc, sid_kind = Metrics, sid_name = name\<rparr>) in
      case met_data m of
        Metric_Gauge dps \<Rightarrow> number_samples t (ident (met_name m)) (met_unit m) dps
      | Metric_Sum dps \<Rightarrow> number_samples t (ident (met_name m)) (met_unit m) dps
      | Metric_Histogram dps \<Rightarrow> histogram_samples t ident (met_name m) (met_unit m) dps
      | Metric_Other \<Rightarrow> [])"

definition metrics_samples :: "time \<Rightarrow> 'o resource_metrics list \<Rightarrow> samples" where
  "metrics_samples t rms = concat (map (\<lambda>rm. case identity (rm_resource rm) of (ns, svc) \<Rightarrow>
     concat (map (metric_samples t ns svc) (concat (rm_scopes rm)))) rms)"

definition record_sample :: "time \<Rightarrow> ('o \<Rightarrow> string) \<Rightarrow> 'o log_record \<Rightarrow> sample" where
  "record_sample t js lr =
     \<lparr>smp_time = (if lr_time lr \<noteq> 0 then time_unix_nano (lr_time lr) else point_time t (lr_observed lr)),
      smp_value = log_line js lr, smp_unit = []\<rparr>"

definition logs_samples :: "time \<Rightarrow> ('o \<Rightarrow> string) \<Rightarrow> 'o resource_logs list \<Rightarrow> samples" where
  "logs_samples t js rls = concat (map (\<lambda>rl. case identity (rs_resource rl) of (ns, svc) \<Rightarrow>
     concat (map (\<lambda>sl. map (\<lambda>lr.
       (\<lparr>sid_namespace = ns, sid_service = svc, sid_kind = Logs, sid_name = scope_stream sl\<rparr>,
        record_sample t js lr)) (sl_records sl)) (rs_scopes rl))) rls)"

definition ingest_samples :: "'s sink \<Rightarrow> samples \<Rightarrow> 's \<Rightarrow> 's" where
  "ingest_samples ingest xs st = fold (\<lambda>(i, s) st. ingest i s st) xs st"

lemma ingest_samples_simps [simp]:
  "ingest_samples ingest [] st = st"
  "ingest_samples ingest ((i, s) # xs) st = ingest_samples ingest xs (ingest i s st)"
  "ingest_samples ingest (xs @ ys) st = ingest_samples ingest ys (ingest_samples ingest xs st)"
  by (simp_all add: ingest_samples_def)

lemma ingest_samples_concat:
  "(\<And>x st. f x st = ingest_samples ingest (g x) st) \<Longrightarrow>
    fold f xs st = ingest_samples ingest (concat (map g xs)) st"
  by (induction xs arbitrary: st) auto

lemma concat_map_concat: "concat (map f (concat xss)) = concat (map (\<lambda>xs. concat (map f xs)) xss)"
  by (induction xss) auto

text \<open>A sink with a clock that stands still while one request is handled.\<close>

locale still_clock =
  fixes ingest :: "'s sink"
    and now :: "'s clock"
    and t :: time
  assumes now_still: "now st = (t, st)"
begin

lemma stamp_eq: "stamp now nanos st = (point_time t nanos, st)"
  by (simp add: stamp_def point_time_def now_still)

lemma numbers_eq: "numbers_loop ingest now i unit dps st = ingest_samples ingest (number_samples t i unit dps) st"
proof (induction dps arbitrary: st)
  case Nil
  then show ?case by (simp add: number_samples_def map_filter_simps)
next
  case (Cons dp dps)
  then show ?case
    by (cases "np_value dp") (simp_all add: number_samples_def map_filter_simps stamp_eq)
qed

lemma histogram_eq:
  "histogram_loop ingest now ident name unit dps st =
    ingest_samples ingest (histogram_samples t ident name unit dps) st"
proof (induction dps arbitrary: st)
  case Nil
  then show ?case by (simp add: histogram_samples_def)
next
  case (Cons dp dps)
  then show ?case
    by (cases "hp_sum dp") (simp_all add: histogram_samples_def stamp_eq Let_def)
qed

lemma metric_eq: "receive_metric ingest now ns svc m st = ingest_samples ingest (metric_samples t ns svc m) st"
  by (simp add: receive_metric_def metric_samples_def Let_def numbers_eq histogram_eq split: metric_data.splits)

lemma metrics_eq: "receive_metrics ingest now rms st = ingest_samples ingest (metrics_samples t rms) st"
proof -
  have scopes: "fold (\<lambda>ms st. fold (receive_metric ingest now ns svc) ms st) mss st =
      ingest_samples ingest (concat (map (metric_samples t ns svc) (concat mss))) st" for ns svc mss st
  proof -
    have "fold (\<lambda>ms st. fold (receive_metric ingest now ns svc) ms st) mss st =
        ingest_samples ingest (concat (map (\<lambda>ms. concat (map (metric_samples t ns svc) ms)) mss)) st"
      by (intro ingest_samples_concat metric_eq)
    then show ?thesis by (simp add: concat_map_concat)
  qed
  show ?thesis
    unfolding receive_metrics_def metrics_samples_def
    by (intro ingest_samples_concat) (simp add: scopes split: prod.splits)
qed

lemma records_eq:
  "records_loop ingest now js i lrs st = ingest_samples ingest (map (\<lambda>lr. (i, record_sample t js lr)) lrs) st"
  by (induction lrs arbitrary: st)
    (auto simp: log_stamp_def stamp_eq record_sample_def point_time_def)

lemma logs_eq: "receive_logs ingest now js rls st = ingest_samples ingest (logs_samples t js rls) st"
  unfolding receive_logs_def logs_samples_def
  by (intro ingest_samples_concat) (simp split: prod.splits, intro allI impI ingest_samples_concat records_eq)

end

text \<open>The sink that collects what it is given, with the clock at the zero Time.\<close>

interpretation collect: still_clock "\<lambda>i s xs. xs @ [(i, s)]" "Pair 0" 0
  by unfold_locales simp

lemma pair_clock: "still_clock (Pair t) t"
  by unfold_locales simp

section \<open>Values\<close>

text \<open>The numbers a metric reports, in the order of its points.\<close>

fun number_value :: "number \<Rightarrow> float64 option" where
  "number_value (AsInt v) = Some (round_ratio (sint v < 0) (nat \<bar>sint v\<bar>) 1)"
| "number_value (AsDouble f) = Some f"
| "number_value NoNumber = None"

definition metric_values :: "metric \<Rightarrow> float64 list" where
  "metric_values m =
     (case met_data m of
        Metric_Gauge dps \<Rightarrow> List.map_filter (\<lambda>dp. number_value (np_value dp)) dps
      | Metric_Sum dps \<Rightarrow> List.map_filter (\<lambda>dp. number_value (np_value dp)) dps
      | Metric_Histogram dps \<Rightarrow> concat (map (\<lambda>dp. round_ratio False (unat (hp_count dp)) 1 #
          (case hp_sum dp of None \<Rightarrow> [] | Some f \<Rightarrow> [f])) dps)
      | Metric_Other \<Rightarrow> [])"

definition metric_doubles :: "metric \<Rightarrow> bool" where
  \<comment> \<open>every double of the message is one\<close>
  "metric_doubles m \<longleftrightarrow> list_all is_double (metric_values m)"

lemma sample_texts_gauge:
  assumes "list_all is_double (List.map_filter (\<lambda>dp. number_value (np_value dp)) dps)"
  shows "map (\<lambda>(i, s). parse_float (smp_value s)) (number_samples t i unit dps) =
    map Some (List.map_filter (\<lambda>dp. number_value (np_value dp)) dps)"
  using assms
proof (induction dps)
  case Nil
  then show ?case by (simp add: number_samples_def map_filter_simps)
next
  case (Cons dp dps)
  have "\<bar>sint v\<bar> < 2 ^ 64" for v :: "64 word" using sint_greater_eq [of v] sint_less [of v] by simp
  then show ?case using Cons
    by (cases "np_value dp") (simp_all add: number_samples_def map_filter_simps parse_format_float parse_int_text)
qed

lemma parse_count_text: "parse_float (nat_digits (unat (w :: 64 word))) = Some (round_ratio False (unat w) 1)"
proof -
  have "\<bar>int (unat w)\<bar> < 2 ^ 64" using uint_bounded [of w] by simp
  from parse_int_text [OF this] show ?thesis by (simp add: int_digits_def)
qed

lemma sample_texts_histogram:
  assumes "list_all is_double (concat (map (\<lambda>dp. round_ratio False (unat (hp_count dp)) 1 #
      (case hp_sum dp of None \<Rightarrow> [] | Some f \<Rightarrow> [f])) dps))"
  shows "map (\<lambda>(i, s). parse_float (smp_value s)) (histogram_samples t ident name unit dps) =
    map Some (concat (map (\<lambda>dp. round_ratio False (unat (hp_count dp)) 1 #
      (case hp_sum dp of None \<Rightarrow> [] | Some f \<Rightarrow> [f])) dps))"
  using assms
  by (induction dps) (auto simp: histogram_samples_def parse_count_text parse_format_float split: option.splits)

lemma collect_all: "ingest_samples (\<lambda>i s xs. xs @ [(i, s)]) ys zs = zs @ ys"
  by (induction ys arbitrary: zs) auto

section \<open>Resource attributes\<close>

definition last_attribute :: "string \<Rightarrow> string \<Rightarrow> 'o key_value list \<Rightarrow> string" where
  "last_attribute key dflt attrs =
     (case rev (filter (\<lambda>kv. kv_key kv = key) attrs) of
        [] \<Rightarrow> dflt
      | kv # _ \<Rightarrow> string_of_value (kv_value kv))"

lemma last_attribute_Cons:
  "last_attribute key d (kv # kvs) =
    last_attribute key (if kv_key kv = key then string_of_value (kv_value kv) else d) kvs"
  by (cases "rev (filter (\<lambda>kv. kv_key kv = key) kvs)") (auto simp: last_attribute_def)

lemma identity_loop_eq:
  "identity_loop kvs (ns, svc) =
    (last_attribute ''service.namespace'' ns kvs, last_attribute ''service.name'' svc kvs)"
proof (induction kvs arbitrary: ns svc)
  case Nil
  then show ?case by (simp add: last_attribute_def)
next
  case (Cons kv kvs)
  then show ?case by (simp add: last_attribute_Cons)
qed

section \<open>Properties\<close>


definition demo_request :: "unit resource_metrics list" where
  "demo_request = [\<lparr>rm_resource = Some [\<lparr>kv_key = ''service.name'', kv_value = Some (StringValue ''api'')\<rparr>],
     rm_scopes = [[\<lparr>met_name = ''m'', met_unit = ''By'', met_data = Metric_Gauge
       [\<lparr>np_time = 0, np_value = AsInt 7\<rparr>, \<lparr>np_time = 0, np_value = NoNumber\<rparr>]\<rparr>]]\<rparr>]"


text \<open>
  The namespace and service of a resource are the string values of the last
  \<open>service.namespace\<close> and \<open>service.name\<close> attributes; the defaults \<open>default\<close> and
  \<open>unknown\<close> stand in only if the attribute is missing. An attribute that is present but empty,
  or not a string, yields the empty name.
\<close>

theorem resource_identity:
  "identity None = (''default'', ''unknown'') \<and>
   identity (Some attrs) =
     (last_attribute ''service.namespace'' ''default'' attrs, last_attribute ''service.name'' ''unknown'' attrs) \<and>
   identity (Some (attrs @ [\<lparr>kv_key = ''service.name'', kv_value = Some (StringValue [])\<rparr>])) =
     (last_attribute ''service.namespace'' ''default'' attrs, [])"
  by (simp add: identity_def identity_loop_eq last_attribute_def default_namespace_def default_service_def
    string_of_value_def)

text \<open>
  C38: A request reaches the sink only when it is accepted with status 200: a POST of one of the
  two content types (parameters after a semicolon ignored) whose body arrives whole, within 16 MiB,
  and decodes. Otherwise the sink is untouched and the status is 405, 415 or 400, in that order of
  precedence.
\<close>

definition decoder :: "(string \<Rightarrow> string + 'm) \<Rightarrow> (string \<Rightarrow> string + 'm) \<Rightarrow> string \<Rightarrow> string \<Rightarrow> string + 'm" where
  "decoder of_proto of_json ctype = (if ctype = ct_proto then of_proto else of_json)"


text \<open>
  C17: The text a number is stored as loses nothing: parsing the values of the samples of a metric, as
  the alert rules do, gives in their order the doubles of its points unchanged, and for integers and
  histogram counts the double nearest to them.
\<close>

theorem values_survive_as_text:
  assumes "metric_doubles m"
  shows "map (\<lambda>(i, s). parse_float (smp_value s)) (receive_metric (\<lambda>i s xs. xs @ [(i, s)]) (Pair t) ns svc m []) =
    map Some (metric_values m)"
  using assms
  by (cases "met_data m")
    (simp_all add: still_clock.metric_eq [OF pair_clock] collect_all metric_samples_def metric_values_def
      metric_doubles_def sample_texts_gauge sample_texts_histogram Let_def)

theorem values_survive_as_text_witness:
  "map (\<lambda>(i, s). parse_float (smp_value s)) (receive_metric (\<lambda>i s xs. xs @ [(i, s)]) (Pair 5) ''iam'' ''api''
      \<lparr>met_name = ''m'', met_unit = [], met_data = Metric_Gauge [\<lparr>np_time = 0, np_value = AsDouble (FInf True)\<rparr>,
        \<lparr>np_time = 0, np_value = NoNumber\<rparr>, \<lparr>np_time = 0, np_value = AsDouble (FFin False (2 ^ 52) (- 53))\<rparr>]\<rparr> []) =
    [Some (FInf True), Some (FFin False (2 ^ 52) (- 53))]"
  by (subst values_survive_as_text)
    (simp_all add: metric_doubles_def metric_values_def map_filter_simps is_double_def min_exp_def max_exp_def)

end
