(* ===== verification/Otlp_Http.thy ===== *)
theory Otlp_Http
  imports Otlp
begin

text \<open>
  \<open>NewHandler\<close> of \<open>internal/adapter/otlp/receiver.go\<close>: the multiplexer with the two
  endpoints, over a sink that may panic. What a request hands the sink is written as a list of
  samples, \<open>request_samples\<close>.
\<close>

section \<open>The handler\<close>

record 'o otlp_codec =
  oc_metrics :: "string \<Rightarrow> string + 'o resource_metrics list"
  oc_metrics_json :: "string \<Rightarrow> string + 'o resource_metrics list"
  oc_logs :: "string \<Rightarrow> string + 'o resource_logs list"
  oc_logs_json :: "string \<Rightarrow> string + 'o resource_logs list"
  oc_reply :: string         \<comment> \<open>an empty message, encoded\<close>
  oc_reply_json :: string
  oc_value :: "'o \<Rightarrow> string"  \<comment> \<open>\<open>protojson\<close> of a value\<close>

definition try_sink :: "(stream_id \<Rightarrow> sample \<Rightarrow> 's \<Rightarrow> 's option) \<Rightarrow> 's option sink" where
  \<comment> \<open>a sink that may panic: nothing happens after a panic\<close>
  "try_sink ingest i s st = Option.bind st (ingest i s)"

definition otlp_serve :: "'o otlp_codec \<Rightarrow> (string \<Rightarrow> string + 'm) \<Rightarrow> (string \<Rightarrow> string + 'm) \<Rightarrow>
    ('m \<Rightarrow> 's option \<Rightarrow> 's option) \<Rightarrow> 's handler" where
  "otlp_serve c of_proto of_json handle r st =
     (case serve of_proto of_json (oc_reply c) (oc_reply_json c) (ur_http r) handle (Some st) of
        (res, st') \<Rightarrow> map_option (Pair (Answer res)) st')"

definition otlp_handler :: "'o otlp_codec \<Rightarrow> (stream_id \<Rightarrow> sample \<Rightarrow> 's \<Rightarrow> 's option) \<Rightarrow> 's option clock \<Rightarrow> 's handler" where
  \<comment> \<open>\<open>NewHandler\<close>, over a sink that may panic\<close>
  "otlp_handler c ingest now = serve_mux
     [(''/v1/metrics'', otlp_serve c (oc_metrics c) (oc_metrics_json c) (receive_metrics (try_sink ingest) now)),
      (''/v1/logs'', otlp_serve c (oc_logs c) (oc_logs_json c) (receive_logs (try_sink ingest) now (oc_value c)))]"

section \<open>The message of a request\<close>

definition exported :: "(string \<Rightarrow> string + 'm) \<Rightarrow> (string \<Rightarrow> string + 'm) \<Rightarrow> http_request \<Rightarrow> 'm option" where
  \<comment> \<open>the message of a request that is accepted\<close>
  "exported of_proto of_json req =
     (if req_method req = ''POST'' \<and> media_type (req_ctype req) \<in> {ct_proto, ct_json} then
        (case bind_result (read_limited max_body req)
            (if media_type (req_ctype req) = ct_proto then of_proto else of_json) of
           Inl e \<Rightarrow> None
         | Inr m \<Rightarrow> Some m)
      else None)"

lemma serve_exported:
  "snd (serve of_proto of_json proto_reply json_reply req handle st) =
     (case exported of_proto of_json req of None \<Rightarrow> st | Some m \<Rightarrow> handle m st)"
  "res_status (fst (serve of_proto of_json proto_reply json_reply req handle st)) = status_ok \<longleftrightarrow>
     exported of_proto of_json req \<noteq> None"
  by (auto simp: serve_def exported_def Let_def http_status_defs bind_result_def split: sum.splits)

section \<open>Reference: the samples of a request\<close>

definition routed_to :: "string \<Rightarrow> string \<Rightarrow> bool" where
  "routed_to p endpoint \<longleftrightarrow> clean_url_path p = p \<and> path_segments p = split_byte CHR ''/'' endpoint"

definition request_samples :: "'o otlp_codec \<Rightarrow> time \<Rightarrow> url_request \<Rightarrow> samples" where
  "request_samples c t r =
     (if routed_to (ur_path r) ''/v1/metrics'' then
        (case exported (oc_metrics c) (oc_metrics_json c) (ur_http r) of
           None \<Rightarrow> [] | Some rms \<Rightarrow> metrics_samples t rms)
      else if routed_to (ur_path r) ''/v1/logs'' then
        (case exported (oc_logs c) (oc_logs_json c) (ur_http r) of
           None \<Rightarrow> [] | Some rls \<Rightarrow> logs_samples t (oc_value c) rls)
      else [])"

section \<open>Requests\<close>

lemma exported_post: "exported of_proto of_json req = Some m \<Longrightarrow> req_method req = ''POST''"
  by (simp add: exported_def split: if_splits)

lemma otlp_serve_eq:
  "\<exists>reply. otlp_serve c of_proto of_json handle r S = map_option (Pair reply)
    (case exported of_proto of_json (ur_http r) of None \<Rightarrow> Some S | Some m \<Rightarrow> handle m (Some S))"
  using serve_exported [of of_proto of_json "oc_reply c" "oc_reply_json c" "ur_http r" handle "Some S"]
  by (auto simp: otlp_serve_def split: prod.splits)

lemma otlp_paths:
  "pattern_matches ''/v1/metrics'' p \<longleftrightarrow> path_segments p = [[], ''v1'', ''metrics'']"
  "pattern_matches ''/v1/logs'' p \<longleftrightarrow> path_segments p = [[], ''v1'', ''logs'']"
  "pattern_matches ''/v1/'' p \<longleftrightarrow> 3 \<le> length (path_segments p) \<and> take 2 (path_segments p) = [[], ''v1'']"
  by (simp_all add: pattern_matches_def Let_def eval_nat_numeral)

lemma otlp_handler_eq:
  "\<exists>reply. otlp_handler c f (Pair t) r S =
    map_option (Pair reply) (ingest_samples (try_sink f) (request_samples c t r) (Some S))"
proof -
  let ?metrics = "otlp_serve c (oc_metrics c) (oc_metrics_json c) (receive_metrics (try_sink f) (Pair t)) r S"
  let ?logs = "otlp_serve c (oc_logs c) (oc_logs_json c) (receive_logs (try_sink f) (Pair t) (oc_value c)) r S"
  let ?eq = "\<lambda>rhs. \<exists>reply. rhs = map_option (Pair reply) (ingest_samples (try_sink f) (request_samples c t r) (Some S))"
  note eqs = still_clock.metrics_eq [OF pair_clock] still_clock.logs_eq [OF pair_clock]
  have metrics: "?eq ?metrics" if "routed_to (ur_path r) ''/v1/metrics''"
    using otlp_serve_eq [of c "oc_metrics c" "oc_metrics_json c" "receive_metrics (try_sink f) (Pair t)" r S] that
    by (simp add: request_samples_def eqs split: option.splits)
  have logs: "?eq ?logs" if "routed_to (ur_path r) ''/v1/logs''"
    using otlp_serve_eq [of c "oc_logs c" "oc_logs_json c" "receive_logs (try_sink f) (Pair t) (oc_value c)" r S] that
    by (simp add: request_samples_def routed_to_def eqs split: option.splits)
  show ?thesis
  proof (cases "req_method (ur_http r) = ''POST''")
    case True
    have "otlp_handler c f (Pair t) r S =
        (if clean_url_path (ur_path r) \<noteq> ur_path r then Some (Redirected (clean_url_path (ur_path r)), S)
         else if path_segments (ur_path r) = [[], ''v1'', ''metrics''] then ?metrics
         else if path_segments (ur_path r) = [[], ''v1'', ''logs''] then ?logs
         else Some (Answer not_found_page, S))"
      using True by (simp add: otlp_handler_def serve_mux_def mux_route_def otlp_paths Let_def)
    then show ?thesis using metrics logs
      by (cases "routed_to (ur_path r) ''/v1/metrics'' \<or> routed_to (ur_path r) ''/v1/logs''")
        (auto simp: routed_to_def request_samples_def)
  next
    case False
    then have none: "exported g h (ur_http r) = None" for g h :: "string \<Rightarrow> string + 'm"
      by (simp add: exported_def)
    have "request_samples c t r = []"
      using False by (simp add: request_samples_def exported_def)
    moreover have "\<exists>reply. otlp_handler c f (Pair t) r S = Some (reply, S)"
      unfolding otlp_handler_def
    proof (rule serve_mux_cases)
      fix pat h
      assume "(pat, h) \<in> set [(''/v1/metrics'', otlp_serve c (oc_metrics c) (oc_metrics_json c) (receive_metrics (try_sink f) (Pair t))),
        (''/v1/logs'', otlp_serve c (oc_logs c) (oc_logs_json c) (receive_logs (try_sink f) (Pair t) (oc_value c)))]"
      then show "\<exists>reply. h r S = Some (reply, S)"
        using False otlp_serve_eq [of c "oc_metrics c" "oc_metrics_json c" "receive_metrics (try_sink f) (Pair t)" r S]
          otlp_serve_eq [of c "oc_logs c" "oc_logs_json c" "receive_logs (try_sink f) (Pair t) (oc_value c)" r S]
        by (auto simp: exported_def)
    qed blast
    ultimately show ?thesis by simp
  qed
qed

lemma try_total: "ingest_samples (try_sink (\<lambda>i s st. Some (f i s st))) xs (Some st) = Some (ingest_samples f xs st)"
  by (induction xs arbitrary: st) (auto simp: try_sink_def)

text \<open>A codec that decodes everything to one message, and a request.\<close>

definition demo_codec :: "unit otlp_codec" where
  "demo_codec = \<lparr>oc_metrics = (\<lambda>_. Inr demo_request), oc_metrics_json = (\<lambda>_. Inl ''no''),
     oc_logs = (\<lambda>_. Inl ''no''), oc_logs_json = (\<lambda>_. Inl ''no''), oc_reply = [], oc_reply_json = ''{}'',
     oc_value = (\<lambda>_. [])\<rparr>"

definition demo_post :: url_request where
  "demo_post = \<lparr>ur_path = ''/v1/metrics'', ur_query = [],
     ur_http = \<lparr>req_method = ''POST'', req_ctype = ct_proto, req_body = [], req_broken = None\<rparr>\<rparr>"

end
