(* ===== verification/Shell.thy ===== *)
theory Shell
  imports Browse Display
begin

text \<open>
  \<open>internal/adapter/shell/shell.go\<close>: the interactive shell over a browser. Its state is the
  current directory; a command is a step on it that also writes output, the output of a session is
  the concatenation. The browser, the text of its errors, and the rendering of a time in the
  shell's location are parameters. What the shell relies on is the contract of a browser, the locale
  \<open>browser_api\<close>.
\<close>

section \<open>The shell\<close>

record 'e shell_env =
  sh_ls :: "string \<Rightarrow> 'e + entry list"
  sh_cat :: "string \<Rightarrow> 'e + sample list"
  sh_error :: "'e \<Rightarrow> string"
  sh_time :: "time \<Rightarrow> string"

definition line :: "string \<Rightarrow> string" where
  "line s = s @ [CHR 0x0A]"

definition resolve :: "string \<Rightarrow> string \<Rightarrow> string" where
  "resolve cwd p = path_clean (if \<not> has_prefix p ''/'' then path_join [cwd, p] else p)"

definition format_sample :: "'e shell_env \<Rightarrow> sample \<Rightarrow> string" where
  "format_sample env sm = ''['' @ sh_time env (smp_time sm) @ ''] '' @ display (smp_value sm) (smp_unit sm)"

definition shell_cd :: "'e shell_env \<Rightarrow> string list \<Rightarrow> string \<Rightarrow> string \<times> string" where
  \<comment> \<open>output and new current directory\<close>
  "shell_cd env args cwd =
     (let target = (if length args > 0 then resolve cwd (args ! 0) else ''/'') in
      case sh_ls env target of
        Inl e \<Rightarrow> (line (''cd: '' @ sh_error env e), cwd)
      | Inr es \<Rightarrow> ([], target))"

definition entry_line :: "entry \<Rightarrow> string" where
  "entry_line e = (if ent_dir e then line (ent_name e @ ''/'') else line (ent_name e))"

definition shell_ls :: "'e shell_env \<Rightarrow> string list \<Rightarrow> string \<Rightarrow> string" where
  "shell_ls env args cwd =
     (let target = (if length args > 0 then resolve cwd (args ! 0) else cwd) in
      case sh_ls env target of
        Inl e \<Rightarrow> line (''ls: '' @ sh_error env e)
      | Inr es \<Rightarrow> concat (map entry_line es))"

definition cat_one :: "'e shell_env \<Rightarrow> string \<Rightarrow> string \<Rightarrow> string" where
  "cat_one env cwd arg =
     (case sh_cat env (resolve cwd arg) of
        Inl e \<Rightarrow> line (''cat: '' @ sh_error env e)
      | Inr ss \<Rightarrow> concat (map (\<lambda>sm. line (format_sample env sm)) ss))"

definition shell_cat :: "'e shell_env \<Rightarrow> string list \<Rightarrow> string \<Rightarrow> string" where
  "shell_cat env args cwd =
     (if length args = 0 then line ''cat: missing operand''
      else concat (map (cat_one env cwd) args))"

definition shell_exec :: "'e shell_env \<Rightarrow> string \<Rightarrow> string list \<Rightarrow> string \<Rightarrow> bool \<times> string \<times> string" where
  \<comment> \<open>whether to go on, the output, the new current directory\<close>
  "shell_exec env cmd args cwd =
     (if cmd = ''exit'' \<or> cmd = ''quit'' then (False, [], cwd)
      else if cmd = ''pwd'' then (True, line cwd, cwd)
      else if cmd = ''help'' then
        (True, line ''commands: ls [path]  cd [path]  cat <file>  pwd  help  exit'', cwd)
      else if cmd = ''cd'' then (True, shell_cd env args cwd)
      else if cmd = ''ls'' then (True, shell_ls env args cwd, cwd)
      else if cmd = ''cat'' then (True, shell_cat env args cwd, cwd)
      else (True, line (cmd @ '': command not found''), cwd))"

definition prompt :: "string \<Rightarrow> string" where
  "prompt cwd = cwd @ ''> ''"

datatype ended = Exited | EndOfInput

fun shell_lines :: "'e shell_env \<Rightarrow> string list \<Rightarrow> string \<Rightarrow> string \<times> ended \<times> string" where
  "shell_lines env [] cwd = (prompt cwd @ line [], EndOfInput, cwd)"
| "shell_lines env (l # ls) cwd =
     (case go_fields l of
        [] \<Rightarrow> (case shell_lines env ls cwd of (out, r) \<Rightarrow> (prompt cwd @ out, r))
      | cmd # args \<Rightarrow>
          (case shell_exec env cmd args cwd of
             (False, out, cwd') \<Rightarrow> (prompt cwd @ out, Exited, cwd')
           | (True, out, cwd') \<Rightarrow>
               (case shell_lines env ls cwd' of (out', r) \<Rightarrow> (prompt cwd @ out @ out', r))))"

datatype scan_error = ScanTooLong | ScanFailed string

definition shell_run :: "'e shell_env \<Rightarrow> string \<times> string option \<Rightarrow> string \<times> scan_error option" where
  \<comment> \<open>input bytes and the error they end with to output and result\<close>
  "shell_run env inp =
     (case inp of (content, rerr) \<Rightarrow>
      case scan_lines content of (ls, too_long) \<Rightarrow>
      case shell_lines env ls ''/'' of (out, r, cwd) \<Rightarrow>
        (out, if r = Exited then None
              else if too_long then Some ScanTooLong
              else map_option ScanFailed rerr))"

section \<open>Where a shell can stand\<close>

lemma resolve_clean: "clean_absolute cwd \<Longrightarrow> clean_absolute (resolve cwd p)"
proof (cases "has_prefix p ''/''")
  case True
  then show ?thesis unfolding resolve_def by (simp add: path_clean_absolute del: has_prefix_Cons)
next
  case False
  assume "clean_absolute cwd"
  then have cwd: "has_prefix cwd ''/''" by (rule clean_absolute_prefix)
  then obtain t where t: "cwd = CHR ''/'' # t" by auto
  have "has_prefix (join_byte CHR ''/'' (filter (\<lambda>e. e \<noteq> []) [cwd, p])) ''/''" using t by simp
  then have "clean_absolute (path_join [cwd, p])"
    using t path_clean_absolute by (auto simp: path_join_def Let_def simp del: has_prefix_Cons)
  then have "clean_absolute (path_clean (path_join [cwd, p]))"
    by (intro path_clean_absolute clean_absolute_prefix)
  then show ?thesis using False by (simp add: resolve_def del: has_prefix_Cons)
qed

lemma clean_root: "clean_absolute ''/''"
  unfolding clean_absolute_def by (intro exI [of _ "[]"]) simp

lemma split_join_slash:
  "list_all clean_word ws \<Longrightarrow> ws \<noteq> [] \<Longrightarrow> split_byte CHR ''/'' (join_byte CHR ''/'' ws) = ws"
  by (intro split_join_byte) (auto simp: list_all_iff clean_word_def)

lemma clean_absolute_words: "list_all clean_word ws \<Longrightarrow> clean_absolute (CHR ''/'' # join_byte CHR ''/'' ws)"
  unfolding clean_absolute_def by blast

lemma join_byte_snoc: "join_byte c (ws @ [w]) = (if ws = [] then w else join_byte c ws @ c # w)"
  by (induction c ws rule: join_byte.induct) auto

lemma path_clean_words:
  "path_clean (CHR ''/'' # s) = CHR ''/'' # join_byte CHR ''/'' (rev (fold (clean_step True) (split_byte CHR ''/'' s) []))"
  by (simp add: path_clean_def Let_def)

lemma clean_word_nonempty: "clean_word w \<Longrightarrow> w \<noteq> []" "clean_word w \<Longrightarrow> \<not> has_prefix w ''/''"
  by (auto simp: clean_word_def)

lemma resolve_append:
  assumes "list_all clean_word ws" and "w \<noteq> []" and "CHR ''/'' \<notin> set w"
  shows "resolve (CHR ''/'' # join_byte CHR ''/'' ws) w =
    path_clean (path_clean (CHR ''/'' # join_byte CHR ''/'' (ws @ [w])))"
proof -
  have "\<not> has_prefix w ''/''" using assms(3) by auto
  then have "resolve (CHR ''/'' # join_byte CHR ''/'' ws) w =
      path_clean (path_clean (join_byte CHR ''/'' [CHR ''/'' # join_byte CHR ''/'' ws, w]))"
    using assms(2) by (simp add: resolve_def path_join_def del: has_prefix_Cons)
  also have "path_clean (join_byte CHR ''/'' [CHR ''/'' # join_byte CHR ''/'' ws, w]) =
      path_clean (CHR ''/'' # join_byte CHR ''/'' (ws @ [w]))"
    by (cases "ws = []") (simp_all add: path_clean_words join_byte_snoc)
  finally show ?thesis .
qed

lemma resolve_child:
  assumes "list_all clean_word ws" and "clean_word w"
  shows "resolve (CHR ''/'' # join_byte CHR ''/'' ws) w = CHR ''/'' # join_byte CHR ''/'' (ws @ [w])"
proof -
  have "clean_absolute (CHR ''/'' # join_byte CHR ''/'' (ws @ [w]))"
    using assms by (intro clean_absolute_words) simp
  then show ?thesis using assms by (subst resolve_append) (auto simp: clean_word_def path_clean_id)
qed

lemma resolve_parent:
  assumes "list_all clean_word ws" and "clean_word w"
  shows "resolve (CHR ''/'' # join_byte CHR ''/'' (ws @ [w])) ''..'' = CHR ''/'' # join_byte CHR ''/'' ws"
proof -
  have all: "list_all clean_word (ws @ [w])" using assms by simp
  have "split_byte CHR ''/'' (join_byte CHR ''/'' ((ws @ [w]) @ [''..''])) = (ws @ [w]) @ [''..'']"
    using all by (intro split_join_byte) (auto simp: list_all_iff clean_word_def)
  then have "path_clean (CHR ''/'' # join_byte CHR ''/'' ((ws @ [w]) @ [''..''])) = CHR ''/'' # join_byte CHR ''/'' ws"
    using assms by (simp add: path_clean_words fold_clean_id [simplified]) (simp add: clean_word_def)
  moreover have "resolve (CHR ''/'' # join_byte CHR ''/'' (ws @ [w])) ''..'' =
      path_clean (path_clean (CHR ''/'' # join_byte CHR ''/'' ((ws @ [w]) @ [''..''])))"
    by (rule resolve_append [OF all]) auto
  ultimately show ?thesis using path_clean_id [OF clean_absolute_words [OF assms(1)]] by simp
qed

lemma resolve_root_parent: "resolve ''/'' ''..'' = ''/''"
  by code_simp

definition cwd_ok :: "(string \<Rightarrow> 'e + entry list) \<Rightarrow> string \<Rightarrow> bool" where
  "cwd_ok ls cwd \<longleftrightarrow> clean_absolute cwd \<and> (\<exists>es. ls cwd = Inr es)"

context browser_api
begin

lemma exec_cwd:
  assumes "cwd_ok ls cwd" and "sh_ls env = ls"
  shows "cwd_ok ls (snd (snd (shell_exec env cmd args cwd)))"
  using assms ls_root
  by (auto simp: shell_exec_def shell_cd_def Let_def cwd_ok_def resolve_clean clean_root split: sum.splits)

lemma lines_cwd:
  assumes "cwd_ok ls cwd" and "sh_ls env = ls"
  shows "cwd_ok ls (snd (snd (shell_lines env lns cwd)))"
  using assms(1)
proof (induction lns arbitrary: cwd)
  case Nil
  then show ?case by simp
next
  case (Cons l lns)
  show ?case
  proof (cases "go_fields l")
    case Nil
    then show ?thesis using Cons.IH [OF Cons.prems] by (simp add: case_prod_beta)
  next
    case (Cons cmd args)
    obtain go out cwd' where e: "shell_exec env cmd args cwd = (go, out, cwd')" by (metis surj_pair)
    then have "cwd_ok ls cwd'" using exec_cwd [OF \<open>cwd_ok ls cwd\<close> assms(2), of cmd args] by simp
    then show ?thesis using Cons.IH [of cwd'] Cons e by (cases go) (simp_all add: case_prod_beta)
  qed
qed

lemma root_ok: "cwd_ok ls ''/''"
  using ls_root by (simp add: cwd_ok_def clean_root)

end

section \<open>Properties\<close>

definition demo_shell :: "unit shell_env" where
  "demo_shell = \<lparr>
     sh_ls = (\<lambda>p. if p = ''/'' then Inr [\<lparr>ent_name = ''iam'', ent_dir = True\<rparr>]
       else if p = ''/iam'' then Inr [] else Inl ()),
     sh_cat = (\<lambda>p. Inl ()), sh_error = (\<lambda>_. ''no such file or directory''), sh_time = (\<lambda>_. [])\<rparr>"

interpretation demo: browser_api "sh_ls demo_shell" "sh_cat demo_shell"
  by unfold_locales (auto simp: demo_shell_def split: if_splits)

text \<open>
  C25: Over a browser that answers like a filesystem, the current directory of a session is at
  every moment a clean absolute path that can be listed, whatever was typed: \<open>cd\<close> resolves
  relative paths and \<open>..\<close> and stays where it is when the target cannot be listed.
\<close>

theorem shell_stays_in_a_directory:
  assumes "browser_api (sh_ls env) (sh_cat env)"
  shows "clean_absolute (snd (snd (shell_lines env typed ''/''))) \<and>
    (\<exists>es. sh_ls env (snd (snd (shell_lines env typed ''/''))) = Inr es)"
  using browser_api.lines_cwd [OF assms browser_api.root_ok [OF assms] refl, of typed]
  by (simp add: cwd_ok_def)

theorem shell_stays_in_a_directory_witness:
  "\<exists>cwd. snd (snd (shell_lines demo_shell [''cd iam'', ''cd nowhere''] ''/'')) = cwd \<and> clean_absolute cwd"
  using shell_stays_in_a_directory [OF demo.browser_api_axioms] by blast

text \<open>
  A relative path is resolved against the current directory, an absolute one on its own, and
  both are cleaned; so from a clean directory, \<open>..\<close> leads to the parent, a name leads to the
  child, and nothing leads above the root.
\<close>

theorem resolve_paths:
  assumes "list_all clean_word ws" and "clean_word w"
  shows "resolve (CHR ''/'' # join_byte CHR ''/'' ws) w = CHR ''/'' # join_byte CHR ''/'' (ws @ [w]) \<and>
    resolve (CHR ''/'' # join_byte CHR ''/'' (ws @ [w])) ''..'' = CHR ''/'' # join_byte CHR ''/'' ws \<and>
    resolve ''/'' ''..'' = ''/'' \<and>
    resolve cwd (CHR ''/'' # join_byte CHR ''/'' ws) = CHR ''/'' # join_byte CHR ''/'' ws"
proof -
  have "resolve cwd (CHR ''/'' # join_byte CHR ''/'' ws) = CHR ''/'' # join_byte CHR ''/'' ws"
    using path_clean_id [OF clean_absolute_words [OF assms(1)]] by (simp add: resolve_def)
  then show ?thesis
    using resolve_child [OF assms] resolve_parent [OF assms] resolve_root_parent by blast
qed

theorem resolve_paths_witness:
  "resolve ''/iam'' ''api'' = ''/iam/api'' \<and> resolve ''/iam/api'' ''..'' = ''/iam''"
  using resolve_paths [of "[''iam'']" "''api''"] by (simp add: clean_word_def)

end
