(* ===== verification/Fsapi.thy ===== *)
theory Fsapi
  imports Browse Go_Http
begin

text \<open>
  \<open>internal/adapter/fsapi/fsapi.go\<close>: the wire protocol between the command line and the
  system of record, the handler that serves a browser and the client that is one. JSON and the
  network are parameters (\<open>fs_json\<close>, \<open>fs_client\<close>); \<open>client_of\<close> is the client whose
  network is a handler. The main facts are that an error crosses the wire with its text and its kind,
  and that the handler sees the path the client asked for.
\<close>

section \<open>Errors on the wire\<close>

definition error_kinds :: "(string \<times> sentinel) list" where
  "error_kinds = [(''bad_path'', ErrBadPath), (''not_found'', ErrNotFound), (''not_dir'', ErrNotDir),
     (''is_dir'', ErrIsDir)]"

definition classify :: "sentinel option \<Rightarrow> string \<times> nat" where
  \<comment> \<open>the sentinel an error wraps, if it wraps one\<close>
  "classify base =
     (if base = Some ErrNotFound then (''not_found'', status_not_found)
      else if base = Some ErrNotDir then (''not_dir'', status_bad_request)
      else if base = Some ErrIsDir then (''is_dir'', status_bad_request)
      else if base = Some ErrBadPath then (''bad_path'', status_bad_request)
      else (''internal'', status_internal_error))"

definition strip_suffix :: "string \<Rightarrow> sentinel \<Rightarrow> string" where
  "strip_suffix msg base =
     (let suffix = '': '' @ sentinel_text base in
      if length msg > length suffix \<and> drop (length msg - length suffix) msg = suffix
      then take (length msg - length suffix) msg else msg)"

section \<open>The handler\<close>

record fs_json =
  fj_entries :: "(string \<times> bool) list \<Rightarrow> string"
  fj_samples :: "(time \<times> string \<times> string) list \<Rightarrow> string"
  fj_error :: "string \<times> string \<Rightarrow> string"
  fj_get_entries :: "string \<Rightarrow> string + (string \<times> bool) list"
  fj_get_samples :: "string \<Rightarrow> string + (time \<times> string \<times> string) list"
  fj_get_error :: "string \<Rightarrow> string + string \<times> string"

definition write_json :: "nat \<Rightarrow> string \<Rightarrow> http_response" where
  "write_json status body =
     \<lparr>res_status = status, res_ctype = ''application/json'', res_body = body @ [CHR 0x0A]\<rparr>"

definition write_err :: "fs_json \<Rightarrow> (string \<Rightarrow> string) \<Rightarrow> fs_error \<Rightarrow> http_response" where
  "write_err js q e =
     (case classify (Some (err_base e)) of (kd, status) \<Rightarrow>
        write_json status (fj_error js (kd, error_text q e)))"

definition entry_json :: "entry \<Rightarrow> string \<times> bool" where
  "entry_json e = (ent_name e, ent_dir e)"

definition sample_json :: "sample \<Rightarrow> time \<times> string \<times> string" where
  "sample_json s = (smp_time s, smp_value s, smp_unit s)"

definition serve_ls :: "fs_json \<Rightarrow> (string \<Rightarrow> string) \<Rightarrow> (string \<Rightarrow> fs_error + entry list) \<Rightarrow> string \<Rightarrow> http_response" where
  "serve_ls js q ls pth =
     (case ls pth of
        Inl e \<Rightarrow> write_err js q e
      | Inr es \<Rightarrow> write_json status_ok (fj_entries js (map entry_json es)))"

definition serve_cat :: "fs_json \<Rightarrow> (string \<Rightarrow> string) \<Rightarrow> (string \<Rightarrow> fs_error + sample list) \<Rightarrow> string \<Rightarrow> http_response" where
  "serve_cat js q cat pth =
     (case cat pth of
        Inl e \<Rightarrow> write_err js q e
      | Inr ss \<Rightarrow> write_json status_ok (fj_samples js (map sample_json ss)))"

definition ls_endpoint :: string where "ls_endpoint = ''/fs/ls''"
definition cat_endpoint :: string where "cat_endpoint = ''/fs/cat''"

definition fs_handler :: "fs_json \<Rightarrow> (string \<Rightarrow> string) \<Rightarrow> ('s \<Rightarrow> string \<Rightarrow> fs_error + entry list) \<Rightarrow>
    ('s \<Rightarrow> string \<Rightarrow> fs_error + sample list) \<Rightarrow> 's handler" where
  \<comment> \<open>\<open>NewHandler\<close>, over a browser that reads a state\<close>
  "fs_handler js q ls cat = serve_mux
     [(ls_endpoint, \<lambda>r st. Some (Answer (serve_ls js q (ls st) (query_get ''path'' (ur_query r))), st)),
      (cat_endpoint, \<lambda>r st. Some (Answer (serve_cat js q (cat st) (query_get ''path'' (ur_query r))), st))]"

section \<open>The client\<close>

datatype client_error =
    SorError string           \<comment> \<open>\<open>sor: ...\<close>: the exchange failed\<close>
  | SorStatus nat             \<comment> \<open>\<open>sor: HTTP n\<close>\<close>
  | SorWrapped string sentinel
  | SorMessage string
  | SorDecode string

record fs_client =
  fc_base :: string
  fc_escape :: "string \<Rightarrow> string"
  fc_fetch :: "string \<Rightarrow> string + (nat \<times> (string + string))"  \<comment> \<open>status, and the body or the error reading it\<close>

definition client_get :: "fs_json \<Rightarrow> fs_client \<Rightarrow> string \<Rightarrow> string \<Rightarrow> (string \<Rightarrow> string + 'a) \<Rightarrow> client_error + 'a" where
  "client_get js c endpoint pth decode =
     (case fc_fetch c (fc_base c @ endpoint @ ''?path='' @ fc_escape c pth) of
        Inl e \<Rightarrow> Inl (SorError e)
      | Inr (status, Inl e) \<Rightarrow> Inl (SorError e)
      | Inr (status, Inr body) \<Rightarrow>
          if status \<noteq> status_ok then
            (case fj_get_error js body of
               Inr (kd, msg) \<Rightarrow>
                 if msg \<noteq> [] then
                   (case map_of error_kinds kd of
                      Some base \<Rightarrow> Inl (SorWrapped (strip_suffix msg base) base)
                    | None \<Rightarrow> Inl (SorMessage msg))
                 else Inl (SorStatus status)
             | Inl e \<Rightarrow> Inl (SorStatus status))
          else (case decode body of Inl e \<Rightarrow> Inl (SorDecode e) | Inr v \<Rightarrow> Inr v))"

definition client_ls :: "fs_json \<Rightarrow> fs_client \<Rightarrow> string \<Rightarrow> client_error + entry list" where
  "client_ls js c pth =
     bind_result (client_get js c ls_endpoint pth (fj_get_entries js)) (\<lambda>raw.
       Inr (map (\<lambda>(name, dir). \<lparr>ent_name = name, ent_dir = dir\<rparr>) raw))"

definition client_cat :: "fs_json \<Rightarrow> fs_client \<Rightarrow> string \<Rightarrow> client_error + sample list" where
  "client_cat js c pth =
     bind_result (client_get js c cat_endpoint pth (fj_get_samples js)) (\<lambda>raw.
       Inr (map (\<lambda>(t, v, u). \<lparr>smp_time = t, smp_value = v, smp_unit = u\<rparr>) raw))"

definition client_of :: "string \<Rightarrow> string \<Rightarrow> (url_request \<Rightarrow> http_reply option) \<Rightarrow> fs_client" where
  \<comment> \<open>the client of \<open>NewClient\<close> for the base URL \<open>origin @ prefix\<close>, on a network where a
      handler answers at \<open>origin\<close>\<close>
  "client_of origin prefix exchange =
     \<lparr>fc_base = origin @ prefix, fc_escape = query_escape,
      fc_fetch = (\<lambda>url. case http_get exchange (drop (length origin) url) of
        None \<Rightarrow> Inl ''the exchange failed''
      | Some res \<Rightarrow> Inr (res_status res, Inr (res_body res)))\<rparr>"

definition client_error_text :: "client_error \<Rightarrow> string" where
  "client_error_text e =
     (case e of
        SorError m \<Rightarrow> ''sor: '' @ m
      | SorStatus n \<Rightarrow> ''sor: HTTP '' @ nat_digits n
      | SorWrapped m base \<Rightarrow> m @ '': '' @ sentinel_text base
      | SorMessage m \<Rightarrow> m
      | SorDecode m \<Rightarrow> m)"

section \<open>Lemmas\<close>

lemma kinds_classify: "map_of error_kinds (fst (classify (Some base))) = Some base"
  by (cases base) (simp_all add: classify_def error_kinds_def)

lemma classify_not_ok: "snd (classify base) \<noteq> status_ok"
  by (auto simp: classify_def http_status_defs)

lemma strip_suffix_text:
  "m \<noteq> [] \<Longrightarrow> strip_suffix (m @ '': '' @ sentinel_text base) base = m"
  by (simp add: strip_suffix_def Let_def)

lemma endpoint_paths:
  "clean_url_path ''/fs/ls'' = ''/fs/ls''" "clean_url_path ''/fs/cat'' = ''/fs/cat''"
  "pattern_matches ''/fs/ls'' ''/fs/ls''" "\<not> pattern_matches ''/fs/ls'' ''/fs/cat''"
  "pattern_matches ''/fs/cat'' ''/fs/cat''"
  by code_simp+

text \<open>A client whose exchange reaches a handler.\<close>

definition reaches :: "fs_client \<Rightarrow> string \<Rightarrow> string \<Rightarrow> http_response \<Rightarrow> bool" where
  "reaches c endpoint pth res \<longleftrightarrow>
     fc_fetch c (fc_base c @ endpoint @ ''?path='' @ fc_escape c pth) = Inr (res_status res, Inr (res_body res))"

lemma client_get_error:
  assumes "reaches c endpoint pth (write_err js q e)"
    and "fj_get_error js (fj_error js (fst (classify (Some (err_base e))), error_text q e) @ [CHR 0x0A]) =
      Inr (fst (classify (Some (err_base e))), error_text q e)"
    and "msg_text q (err_msg e) \<noteq> []"
  shows "client_get js c endpoint pth decode = Inl (SorWrapped (msg_text q (err_msg e)) (err_base e))"
proof -
  obtain kd status where k: "classify (Some (err_base e)) = (kd, status)" by (cases "classify (Some (err_base e))")
  then have "map_of error_kinds kd = Some (err_base e)" "status \<noteq> status_ok"
    using kinds_classify [of "err_base e"] classify_not_ok [of "Some (err_base e)"] by simp_all
  moreover have "error_text q e \<noteq> []" by (simp add: error_text_def)
  moreover have "strip_suffix (error_text q e) (err_base e) = msg_text q (err_msg e)"
    unfolding error_text_def by (rule strip_suffix_text [OF assms(3)])
  ultimately show ?thesis
    using assms(1,2) k by (simp add: client_get_def reaches_def write_err_def write_json_def)
qed

lemma client_ls_alike:
  assumes "reaches c ''/fs/ls'' pth (serve_ls js q ls pth)"
    and "\<And>es. ls pth = Inr es \<Longrightarrow>
      fj_get_entries js (fj_entries js (map entry_json es) @ [CHR 0x0A]) = Inr (map entry_json es)"
    and "\<And>e. ls pth = Inl e \<Longrightarrow> msg_text q (err_msg e) \<noteq> [] \<and>
      fj_get_error js (fj_error js (fst (classify (Some (err_base e))), error_text q e) @ [CHR 0x0A]) =
        Inr (fst (classify (Some (err_base e))), error_text q e)"
  shows "client_ls js c pth =
    (case ls pth of Inr es \<Rightarrow> Inr es | Inl e \<Rightarrow> Inl (SorWrapped (msg_text q (err_msg e)) (err_base e)))"
proof (cases "ls pth")
  case (Inl e)
  then show ?thesis
    using client_get_error [of c ls_endpoint pth js q e "fj_get_entries js"] assms(1) assms(3) [of e]
    by (simp add: client_ls_def ls_endpoint_def serve_ls_def)
next
  case (Inr es)
  have "map (\<lambda>(name, dir). \<lparr>ent_name = name, ent_dir = dir\<rparr>) (map entry_json es) = es"
    by (rule nth_equalityI) (auto simp: entry_json_def)
  then show ?thesis using Inr assms(1) assms(2) [OF Inr]
    by (simp add: client_ls_def client_get_def ls_endpoint_def serve_ls_def reaches_def write_json_def)
qed

lemma client_cat_alike:
  assumes "reaches c ''/fs/cat'' pth (serve_cat js q cat pth)"
    and "\<And>ss. cat pth = Inr ss \<Longrightarrow>
      fj_get_samples js (fj_samples js (map sample_json ss) @ [CHR 0x0A]) = Inr (map sample_json ss)"
    and "\<And>e. cat pth = Inl e \<Longrightarrow> msg_text q (err_msg e) \<noteq> [] \<and>
      fj_get_error js (fj_error js (fst (classify (Some (err_base e))), error_text q e) @ [CHR 0x0A]) =
        Inr (fst (classify (Some (err_base e))), error_text q e)"
  shows "client_cat js c pth =
    (case cat pth of Inr ss \<Rightarrow> Inr ss | Inl e \<Rightarrow> Inl (SorWrapped (msg_text q (err_msg e)) (err_base e)))"
proof (cases "cat pth")
  case (Inl e)
  then show ?thesis
    using client_get_error [of c cat_endpoint pth js q e "fj_get_samples js"] assms(1) assms(3) [of e]
    by (simp add: client_cat_def cat_endpoint_def serve_cat_def)
next
  case (Inr ss)
  have "map (\<lambda>(t, v, u). \<lparr>smp_time = t, smp_value = v, smp_unit = u\<rparr>) (map sample_json ss) = ss"
    by (rule nth_equalityI) (auto simp: sample_json_def)
  then show ?thesis using Inr assms(1) assms(2) [OF Inr]
    by (simp add: client_cat_def client_get_def cat_endpoint_def serve_cat_def reaches_def write_json_def)
qed

subsection \<open>The handler and its client\<close>

lemma fs_handler_ls:
  "ur_path r = ''/fs/ls'' \<Longrightarrow> fs_handler js q ls cat r st =
    Some (Answer (serve_ls js q (ls st) (query_get ''path'' (ur_query r))), st)"
  by (simp add: fs_handler_def serve_mux_def mux_route_def ls_endpoint_def cat_endpoint_def endpoint_paths Let_def)

lemma fs_handler_cat:
  "ur_path r = ''/fs/cat'' \<Longrightarrow> fs_handler js q ls cat r st =
    Some (Answer (serve_cat js q (cat st) (query_get ''path'' (ur_query r))), st)"
  by (simp add: fs_handler_def serve_mux_def mux_route_def ls_endpoint_def cat_endpoint_def endpoint_paths Let_def)

text \<open>
  A client reaches what answers at an endpoint, with the path it was asked for, also when its base
  URL ends in slashes: the multiplexer then redirects it once.
\<close>

lemma client_of_reaches:
  assumes "CHR ''?'' \<notin> set endpoint"
    and "\<And>r. ur_path r = endpoint \<Longrightarrow> exchange r = Some (Answer (f (query_get ''path'' (ur_query r))))"
    and "\<And>r. n \<noteq> 0 \<Longrightarrow> req_method (ur_http r) = ''GET'' \<Longrightarrow> ur_path r = replicate n CHR ''/'' @ endpoint \<Longrightarrow>
      exchange r = Some (Redirected endpoint)"
  shows "reaches (client_of origin (replicate n CHR ''/'') exchange) endpoint p (f p)"
proof -
  have cut: "cut_byte CHR ''?'' ((replicate n CHR ''/'' @ endpoint) @ CHR ''?'' # s) = (replicate n CHR ''/'' @ endpoint, s)" for s
    using assms(1) by (intro cut_byte_append) auto
  have "http_get exchange ((replicate n CHR ''/'' @ endpoint) @ CHR ''?'' # (''path='' @ query_escape p)) = Some (f p)"
    unfolding http_get_def cut using query_get_path [of p] assms(2,3)
    by (cases "n = 0") (simp_all add: get_request_def numeral_eq_Suc)
  then show ?thesis by (simp add: reaches_def client_of_def)
qed

lemma wrapped_text: "client_error_text (SorWrapped (msg_text q (err_msg e)) (err_base e)) = error_text q e"
  by (simp add: client_error_text_def error_text_def)

section \<open>Properties\<close>

text \<open>
  The remote browser answers as the local one: for a path, the client returns the entries
  and samples the browser returned, and an error with the same sentinel and the same text (the text
  of the sentinel is not repeated), whenever JSON carries the reply at hand unchanged.
\<close>

theorem remote_browser_answers_alike:
  assumes "reaches c ''/fs/ls'' pth (serve_ls js q ls pth)" and "reaches c ''/fs/cat'' pth (serve_cat js q cat pth)"
    and "\<And>es. ls pth = Inr es \<Longrightarrow>
      fj_get_entries js (fj_entries js (map entry_json es) @ [CHR 0x0A]) = Inr (map entry_json es)"
    and "\<And>ss. cat pth = Inr ss \<Longrightarrow>
      fj_get_samples js (fj_samples js (map sample_json ss) @ [CHR 0x0A]) = Inr (map sample_json ss)"
    and "\<And>e. ls pth = Inl e \<or> cat pth = Inl e \<Longrightarrow> msg_text q (err_msg e) \<noteq> [] \<and>
      fj_get_error js (fj_error js (fst (classify (Some (err_base e))), error_text q e) @ [CHR 0x0A]) =
        Inr (fst (classify (Some (err_base e))), error_text q e)"
  shows "client_ls js c pth =
      (case ls pth of Inr es \<Rightarrow> Inr es | Inl e \<Rightarrow> Inl (SorWrapped (msg_text q (err_msg e)) (err_base e))) \<and>
    client_cat js c pth =
      (case cat pth of Inr ss \<Rightarrow> Inr ss | Inl e \<Rightarrow> Inl (SorWrapped (msg_text q (err_msg e)) (err_base e))) \<and>
    client_error_text (SorWrapped (msg_text q (err_msg e)) (err_base e)) = error_text q e"
  using client_ls_alike [of c pth js q ls] client_cat_alike [of c pth js q cat] assms
  by (intro conjI) (blast | rule wrapped_text)+

definition demo_json :: fs_json where
  "demo_json = \<lparr>
     fj_entries = (\<lambda>es. concat (map fst es)), fj_samples = (\<lambda>ss. []), fj_error = (\<lambda>(k, m). k @ ''|'' @ m),
     fj_get_entries = (\<lambda>s. Inr [(butlast s, True)]),
     fj_get_samples = (\<lambda>s. Inl ''''),
     fj_get_error = (\<lambda>s. Inr (takeWhile (\<lambda>c. c \<noteq> CHR ''|'') s, butlast (tl (dropWhile (\<lambda>c. c \<noteq> CHR ''|'') s))))\<rparr>"

definition demo_ls :: "string \<Rightarrow> fs_error + entry list" where
  "demo_ls p = Inr [\<lparr>ent_name = ''iam'', ent_dir = True\<rparr>]"

definition demo_cat :: "string \<Rightarrow> fs_error + sample list" where
  "demo_cat p = Inl (FsError (AtPath p) ErrIsDir)"

definition demo_client :: fs_client where
  "demo_client = \<lparr>fc_base = ''sor'', fc_escape = id, fc_fetch = (\<lambda>url.
     let res = (if has_prefix url ''sor/fs/ls'' then serve_ls demo_json id demo_ls ''/''
       else serve_cat demo_json id demo_cat ''/'')
     in Inr (res_status res, Inr (res_body res)))\<rparr>"

theorem remote_browser_answers_alike_witness:
  "client_ls demo_json demo_client ''/'' = Inr [\<lparr>ent_name = ''iam'', ent_dir = True\<rparr>] \<and>
    client_cat demo_json demo_client ''/'' = Inl (SorWrapped ''/'' ErrIsDir)"
proof -
  have r: "reaches demo_client ''/fs/ls'' ''/'' (serve_ls demo_json id demo_ls ''/'')"
    "reaches demo_client ''/fs/cat'' ''/'' (serve_cat demo_json id demo_cat ''/'')"
    by (simp_all add: reaches_def demo_client_def has_prefix_def Let_def)
  show ?thesis
    using remote_browser_answers_alike [OF r, of "FsError (AtPath ''/'') ErrIsDir"]
    by (auto simp: demo_json_def demo_ls_def demo_cat_def entry_json_def classify_def error_text_def)
qed

end
