(* ===== verification/Go_Flag.thy ===== *)
theory Go_Flag
  imports Go_Duration
begin

text \<open>
  Go's \<open>flag\<close> package, as far as the commands use it: a table of flags, each with a name,
  whether it is boolean, and how its value is set in a record of options; \<open>parse_flags\<close> is the
  loop of \<open>FlagSet.Parse\<close>. The integers of a command line are those of \<open>strconv.ParseInt\<close>
  with base 0.
\<close>

section \<open>Values\<close>

definition parse_bool :: "string \<Rightarrow> bool option" where
  "parse_bool s =
     (if s \<in> {''1'', ''t'', ''T'', ''true'', ''TRUE'', ''True''} then Some True
      else if s \<in> {''0'', ''f'', ''F'', ''false'', ''FALSE'', ''False''} then Some False
      else None)"

definition int_prefix :: "string \<Rightarrow> nat \<times> string" where
  \<comment> \<open>the base a prefix asks for, and the digits after it\<close>
  "int_prefix s =
     (if s \<noteq> [] \<and> hd s = CHR ''0'' then
        (if length s \<ge> 3 \<and> lower_byte (s ! 1) = CHR ''b'' then (2, drop 2 s)
         else if length s \<ge> 3 \<and> lower_byte (s ! 1) = CHR ''o'' then (8, drop 2 s)
         else if length s \<ge> 3 \<and> lower_byte (s ! 1) = CHR ''x'' then (16, drop 2 s)
         else (8, drop 1 s))
      else (10, s))"

definition digit_in :: "nat \<Rightarrow> char \<Rightarrow> nat option" where
  "digit_in base c =
     (let d = (if is_digit c then Some (digit_val c)
               else if CHR ''a'' \<le> lower_byte c \<and> lower_byte c \<le> CHR ''z'' then Some (of_char (lower_byte c) - 97 + 10)
               else None)
      in case d of None \<Rightarrow> None | Some n \<Rightarrow> if n < base then Some n else None)"

fun read_digits :: "nat \<Rightarrow> nat \<Rightarrow> string \<Rightarrow> nat option" where
  \<comment> \<open>underscores are checked apart\<close>
  "read_digits base n [] = Some n"
| "read_digits base n (c # cs) =
     (if c = CHR ''_'' then read_digits base n cs
      else case digit_in base c of None \<Rightarrow> None | Some d \<Rightarrow> read_digits base (base * n + d) cs)"

definition parse_uint0 :: "string \<Rightarrow> nat option" where
  \<comment> \<open>\<open>ParseUint(s, 0, 64)\<close>\<close>
  "parse_uint0 s =
     (if s = [] \<or> CHR ''_'' \<in> set s \<and> \<not> underscore_ok s then None
      else case int_prefix s of (base, ds) \<Rightarrow>
        (case read_digits base 0 ds of
           None \<Rightarrow> None
         | Some n \<Rightarrow> if n < 2 ^ 64 then Some n else None))"

definition parse_int0 :: "string \<Rightarrow> int option" where
  \<comment> \<open>\<open>ParseInt(s, 0, 64)\<close>\<close>
  "parse_int0 s =
     (let neg = (s \<noteq> [] \<and> hd s = CHR ''-'');
          t = (if s \<noteq> [] \<and> (hd s = CHR ''-'' \<or> hd s = CHR ''+'') then tl s else s)
      in case parse_uint0 t of
           None \<Rightarrow> None
         | Some n \<Rightarrow>
             if neg then (if n \<le> 2 ^ 63 then Some (- int n) else None)
             else if n < 2 ^ 63 then Some (int n) else None)"

section \<open>Flags\<close>

datatype flag_error = HelpAsked | BadSyntax string | NotDefined string | NeedsArgument string
  | InvalidValue string string

datatype 'f flag = BoolFlag "bool \<Rightarrow> 'f \<Rightarrow> 'f" | ValueFlag "string \<Rightarrow> 'f \<Rightarrow> 'f option"

definition string_flag :: "(string \<Rightarrow> 'f \<Rightarrow> 'f) \<Rightarrow> 'f flag" where
  "string_flag put = ValueFlag (\<lambda>v f. Some (put v f))"

definition int_flag :: "(int \<Rightarrow> 'f \<Rightarrow> 'f) \<Rightarrow> 'f flag" where
  "int_flag put = ValueFlag (\<lambda>v f. map_option (\<lambda>i. put i f) (parse_int0 v))"

definition duration_flag :: "(duration \<Rightarrow> 'f \<Rightarrow> 'f) \<Rightarrow> 'f flag" where
  "duration_flag put = ValueFlag (\<lambda>v f. map_option (\<lambda>d. put d f) (parse_duration v))"

definition float_flag :: "(float64 \<Rightarrow> 'f \<Rightarrow> 'f) \<Rightarrow> 'f flag" where
  "float_flag put = ValueFlag (\<lambda>v f. map_option (\<lambda>x. put x f) (parse_float v))"

definition set_flag :: "string \<Rightarrow> 'f flag \<Rightarrow> string \<Rightarrow> 'f \<Rightarrow> flag_error + 'f" where
  "set_flag name fl v f =
     (case (case fl of BoolFlag put \<Rightarrow> map_option (\<lambda>b. put b f) (parse_bool v) | ValueFlag put \<Rightarrow> put v f) of
        None \<Rightarrow> Inl (InvalidValue name v)
      | Some f \<Rightarrow> Inr f)"

definition flag_value :: "string \<Rightarrow> string \<times> string option" where
  \<comment> \<open>\<open>name=value\<close>, or a name alone\<close>
  "flag_value s =
     (case index_byte s CHR ''='' of
        None \<Rightarrow> (s, None)
      | Some i \<Rightarrow> (take i s, Some (drop (Suc i) s)))"

definition flag_argument :: "string \<Rightarrow> 'f flag \<Rightarrow> string option \<Rightarrow> string list \<Rightarrow> flag_error + string \<times> string list" where
  \<comment> \<open>the value to set, which may be the next argument\<close>
  "flag_argument name fl value args =
     (case value of
        Some v \<Rightarrow> Inr (v, args)
      | None \<Rightarrow>
          (case fl of
             BoolFlag put \<Rightarrow> Inr (''true'', args)
           | ValueFlag put \<Rightarrow> (case args of [] \<Rightarrow> Inl (NeedsArgument name) | v # args \<Rightarrow> Inr (v, args))))"

definition parse_named :: "(string \<times> 'f flag) list \<Rightarrow> string \<Rightarrow> string list \<Rightarrow> 'f \<Rightarrow> flag_error + 'f \<times> string list" where
  "parse_named defs s args f =
     (case flag_value s of (name, value) \<Rightarrow>
        (case map_of defs name of
           None \<Rightarrow> Inl (if name = ''help'' \<or> name = ''h'' then HelpAsked else NotDefined name)
         | Some fl \<Rightarrow> bind_result (flag_argument name fl value args) (\<lambda>(v, args).
             bind_result (set_flag name fl v f) (\<lambda>f. Inr (f, args)))))"

definition parse_one :: "(string \<times> 'f flag) list \<Rightarrow> string list \<Rightarrow> 'f \<Rightarrow> flag_error + bool \<times> 'f \<times> string list" where
  \<comment> \<open>whether there was a flag, the options, and the arguments left\<close>
  "parse_one defs args f =
     (case args of
        [] \<Rightarrow> Inr (False, f, [])
      | s # args \<Rightarrow>
          if length s < 2 \<or> hd s \<noteq> CHR ''-'' then Inr (False, f, s # args)
          else if s = ''--'' then Inr (False, f, args)
          else
            let name = drop (if s ! 1 = CHR ''-'' then 2 else 1) s in
            if name = [] \<or> hd name = CHR ''-'' \<or> hd name = CHR ''='' then Inl (BadSyntax s)
            else bind_result (parse_named defs name args f) (\<lambda>(f, args). Inr (True, f, args)))"

lemma parse_named_shorter: "parse_named defs s args f = Inr (g, rest) \<Longrightarrow> length rest \<le> length args"
  by (auto simp: parse_named_def flag_argument_def bind_result_Inr_iff split: prod.splits option.splits flag.splits list.splits)

lemma parse_one_shorter: "parse_one defs args f = Inr (True, g, rest) \<Longrightarrow> length rest < length args"
  by (cases args) (auto simp: parse_one_def Let_def bind_result_Inr_iff less_Suc_eq_le dest: parse_named_shorter
      split: if_splits)

function parse_flags :: "(string \<times> 'f flag) list \<Rightarrow> string list \<Rightarrow> 'f \<Rightarrow> flag_error + 'f \<times> string list" where
  \<comment> \<open>the options, and the arguments after the flags\<close>
  "parse_flags defs args f =
     (case parse_one defs args f of
        Inl e \<Rightarrow> Inl e
      | Inr (seen, f, rest) \<Rightarrow> if seen then parse_flags defs rest f else Inr (f, rest))"
  by pat_completeness auto
termination
  by (relation "measure (\<lambda>(defs, args, f). length args)") (auto dest: parse_one_shorter)

declare parse_flags.simps [simp del]

definition flag_exit :: "flag_error \<Rightarrow> nat" where
  \<comment> \<open>the exit code of \<open>flag.Parse\<close> for a command line that does not parse\<close>
  "flag_exit e = (if e = HelpAsked then 0 else 2)"

section \<open>Lemmas\<close>

text \<open>What a flag written as \<open>-name=value\<close> does, whatever its value.\<close>

definition flag_name :: "string \<Rightarrow> bool" where
  "flag_name n \<longleftrightarrow> n \<noteq> [] \<and> hd n \<noteq> CHR ''-'' \<and> CHR ''='' \<notin> set n"

lemma flag_value_eq: "CHR ''='' \<notin> set n \<Longrightarrow> flag_value (n @ CHR ''='' # v) = (n, Some v)"
  by (simp add: flag_value_def index_byte_append)

lemma parse_flags_assign:
  assumes "flag_name n" and "map_of defs n = Some fl"
  shows "parse_flags defs ((CHR ''-'' # n @ CHR ''='' # v) # args) f = bind_result (set_flag n fl v f) (parse_flags defs args)"
proof -
  obtain c cs where n: "n = c # cs" "c \<noteq> CHR ''-''" "c \<noteq> CHR ''=''"
    using assms(1) by (cases n) (auto simp: flag_name_def)
  have "flag_value (c # cs @ CHR ''='' # v) = (n, Some v)"
    using flag_value_eq [of n v] assms(1) by (simp add: n flag_name_def)
  then have "parse_one defs ((CHR ''-'' # n @ CHR ''='' # v) # args) f =
      bind_result (set_flag n fl v f) (\<lambda>f. Inr (True, f, args))"
    using assms(2) n by (simp add: parse_one_def parse_named_def flag_argument_def bind_result_def split: sum.split)
  then show ?thesis by (simp add: parse_flags.simps [of defs "(CHR ''-'' # n @ CHR ''='' # v) # args"] bind_result_def split: sum.split)
qed

text \<open>Arguments after a command line that is all flags continue it.\<close>

lemma parse_named_append:
  "parse_named defs s args f = Inr (g, rest) \<Longrightarrow> parse_named defs s (args @ later) f = Inr (g, rest @ later)"
  by (auto simp: parse_named_def flag_argument_def bind_result_Inr_iff split: prod.splits option.splits flag.splits list.splits)

lemma parse_one_append:
  "parse_one defs args f = Inr (True, g, rest) \<Longrightarrow> parse_one defs (args @ later) f = Inr (True, g, rest @ later)"
  by (cases args) (auto simp: parse_one_def Let_def bind_result_Inr_iff parse_named_append split: if_splits)

lemma parse_one_end:
  "parse_one defs args f = Inr (False, g, []) \<Longrightarrow> ''--'' \<notin> set args \<Longrightarrow> args = [] \<and> g = f"
  by (cases args) (auto simp: parse_one_def Let_def bind_result_Inr_iff split: if_splits)

lemma parse_named_args: "parse_named defs s args f = Inr (g, rest) \<Longrightarrow> set rest \<subseteq> set args"
  by (auto simp: parse_named_def flag_argument_def bind_result_Inr_iff split: prod.splits option.splits flag.splits list.splits)

lemma parse_one_args: "parse_one defs args f = Inr (seen, g, rest) \<Longrightarrow> set rest \<subseteq> set args"
  by (cases args) (auto simp: parse_one_def Let_def bind_result_Inr_iff dest: parse_named_args split: if_splits)

lemma parse_flags_append:
  "parse_flags defs args f = Inr (g, []) \<Longrightarrow> ''--'' \<notin> set args \<Longrightarrow>
    parse_flags defs (args @ later) f = parse_flags defs later g"
proof (induction defs args f rule: parse_flags.induct)
  case (1 defs args f)
  obtain seen h rest where one: "parse_one defs args f = Inr (seen, h, rest)"
    using "1.prems"(1) by (auto simp: parse_flags.simps [of defs args] split: sum.splits)
  show ?case
  proof (cases seen)
    case True
    then have "parse_flags defs (rest @ later) h = parse_flags defs later g"
      using "1.IH" [OF one refl refl True] "1.prems" parse_one_args [OF one] one
      by (auto simp: parse_flags.simps [of defs args])
    then show ?thesis
      using parse_one_append [of defs args f h rest later] one True
      by (simp add: parse_flags.simps [of defs "args @ later"])
  next
    case False
    then show ?thesis
      using "1.prems" one parse_one_end [of defs args f g] by (simp add: parse_flags.simps [of defs args])
  qed
qed

end
