(* ===== verification/Cli.thy ===== *)
theory Cli
  imports Shell Fsapi Go_Flag
begin

text \<open>
  \<open>cmd/cli/main.go\<close>: the command line, a shell over the remote browser at the URL
  of its flag. What it prints is compared with a shell over the
  browser itself: the wire protocol loses nothing a user sees.
\<close>

section \<open>The command\<close>

definition remote_shell :: "fs_json \<Rightarrow> fs_client \<Rightarrow> (time \<Rightarrow> string) \<Rightarrow> client_error shell_env" where
  "remote_shell js c tm =
     \<lparr>sh_ls = client_ls js c, sh_cat = client_cat js c, sh_error = client_error_text, sh_time = tm\<rparr>"

datatype cli_failure = CannotReach string | ShellFailed scan_error | BadCommand flag_error

definition cli_main :: "fs_json \<Rightarrow> fs_client \<Rightarrow> (time \<Rightarrow> string) \<Rightarrow> string \<times> string option \<Rightarrow> nat \<times> string \<times> cli_failure option" where
  \<comment> \<open>exit code, standard output, and what is printed on standard error\<close>
  "cli_main js c tm inp =
     (case client_ls js c ''/'' of
        Inl e \<Rightarrow> (1, [], Some (CannotReach (client_error_text e)))
      | Inr es \<Rightarrow>
          (case shell_run (remote_shell js c tm) inp of
             (out, None) \<Rightarrow> (0, out, None)
           | (out, Some e) \<Rightarrow> (1, out, Some (ShellFailed e))))"

definition default_sor :: string where "default_sor = ''http://localhost:4318''"

definition cli_command :: "fs_json \<Rightarrow> (string \<Rightarrow> fs_client) \<Rightarrow> (time \<Rightarrow> string) \<Rightarrow> string list \<Rightarrow>
    string \<times> string option \<Rightarrow> nat \<times> string \<times> cli_failure option" where
  \<comment> \<open>\<open>connect\<close> is \<open>NewClient\<close>, for the base URL of the flag\<close>
  "cli_command js connect tm args inp =
     (case parse_flags [(''sor'', string_flag (\<lambda>v base. v))] args default_sor of
        Inl e \<Rightarrow> (flag_exit e, [], Some (BadCommand e))
      | Inr (base, rest) \<Rightarrow> cli_main js (connect base) tm inp)"

section \<open>Shells that show the same\<close>

definition shown :: "('e \<Rightarrow> string) \<Rightarrow> 'e + 'a \<Rightarrow> string + 'a" where
  "shown f r = (case r of Inl e \<Rightarrow> Inl (f e) | Inr x \<Rightarrow> Inr x)"

definition shown_alike :: "'e shell_env \<Rightarrow> 'f shell_env \<Rightarrow> bool" where
  "shown_alike a b \<longleftrightarrow> (\<forall>p. shown (sh_error a) (sh_ls a p) = shown (sh_error b) (sh_ls b p) \<and>
     shown (sh_error a) (sh_cat a p) = shown (sh_error b) (sh_cat b p)) \<and> sh_time a = sh_time b"

lemma shell_cd_shown:
  "shell_cd env args cwd =
    (let target = (if length args > 0 then resolve cwd (args ! 0) else ''/'') in
     case shown (sh_error env) (sh_ls env target) of Inl e \<Rightarrow> (line (''cd: '' @ e), cwd) | Inr es \<Rightarrow> ([], target))"
  by (simp add: shell_cd_def shown_def Let_def split: sum.split)

lemma shell_ls_shown:
  "shell_ls env args cwd =
    (case shown (sh_error env) (sh_ls env (if length args > 0 then resolve cwd (args ! 0) else cwd)) of
       Inl e \<Rightarrow> line (''ls: '' @ e) | Inr es \<Rightarrow> concat (map entry_line es))"
  by (simp add: shell_ls_def shown_def Let_def split: sum.split)

lemma cat_one_shown:
  "cat_one env cwd arg =
    (case shown (sh_error env) (sh_cat env (resolve cwd arg)) of
       Inl e \<Rightarrow> line (''cat: '' @ e)
     | Inr ss \<Rightarrow> concat (map (\<lambda>sm. line (''['' @ sh_time env (smp_time sm) @ ''] '' @ display (smp_value sm) (smp_unit sm))) ss))"
  by (simp add: cat_one_def shown_def format_sample_def split: sum.split)

lemma shell_exec_alike:
  assumes "shown_alike a b"
  shows "shell_exec a cmd args cwd = shell_exec b cmd args cwd"
proof -
  have "cat_one a cwd arg = cat_one b cwd arg" for arg
    using assms by (simp only: cat_one_shown shown_alike_def)
  then have "cat_one a cwd = cat_one b cwd" by blast
  moreover have "shell_cd a args cwd = shell_cd b args cwd" "shell_ls a args cwd = shell_ls b args cwd"
    using assms by (simp_all only: shell_cd_shown shell_ls_shown shown_alike_def)
  ultimately show ?thesis by (simp add: shell_exec_def shell_cat_def)
qed

lemma shell_lines_alike: "shown_alike a b \<Longrightarrow> shell_lines a ls cwd = shell_lines b ls cwd"
  by (induction ls arbitrary: cwd) (simp_all add: shell_exec_alike cong: list.case_cong prod.case_cong bool.case_cong)

lemma shell_run_alike: "shown_alike a b \<Longrightarrow> shell_run a inp = shell_run b inp"
  by (simp add: shell_run_def shell_lines_alike)

section \<open>Properties\<close>

text \<open>
  A session of the command line shows what a session beside the store would: its output, the
  error it ends with and its exit code are those of a shell over the browser behind the handler,
  whatever is typed, when the exchange reaches the handler and JSON carries its replies unchanged.
\<close>

lemma cli_like_local:
  assumes "\<And>p. reaches c ''/fs/ls'' p (serve_ls js q ls p)" and "\<And>p. reaches c ''/fs/cat'' p (serve_cat js q cat p)"
    and "\<And>p es. ls p = Inr es \<Longrightarrow>
      fj_get_entries js (fj_entries js (map entry_json es) @ [CHR 0x0A]) = Inr (map entry_json es)"
    and "\<And>p ss. cat p = Inr ss \<Longrightarrow>
      fj_get_samples js (fj_samples js (map sample_json ss) @ [CHR 0x0A]) = Inr (map sample_json ss)"
    and "\<And>p e. ls p = Inl e \<or> cat p = Inl e \<Longrightarrow> msg_text q (err_msg e) \<noteq> [] \<and>
      fj_get_error js (fj_error js (fst (classify (Some (err_base e))), error_text q e) @ [CHR 0x0A]) =
        Inr (fst (classify (Some (err_base e))), error_text q e)"
    and "ls ''/'' = Inr root"
  shows "cli_main js c tm inp =
    (case shell_run \<lparr>sh_ls = ls, sh_cat = cat, sh_error = error_text q, sh_time = tm\<rparr> inp of
       (out, err) \<Rightarrow> (if err = None then 0 else 1, out, map_option ShellFailed err))"
proof -
  have ls: "client_ls js c p =
      (case ls p of Inr es \<Rightarrow> Inr es | Inl e \<Rightarrow> Inl (SorWrapped (msg_text q (err_msg e)) (err_base e)))" for p
    using assms(5) by (intro client_ls_alike assms(1,3)) blast+
  have cat: "client_cat js c p =
      (case cat p of Inr ss \<Rightarrow> Inr ss | Inl e \<Rightarrow> Inl (SorWrapped (msg_text q (err_msg e)) (err_base e)))" for p
    using assms(5) by (intro client_cat_alike assms(2,4)) blast+
  have "shown_alike (remote_shell js c tm) \<lparr>sh_ls = ls, sh_cat = cat, sh_error = error_text q, sh_time = tm\<rparr>"
    by (simp add: shown_alike_def remote_shell_def shown_def ls cat wrapped_text split: sum.split)
  from shell_run_alike [OF this] show ?thesis
    by (simp add: cli_main_def ls assms(6) split: prod.split option.split)
qed

definition demo_refused :: "string \<Rightarrow> fs_error + sample list" where
  "demo_refused p = Inl (FsError (AtPath ''/'') ErrIsDir)"

definition demo_remote :: fs_client where
  "demo_remote = \<lparr>fc_base = ''sor'', fc_escape = id, fc_fetch = (\<lambda>url.
     let res = (if has_prefix url ''sor/fs/ls'' then serve_ls demo_json id demo_ls ''/''
       else serve_cat demo_json id demo_refused ''/'')
     in Inr (res_status res, Inr (res_body res)))\<rparr>"

theorem cli_like_local_witness:
  "cli_main demo_json demo_remote (\<lambda>_. []) (''ls'' @ [CHR 0x0A] @ ''cat x'', None) =
    (0, ''/> iam/'' @ [CHR 0x0A] @ ''/> cat: /: is a directory'' @ [CHR 0x0A] @ ''/> '' @ [CHR 0x0A], None)"
proof -
  have r: "reaches demo_remote ''/fs/ls'' p (serve_ls demo_json id demo_ls p)"
    "reaches demo_remote ''/fs/cat'' p (serve_cat demo_json id demo_refused p)" for p
    by (simp_all add: reaches_def demo_remote_def has_prefix_def Let_def serve_ls_def serve_cat_def demo_ls_def demo_refused_def)
  have "shell_run \<lparr>sh_ls = demo_ls, sh_cat = demo_refused, sh_error = error_text id, sh_time = (\<lambda>_. [])\<rparr>
      (''ls'' @ [CHR 0x0A] @ ''cat x'', None) =
    (''/> iam/'' @ [CHR 0x0A] @ ''/> cat: /: is a directory'' @ [CHR 0x0A] @ ''/> '' @ [CHR 0x0A], None)"
    by code_simp
  then show ?thesis
    using cli_like_local [OF r, of "[\<lparr>ent_name = ''iam'', ent_dir = True\<rparr>]" "\<lambda>_. []" "(''ls'' @ [CHR 0x0A] @ ''cat x'', None)"]
    by (auto simp: demo_json_def demo_ls_def demo_refused_def entry_json_def classify_def error_text_def)
qed

end
