(* ===== verification/Sor_Http.thy ===== *)
theory Sor_Http
  imports Sor Otlp_Http Cli
begin

text \<open>
  What \<open>cmd/sor/main.go\<close> serves over HTTP: one multiplexer with the OTLP receiver over the
  \<open>tee\<close> below \<open>/v1/\<close> and the browse protocol over the store below \<open>/fs/\<close>. A request
  is a step of the system; the command line at the other end shows the store.
\<close>

section \<open>The server\<close>

definition sor_http :: "'w slack_env \<Rightarrow> (streams \<Rightarrow> stream_id list) \<Rightarrow> ((nat \<rightharpoonup> unit) \<Rightarrow> nat list) \<Rightarrow> budget \<Rightarrow>
    'o otlp_codec \<Rightarrow> fs_json \<Rightarrow> (string \<Rightarrow> string) \<Rightarrow> time \<Rightarrow> 'w sor handler" where
  \<comment> \<open>\<open>now\<close> is what the clock shows while the request is handled\<close>
  "sor_http env rst rfd b codec js q now = serve_mux
     [(''/v1/'', otlp_handler codec (\<lambda>i s S. map_option snd (tee_ingest env rst rfd b i s S)) (Pair now)),
      (''/fs/'', fs_handler js q (\<lambda>S. sor_ls rst (sor_store S)) (\<lambda>S. sor_cat (sor_store S)))]"


text \<open>Beside it the gRPC server, over the same store, alerter and feed.\<close>

record ('ts, 'dur) grpc_server =
  gs_wire :: "('ts, 'dur) pb_wire"
  gs_ls :: "string \<Rightarrow> fs_error + entry list"
  gs_cat :: "string \<Rightarrow> fs_error + sample list"
  gs_alerts :: "alerter option"
  gs_feed :: "feed option"

definition sor_grpc :: "(streams \<Rightarrow> stream_id list) \<Rightarrow> ('ts, 'dur) pb_wire \<Rightarrow> 'w sor \<Rightarrow> ('ts, 'dur) grpc_server" where
  "sor_grpc rst pb S =
     \<lparr>gs_wire = pb, gs_ls = sor_ls rst (sor_store S), gs_cat = sor_cat (sor_store S),
      gs_alerts = sor_alerter S, gs_feed = Some (sor_feed S)\<rparr>"

section \<open>Routing\<close>

lemma sor_paths:
  "pattern_matches ''/fs/'' ''/fs/ls''" "pattern_matches ''/fs/'' ''/fs/cat''"
  "\<not> pattern_matches ''/v1/'' ''/fs/ls''" "\<not> pattern_matches ''/v1/'' ''/fs/cat''"
  by code_simp+

lemma main_route:
  assumes "p = ''/fs/ls'' \<or> p = ''/fs/cat''"
  shows "mux_route [(''/v1/'', h), (''/fs/'', g)] m p = Found g"
  using assms by (elim disjE) (simp_all add: mux_route_def Let_def sor_paths endpoint_paths)

lemma sor_http_fs:
  assumes "ur_path r = ''/fs/ls'' \<or> ur_path r = ''/fs/cat''"
  shows "sor_http env rst rfd b codec js q now r S =
    fs_handler js q (\<lambda>S. sor_ls rst (sor_store S)) (\<lambda>S. sor_cat (sor_store S)) r S"
  by (simp add: sor_http_def serve_mux_def main_route [OF assms])

lemma sor_http_redirect:
  assumes "n \<noteq> 0" and "req_method (ur_http r) = ''GET''" and "endpoint = ''/fs/ls'' \<or> endpoint = ''/fs/cat''"
    and "ur_path r = replicate n CHR ''/'' @ endpoint"
  shows "sor_http env rst rfd b codec js q now r S = Some (Redirected endpoint, S)"
proof -
  have "clean_url_path (ur_path r) = endpoint"
    using assms(3) clean_url_path_slashes [of n "''fs/ls''"] clean_url_path_slashes [of n "''fs/cat''"]
    by (auto simp: assms(4) endpoint_paths)
  moreover have "ur_path r \<noteq> endpoint" using assms(1) by (simp add: assms(4))
  moreover have "pattern_matches ''/v1/'' endpoint = False" "pattern_matches ''/fs/'' endpoint"
    using assms(3) by (auto simp: sor_paths)
  ultimately show ?thesis
    by (simp add: sor_http_def serve_mux_def mux_route_def Let_def assms(2))
qed

text \<open>A request with samples is one for the receiver.\<close>

lemma sor_http_eq:
  "\<exists>reply. sor_http env rst rfd b codec js q now r S = map_option (Pair reply)
    (ingest_samples (try_sink (\<lambda>i s S. map_option snd (tee_ingest env rst rfd b i s S)))
      (request_samples codec now r) (Some S))"
    (is "\<exists>reply. _ = map_option (Pair reply) (ingest_samples ?sink ?xs (Some S))")
proof (cases "?xs = []")
  case True
  have "\<exists>reply. sor_http env rst rfd b codec js q now r S = Some (reply, S)"
    unfolding sor_http_def
  proof (rule serve_mux_cases)
    fix pat h
    assume h: "(pat, h) \<in> set
      [(''/v1/'', otlp_handler codec (\<lambda>i s S. map_option snd (tee_ingest env rst rfd b i s S)) (Pair now)),
       (''/fs/'', fs_handler js q (\<lambda>S. sor_ls rst (sor_store S)) (\<lambda>S. sor_cat (sor_store S)))]"
    have "\<exists>reply. fs_handler js q ls cat r S = Some (reply, S)" for ls cat
      unfolding fs_handler_def by (rule serve_mux_cases) auto
    then show "\<exists>reply. h r S = Some (reply, S)"
      using h True otlp_handler_eq [of codec "\<lambda>i s S. map_option snd (tee_ingest env rst rfd b i s S)" now r S]
      by auto
  qed blast
  then show ?thesis using True by simp
next
  case False
  then have "req_method (ur_http r) = ''POST''" "clean_url_path (ur_path r) = ur_path r"
    "path_segments (ur_path r) \<in> {[[], ''v1'', ''metrics''], [[], ''v1'', ''logs'']}"
    by (auto simp: request_samples_def routed_to_def dest: exported_post split: if_splits option.splits)
  then have "sor_http env rst rfd b codec js q now r S =
      otlp_handler codec (\<lambda>i s S. map_option snd (tee_ingest env rst rfd b i s S)) (Pair now) r S"
    by (auto simp: sor_http_def serve_mux_def mux_route_def Let_def otlp_paths)
  then show ?thesis by (simp add: otlp_handler_eq)
qed

text \<open>Samples that arrive one after the other, as a run.\<close>

lemma ingest_run:
  assumes "streams_range rst" and "subs_range rfd" and "sor_run env rst rfd fl load ops S"
  shows "\<exists>S'. ingest_samples (try_sink (\<lambda>i s S. map_option snd
      (tee_ingest env rst rfd \<lparr>max_samples = fl_max_samples fl\<rparr> i s S))) xs (Some S) = Some S' \<and>
    sor_run env rst rfd fl load (ops @ map (\<lambda>(i, s). Observe_Op i s) xs) S'"
  using assms(3)
proof (induction xs arbitrary: ops S)
  case Nil
  then show ?case by simp
next
  case (Cons x xs)
  obtain i s where x: "x = (i, s)" by (cases x)
  obtain err S1 where t: "tee_ingest env rst rfd \<lparr>max_samples = fl_max_samples fl\<rparr> i s S = Some (err, S1)"
    using subs_range.tee_ok [OF assms(2,1) subs_range.run_ok [OF assms(2,1) Cons.prems], of env i s] by blast
  from Cons.IH [OF sor_run.ingest [OF Cons.prems t]] show ?case by (simp add: x try_sink_def t)
qed

text \<open>A client of the server reaches what is below \<open>/fs/\<close>.\<close>

lemma sor_reaches:
  assumes c: "c = client_of origin (replicate n CHR ''/'')
    (\<lambda>r. map_option fst (sor_http env rst rfd b codec js q now r S))"
  shows "reaches c ''/fs/ls'' p (serve_ls js q (sor_ls rst (sor_store S)) p)"
    and "reaches c ''/fs/cat'' p (serve_cat js q (sor_cat (sor_store S)) p)"
proof -
  have redirect: "map_option fst (sor_http env rst rfd b codec js q now r S) = Some (Redirected endpoint)"
    if "n \<noteq> 0" "req_method (ur_http r) = ''GET''" "endpoint = ''/fs/ls'' \<or> endpoint = ''/fs/cat''"
      "ur_path r = replicate n CHR ''/'' @ endpoint" for r endpoint
    by (simp add: sor_http_redirect [OF that])
  show "reaches c ''/fs/ls'' p (serve_ls js q (sor_ls rst (sor_store S)) p)"
    unfolding c by (rule client_of_reaches, simp, simp add: sor_http_fs fs_handler_ls, rule redirect) simp_all
  show "reaches c ''/fs/cat'' p (serve_cat js q (sor_cat (sor_store S)) p)"
    unfolding c by (rule client_of_reaches, simp, simp add: sor_http_fs fs_handler_cat, rule redirect) simp_all
qed

lemma sor_error_text:
  "sor_ls rst st p = Inl e \<or> sor_cat st p = Inl e \<Longrightarrow> msg_text q (err_msg e) \<noteq> []"
  by (elim disjE) (rule browser_ls_error_text browser_cat_error_text, assumption)+

section \<open>Properties\<close>

text \<open>
  C10: Whatever arrives over HTTP is a step of the system: a request that reaches a sor neither
  panics nor breaks what its runs guarantee. The state after it is the one a run reaches by
  ingesting exactly the samples of its message, one after the other; a request without samples (every
  request that is no accepted export: another method, another path, a bad body) changes nothing.
\<close>

theorem requests_are_runs:
  assumes "streams_range rst" and "subs_range rfd" and "sor_run env rst rfd fl load ops S"
  shows "\<exists>reply S'. sor_http env rst rfd \<lparr>max_samples = fl_max_samples fl\<rparr> codec js q now r S = Some (reply, S') \<and>
    sor_run env rst rfd fl load (ops @ map (\<lambda>(i, s). Observe_Op i s) (request_samples codec now r)) S' \<and>
    (request_samples codec now r = [] \<longrightarrow> S' = S)"
proof -
  obtain reply where reply: "sor_http env rst rfd \<lparr>max_samples = fl_max_samples fl\<rparr> codec js q now r S =
    map_option (Pair reply) (ingest_samples (try_sink (\<lambda>i s S. map_option snd
      (tee_ingest env rst rfd \<lparr>max_samples = fl_max_samples fl\<rparr> i s S))) (request_samples codec now r) (Some S))"
    using sor_http_eq by blast
  then show ?thesis using ingest_run [OF assms, of "request_samples codec now r"]
    by (auto simp: ingest_samples_def)
qed


definition same_answer :: "('a \<Rightarrow> 'b) \<Rightarrow> (grpc_code \<times> string) + 'b list \<Rightarrow> client_error + 'a list \<Rightarrow> bool" where
  "same_answer f g h =
     (case g of
        Inr ys \<Rightarrow> (\<exists>xs. h = Inr xs \<and> ys = map f xs)
      | Inl (code, txt) \<Rightarrow> (\<exists>m base. h = Inl (SorWrapped m base) \<and> client_error_text (SorWrapped m base) = txt \<and>
          (code = GrpcNotFound \<longleftrightarrow> base = ErrNotFound)))"

lemma same_failure: "same_answer f (Inl (to_status q e)) (Inl (SorWrapped (msg_text q (err_msg e)) (err_base e)))"
  by (simp add: same_answer_def to_status_def wrapped_text Let_def)

lemma same_success: "same_answer f (Inr (map f xs)) (Inr xs)"
  by (simp add: same_answer_def)

text \<open>
  C12: The web interface and the command line see the same: over gRPC and over HTTP, \<open>ls\<close> and
  \<open>cat\<close> of a path give the same entries and samples, or fail with the same text, as not found over
  the one exactly if over the other, when JSON carries the replies of this store unchanged. The rules
  reported over gRPC are those of the configuration, firing as their monitors do.
\<close>

theorem interfaces_agree:
  assumes "\<And>es. sor_ls rst (sor_store S) p = Inr es \<Longrightarrow>
      fj_get_entries js (fj_entries js (map entry_json es) @ [CHR 0x0A]) = Inr (map entry_json es)"
    and "\<And>ss. sor_cat (sor_store S) p = Inr ss \<Longrightarrow>
      fj_get_samples js (fj_samples js (map sample_json ss) @ [CHR 0x0A]) = Inr (map sample_json ss)"
    and "\<And>e. sor_ls rst (sor_store S) p = Inl e \<or> sor_cat (sor_store S) p = Inl e \<Longrightarrow>
      fj_get_error js (fj_error js (fst (classify (Some (err_base e))), error_text q e) @ [CHR 0x0A]) =
        Inr (fst (classify (Some (err_base e))), error_text q e)"
    and "subs_range rfd" and "streams_range rst" and "sor_run env rst rfd fl load ops S"
    and "c = client_of origin (replicate n CHR ''/'') (\<lambda>r. map_option fst (sor_http env rst rfd b codec js q now r S))"
    and "G = sor_grpc rst pb S"
  shows "same_answer (\<lambda>e. \<lparr>pe_name = ent_name e, pe_dir = ent_dir e\<rparr>) (grpc_ls q (gs_ls G) p) (client_ls js c p) \<and>
    same_answer (to_sample pb) (grpc_cat (gs_wire G) q (gs_cat G) p) (client_cat js c p) \<and>
    grpc_rules (gs_wire G) (gs_alerts G) =
      map (\<lambda>r. \<lparr>prs_rule = to_rule pb r, prs_firing = monitor_firing (rule_monitor (fl_absent_grace fl) r ops)\<rparr>)
        (case sor_rules fl load of None \<Rightarrow> [] | Some rs \<Rightarrow> rs)"
proof -
  note reach = sor_reaches [OF assms(7), of p]
  have ls: "client_ls js c p = (case sor_ls rst (sor_store S) p of Inr es \<Rightarrow> Inr es
      | Inl e \<Rightarrow> Inl (SorWrapped (msg_text q (err_msg e)) (err_base e)))"
    using assms(3) by (intro client_ls_alike [OF reach(1) assms(1)] conjI sor_error_text) blast+
  have cat: "client_cat js c p = (case sor_cat (sor_store S) p of Inr ss \<Rightarrow> Inr ss
      | Inl e \<Rightarrow> Inl (SorWrapped (msg_text q (err_msg e)) (err_base e)))"
    using assms(3) by (intro client_cat_alike [OF reach(2) assms(2)] conjI sor_error_text) blast+
  have ok: "sor_ok fl (sor_rules fl load) ops S" by (rule subs_range.run_ok [OF assms(4-6)])
  have "grpc_rules pb (sor_alerter S) =
      map (\<lambda>r. \<lparr>prs_rule = to_rule pb r, prs_firing = monitor_firing (rule_monitor (fl_absent_grace fl) r ops)\<rparr>)
        (case sor_rules fl load of None \<Rightarrow> [] | Some rs \<Rightarrow> rs)"
    using ok by (auto simp: sor_ok_def grpc_rules_def alerter_status_eq split: option.splits)
  moreover have "same_answer (\<lambda>e. \<lparr>pe_name = ent_name e, pe_dir = ent_dir e\<rparr>) (grpc_ls q (gs_ls G) p) (client_ls js c p)"
    by (cases "sor_ls rst (sor_store S) p") (simp_all add: assms(8) sor_grpc_def grpc_ls_def ls same_failure same_success)
  moreover have "same_answer (to_sample pb) (grpc_cat (gs_wire G) q (gs_cat G) p) (client_cat js c p)"
    by (cases "sor_cat (sor_store S) p") (simp_all add: assms(8) sor_grpc_def grpc_cat_def cat same_failure same_success)
  ultimately show ?thesis by (simp add: assms(8) sor_grpc_def)
qed

text \<open>A sor without alert rules.\<close>

definition demo_quiet :: sor_flags where
  "demo_quiet = \<lparr>fl_alerts = [], fl_absent_grace = 0, fl_max_samples = 2, fl_retention = 10\<rparr>"

definition demo_empty_json :: fs_json where
  "demo_empty_json = demo_json\<lparr>fj_get_entries := (\<lambda>_. Inr [])\<rparr>"

definition demo_sor :: "unit sor" where
  "demo_sor = \<lparr>sor_store = new_store, sor_alerter = None, sor_slack = (new_slack Map.empty, ()), sor_feed = new_feed 256\<rparr>"

lemma demo_sor_start:
  "sor_start demo_outside ascending_keys demo_quiet (\<lambda>_. Inr demo_config) 5 () = Inr demo_sor"
  by (simp add: sor_start_def demo_quiet_def demo_sor_def)

theorem requests_are_runs_witness:
  "\<exists>S'. sor_run demo_outside ascending_keys ascending_keys demo_quiet (\<lambda>_. Inr demo_config)
    [Check_Op 5, Observe_Op \<lparr>sid_namespace = ''default'', sid_service = ''api'', sid_kind = Metrics, sid_name = ''m''\<rparr>
      \<lparr>smp_time = 7, smp_value = ''7'', smp_unit = ''By''\<rparr>] S'"
proof -
  have "request_samples demo_codec 7 demo_post =
      [(\<lparr>sid_namespace = ''default'', sid_service = ''api'', sid_kind = Metrics, sid_name = ''m''\<rparr>,
        \<lparr>smp_time = 7, smp_value = ''7'', smp_unit = ''By''\<rparr>)]" by code_simp
  then show ?thesis
    using requests_are_runs [OF ordered.streams_range_axioms subs_ascending.subs_range_axioms
        sor_run.start [OF demo_sor_start], of demo_codec demo_json id 7 demo_post]
    by auto
qed

lemma demo_empty_ls:
  assumes "sor_ls ascending_keys new_store p = Inr es"
  shows "es = []"
proof -
  have "p = ''/''"
    using streams_range.ls_on_store [OF ordered.streams_range_axioms store_inv_new, of p] assms
    by (auto simp: path_string_def empty_path_def)
  then show ?thesis
    using assms by (simp add: browser_ls_def parse_path_def path_depth_def empty_path_def dirs_def
      store_namespaces_def store_collect_def new_store_def ascending_keys_def)
qed

lemma demo_empty_cat: "sor_cat new_store p \<noteq> Inr ss"
  by (auto simp: browser_cat_def bind_result_def store_samples_def new_store_def split: sum.splits if_splits)


definition demo_wire :: "(time, duration) pb_wire" where
  "demo_wire = \<lparr>pb_timestamp = id, pb_duration = id\<rparr>"

theorem interfaces_agree_witness:
  "grpc_cat demo_wire id (gs_cat (sor_grpc ascending_keys demo_wire demo_sor)) ''/x'' =
      Inl (GrpcInvalidArgument, ''/x: is a directory'') \<and>
    (\<exists>m base. client_cat demo_empty_json (client_of ''http://sor'' []
      (\<lambda>r. map_option fst (sor_http demo_outside ascending_keys ascending_keys \<lparr>max_samples = 2\<rparr> demo_codec
        demo_empty_json id 7 r demo_sor))) ''/x'' = Inl (SorWrapped m base) \<and>
      client_error_text (SorWrapped m base) = ''/x: is a directory'')"
proof -
  have cat: "sor_cat new_store ''/x'' = Inl (FsError (AtPath ''/x'') ErrIsDir)" by code_simp
  have error: "fj_get_error demo_empty_json (fj_error demo_empty_json (fst (classify (Some b)), m) @ [CHR 0x0A]) =
      Inr (fst (classify (Some b)), m)" for b m
    by (cases b) (simp_all add: demo_empty_json_def demo_json_def classify_def)
  have grpc: "grpc_cat demo_wire id (gs_cat (sor_grpc ascending_keys demo_wire demo_sor)) ''/x'' =
      Inl (GrpcInvalidArgument, ''/x: is a directory'')"
    by (simp add: grpc_cat_def sor_grpc_def demo_sor_def cat to_status_def error_text_def)
  have "same_answer (to_sample demo_wire)
      (grpc_cat (gs_wire (sor_grpc ascending_keys demo_wire demo_sor)) id (gs_cat (sor_grpc ascending_keys demo_wire demo_sor)) ''/x'')
      (client_cat demo_empty_json (client_of ''http://sor'' (replicate 0 CHR ''/'')
        (\<lambda>r. map_option fst (sor_http demo_outside ascending_keys ascending_keys \<lparr>max_samples = 2\<rparr> demo_codec
          demo_empty_json id 7 r demo_sor))) ''/x'')"
    by (rule interfaces_agree [OF _ _ _ subs_ascending.subs_range_axioms ordered.streams_range_axioms
          sor_run.start [OF demo_sor_start] refl refl, THEN conjunct2, THEN conjunct1])
      (use error demo_empty_ls demo_empty_cat in \<open>auto simp: demo_sor_def demo_empty_json_def\<close>)
  moreover have "gs_wire (sor_grpc ascending_keys demo_wire demo_sor) = demo_wire" by (simp add: sor_grpc_def)
  ultimately show ?thesis using grpc by (auto simp: same_answer_def)
qed

end
