(* ===== verification/Healthcheck.thy ===== *)
theory Healthcheck
  imports Fsapi Memstore
begin

text \<open>
  \<open>cmd/sor/healthcheck.go\<close>: the probe of \<open>sor -healthcheck\<close>. \<open>net.SplitHostPort\<close> and
  \<open>net.JoinHostPort\<close> are written out; whether a host is the text of an unspecified IP address
  and the HTTP exchange are parameters.
\<close>

section \<open>Addresses\<close>

datatype addr_error = MissingPort | TooManyColons | MissingBracket | UnexpectedOpen | UnexpectedClose

definition last_index_byte :: "string \<Rightarrow> char \<Rightarrow> nat option" where
  "last_index_byte s c = map_option (\<lambda>k. length s - 1 - k) (index_byte (rev s) c)"

definition host_and_port :: "string \<Rightarrow> string \<Rightarrow> nat \<Rightarrow> nat \<Rightarrow> nat \<Rightarrow> addr_error + string \<times> string" where
  \<comment> \<open>the checks at the end of \<open>SplitHostPort\<close>\<close>
  "host_and_port s host i j k =
     (if CHR ''['' \<in> set (drop j s) then Inl UnexpectedOpen
      else if CHR '']'' \<in> set (drop k s) then Inl UnexpectedClose
      else Inr (host, drop (Suc i) s))"

definition split_host_port :: "string \<Rightarrow> addr_error + string \<times> string" where
  "split_host_port s =
     (case last_index_byte s CHR '':'' of
        None \<Rightarrow> Inl MissingPort
      | Some i \<Rightarrow>
          if s ! 0 = CHR ''['' then
            (case index_byte s CHR '']'' of
               None \<Rightarrow> Inl MissingBracket
             | Some e \<Rightarrow>
                 if Suc e = length s then Inl MissingPort
                 else if Suc e = i then host_and_port s (drop 1 (take e s)) i 1 (Suc e)
                 else if s ! Suc e = CHR '':'' then Inl TooManyColons
                 else Inl MissingPort)
          else
            let host = take i s in
            if CHR '':'' \<in> set host then Inl TooManyColons else host_and_port s host i 0 0)"

definition join_host_port :: "string \<Rightarrow> string \<Rightarrow> string" where
  "join_host_port host port =
     (if CHR '':'' \<in> set host then ''['' @ host @ '']:'' @ port else host @ '':'' @ port)"

section \<open>The probe\<close>

definition health_path :: string where "health_path = ''/fs/ls?path=/''"

datatype health_error = BadListen string addr_error | NoPort string

definition health_url :: "(string \<Rightarrow> bool) \<Rightarrow> string \<Rightarrow> health_error + string" where
  "health_url unspecified listen =
     (case split_host_port listen of
        Inl e \<Rightarrow> Inl (BadListen listen e)
      | Inr (host, port) \<Rightarrow>
          if port = [] then Inl (NoPort listen)
          else
            let host = (if host = [] \<or> unspecified host then ''127.0.0.1'' else host)
            in Inr (''http://'' @ join_host_port host port @ health_path))"

definition check_health :: "(string \<Rightarrow> string + nat \<times> string) \<Rightarrow> string \<Rightarrow> string option" where
  \<comment> \<open>the error, if any; \<open>fetch\<close> gives the status code and the status line of a GET\<close>
  "check_health fetch url =
     (case fetch url of
        Inl e \<Rightarrow> Some e
      | Inr (code, status) \<Rightarrow> if code \<noteq> status_ok then Some (''GET '' @ url @ '': '' @ status) else None)"

definition healthcheck_exit :: "(string \<Rightarrow> bool) \<Rightarrow> (string \<Rightarrow> string + nat \<times> string) \<Rightarrow> string \<Rightarrow> nat" where
  \<comment> \<open>the exit code of \<open>sor -healthcheck\<close>\<close>
  "healthcheck_exit unspecified fetch listen =
     (case health_url unspecified listen of
        Inl e \<Rightarrow> 1
      | Inr url \<Rightarrow> (case check_health fetch url of Some e \<Rightarrow> 1 | None \<Rightarrow> 0))"

section \<open>Lemmas\<close>

lemma last_index_byte_append: "c \<notin> set ys \<Longrightarrow> last_index_byte (xs @ c # ys) c = Some (length xs)"
  using index_byte_append [of c "rev ys" "rev xs"] by (simp add: last_index_byte_def)

lemma split_join_host_port:
  assumes "CHR ''['' \<notin> set host" and "CHR '']'' \<notin> set host" and "port \<noteq> []"
    and "list_all (\<lambda>c. c \<noteq> CHR '':'' \<and> c \<noteq> CHR ''['' \<and> c \<noteq> CHR '']'') port"
  shows "split_host_port (join_host_port host port) = Inr (host, port)"
proof (cases "CHR '':'' \<in> set host")
  case True
  let ?s = "CHR ''['' # host @ CHR '']'' # CHR '':'' # port"
  have port: "CHR '':'' \<notin> set port" "CHR ''['' \<notin> set port" "CHR '']'' \<notin> set port"
    using assms(4) by (auto simp: list_all_iff)
  have "last_index_byte ((CHR ''['' # host @ '']'') @ CHR '':'' # port) CHR '':'' = Some (length (CHR ''['' # host @ '']''))"
    by (rule last_index_byte_append [OF port(1)])
  moreover have "index_byte ((CHR ''['' # host) @ CHR '']'' # CHR '':'' # port) CHR '']'' = Some (length (CHR ''['' # host))"
    using assms(2) by (intro index_byte_append) auto
  ultimately have idx: "last_index_byte ?s CHR '':'' = Some (Suc (Suc (length host)))"
    "index_byte ?s CHR '']'' = Some (Suc (length host))" by simp_all
  have "split_host_port ?s = host_and_port ?s host (Suc (Suc (length host))) 1 (Suc (Suc (length host)))"
    unfolding split_host_port_def idx using assms(3) by simp
  then show ?thesis using True port assms by (simp add: join_host_port_def host_and_port_def)
next
  case False
  have port: "CHR '':'' \<notin> set port" "CHR ''['' \<notin> set port" "CHR '']'' \<notin> set port"
    using assms(4) by (auto simp: list_all_iff)
  have idx: "last_index_byte (host @ CHR '':'' # port) CHR '':'' = Some (length host)"
    by (rule last_index_byte_append [OF port(1)])
  have head: "(host @ CHR '':'' # port) ! 0 \<noteq> CHR ''[''" using assms(1) by (cases host) auto
  show ?thesis
    unfolding split_host_port_def join_host_port_def using False idx head port assms(1,2)
    by (simp add: host_and_port_def Let_def)
qed

lemma check_health_iff: "check_health fetch url = None \<longleftrightarrow> (\<exists>text. fetch url = Inr (status_ok, text))"
  by (auto simp: check_health_def split: sum.splits)

lemma healthcheck_exit_iff:
  "healthcheck_exit unspecified fetch listen = 0 \<longleftrightarrow>
    (\<exists>url text. health_url unspecified listen = Inr url \<and> fetch url = Inr (status_ok, text))"
  by (auto simp: healthcheck_exit_def check_health_def split: sum.splits option.splits)

lemma health_url_join:
  assumes "CHR ''['' \<notin> set host" and "CHR '']'' \<notin> set host" and "port \<noteq> []"
    and "list_all (\<lambda>c. c \<noteq> CHR '':'' \<and> c \<noteq> CHR ''['' \<and> c \<noteq> CHR '']'') port"
  shows "health_url unspecified (join_host_port host port) =
    Inr (''http://'' @ join_host_port (if host = [] \<or> unspecified host then ''127.0.0.1'' else host) port @ health_path)"
  unfolding health_url_def split_join_host_port [OF assms] using assms(3) by (simp add: Let_def)

section \<open>Properties\<close>

text \<open>
  The probe reaches the root listing of the server it sits beside: for a listen address
  \<open>host:port\<close> (brackets around a host with colons) it exits with 0 exactly if a GET of
  \<open>/fs/ls?path=/\<close> on that port, on the host itself or on 127.0.0.1 when the address names none,
  is answered with 200, and a sor answers that request with 200 whatever its store holds.
\<close>

theorem healthcheck_probes_root:
  assumes "CHR ''['' \<notin> set host" and "CHR '']'' \<notin> set host" and "port \<noteq> []"
    and "list_all (\<lambda>c. c \<noteq> CHR '':'' \<and> c \<noteq> CHR ''['' \<and> c \<noteq> CHR '']'') port"
  shows "(healthcheck_exit unspecified fetch (join_host_port host port) = 0 \<longleftrightarrow>
      (\<exists>text. fetch (''http://'' @
        join_host_port (if host = [] \<or> unspecified host then ''127.0.0.1'' else host) port @
        ''/fs/ls?path=/'') = Inr (200, text))) \<and>
    res_status (serve_ls js q (browser_ls (store_namespaces rng) (store_services rng)
      (store_stream_names rng) store_samples st) ''/'') = 200"
proof
  note url = health_url_join [OF assms, of unspecified]
  show "healthcheck_exit unspecified fetch (join_host_port host port) = 0 \<longleftrightarrow>
      (\<exists>text. fetch (''http://'' @
        join_host_port (if host = [] \<or> unspecified host then ''127.0.0.1'' else host) port @
        ''/fs/ls?path=/'') = Inr (200, text))"
    unfolding healthcheck_exit_iff url health_path_def status_ok_def by blast
  obtain es where "browser_ls (store_namespaces rng) (store_services rng) (store_stream_names rng)
      store_samples st ''/'' = Inr es"
    using browser.ls_root [of "store_namespaces rng" "store_services rng" "store_stream_names rng" store_samples st]
    by (elim exE)
  then show "res_status (serve_ls js q (browser_ls (store_namespaces rng) (store_services rng)
      (store_stream_names rng) store_samples st) ''/'') = 200"
    by (simp add: serve_ls_def write_json_def status_ok_def)
qed

theorem healthcheck_probes_root_witness:
  "healthcheck_exit (\<lambda>h. h = ''::'') (\<lambda>url. if url = ''http://127.0.0.1:4318/fs/ls?path=/'' then Inr (200, []) else Inl [])
    ''[::]:4318'' = 0"
  using healthcheck_probes_root [of "''::''" "''4318''" "\<lambda>h. h = ''::''"
      "\<lambda>url. if url = ''http://127.0.0.1:4318/fs/ls?path=/'' then Inr (200, []) else Inl []"]
  by (simp add: join_host_port_def)

end
