(* ===== verification/Sor_Main.thy ===== *)
theory Sor_Main
  imports Sor_Http Healthcheck Go_Flag
begin

text \<open>
  \<open>main\<close> of \<open>cmd/sor/main.go\<close>: the command line, what the command does for it, and how it
  ends. The network is a parameter: which addresses can be listened on, and what the probe fetches.
\<close>

section \<open>The command line\<close>

record sor_options =
  so_listen :: string
  so_grpc :: string
  so_flags :: sor_flags        \<comment> \<open>alerts, absent-grace, max-samples, retention\<close>
  so_evict_every :: duration
  so_check_every :: duration
  so_validate :: bool
  so_healthcheck :: bool

definition default_options :: sor_options where
  "default_options = \<lparr>so_listen = '':4318'', so_grpc = '':4319'',
     so_flags = \<lparr>fl_alerts = [], fl_absent_grace = 0, fl_max_samples = 1000000, fl_retention = seconds 10800\<rparr>,
     so_evict_every = seconds 30, so_check_every = seconds 1, so_validate = False, so_healthcheck = False\<rparr>"

definition sor_flag_defs :: "(string \<times> sor_options flag) list" where
  "sor_flag_defs =
     [(''listen'', string_flag (\<lambda>v p. p\<lparr>so_listen := v\<rparr>)),
      (''grpc'', string_flag (\<lambda>v p. p\<lparr>so_grpc := v\<rparr>)),
      (''retention'', duration_flag (\<lambda>d p. p\<lparr>so_flags := (so_flags p)\<lparr>fl_retention := d\<rparr>\<rparr>)),
      (''max-samples'', int_flag (\<lambda>n p. p\<lparr>so_flags := (so_flags p)\<lparr>fl_max_samples := n\<rparr>\<rparr>)),
      (''evict-every'', duration_flag (\<lambda>d p. p\<lparr>so_evict_every := d\<rparr>)),
      (''alerts'', string_flag (\<lambda>v p. p\<lparr>so_flags := (so_flags p)\<lparr>fl_alerts := v\<rparr>\<rparr>)),
      (''check-every'', duration_flag (\<lambda>d p. p\<lparr>so_check_every := d\<rparr>)),
      (''validate'', BoolFlag (\<lambda>b p. p\<lparr>so_validate := b\<rparr>)),
      (''healthcheck'', BoolFlag (\<lambda>b p. p\<lparr>so_healthcheck := b\<rparr>)),
      (''absent-grace'', duration_flag (\<lambda>d p. p\<lparr>so_flags := (so_flags p)\<lparr>fl_absent_grace := d\<rparr>\<rparr>))]"

section \<open>The command\<close>

record ('e, 'w) sor_world =
  sw_slack :: "'w slack_env"
  sw_load :: "string \<Rightarrow> 'e conf_error + config"
  sw_unspecified :: "string \<Rightarrow> bool"
  sw_fetch :: "string \<Rightarrow> string + nat \<times> string"
  sw_tcp :: "string \<Rightarrow> bool"     \<comment> \<open>whether an address can be listened on\<close>
  sw_now :: time
  sw_outside :: 'w

record 'w running =
  rn_sor :: "'w sor"
  rn_checks :: bool   \<comment> \<open>whether the \<open>check-every\<close> loop turns: \<open>time.Tick\<close> gives no channel for a duration that is not positive\<close>
  rn_evicts :: bool
  rn_grpc :: bool

datatype 'e sor_failure = BadFlags flag_error | ProbeFailed | BadRules "'e validate_error"
  | BadStart "'e start_error" | NoGrpcListener | NoHttpListener

datatype ('e, 'w) sor_outcome = Done string | Failed "'e sor_failure" | Serving "'w running"

definition sor_serve :: "((nat \<rightharpoonup> unit) \<Rightarrow> nat list) \<Rightarrow> ('e, 'w) sor_world \<Rightarrow> sor_options \<Rightarrow> ('e, 'w) sor_outcome" where
  "sor_serve rfd W p =
     (case sor_start (sw_slack W) rfd (so_flags p) (sw_load W) (sw_now W) (sw_outside W) of
        Inl e \<Rightarrow> Failed (BadStart e)
      | Inr S \<Rightarrow>
          if so_grpc p \<noteq> [] \<and> \<not> sw_tcp W (so_grpc p) then Failed NoGrpcListener
          else if \<not> sw_tcp W (so_listen p) then Failed NoHttpListener
          else Serving \<lparr>rn_sor = S,
            rn_checks = (fl_alerts (so_flags p) \<noteq> [] \<and> dur_less 0 (so_check_every p)),
            rn_evicts = dur_less 0 (so_evict_every p), rn_grpc = (so_grpc p \<noteq> [])\<rparr>)"

definition sor_command :: "((nat \<rightharpoonup> unit) \<Rightarrow> nat list) \<Rightarrow> ('e, 'w) sor_world \<Rightarrow> sor_options \<Rightarrow> ('e, 'w) sor_outcome" where
  "sor_command rfd W p =
     (if so_healthcheck p then
        (if healthcheck_exit (sw_unspecified W) (sw_fetch W) (so_listen p) = 0 then Done [] else Failed ProbeFailed)
      else if so_validate p then
        (case validate_alerts (sw_load W) (fl_alerts (so_flags p)) of
           Inl e \<Rightarrow> Failed (BadRules e)
         | Inr summary \<Rightarrow> Done (summary @ [CHR 0x0A]))
      else sor_serve rfd W p)"

definition sor_main :: "((nat \<rightharpoonup> unit) \<Rightarrow> nat list) \<Rightarrow> ('e, 'w) sor_world \<Rightarrow> string list \<Rightarrow> ('e, 'w) sor_outcome" where
  "sor_main rfd W args =
     (case parse_flags sor_flag_defs args default_options of
        Inl e \<Rightarrow> Failed (BadFlags e)
      | Inr (p, rest) \<Rightarrow> sor_command rfd W p)"

definition sor_exit :: "('e, 'w) sor_outcome \<Rightarrow> nat option" where
  \<comment> \<open>the exit code; None while it serves\<close>
  "sor_exit r =
     (case r of
        Done out \<Rightarrow> Some 0
      | Failed (BadFlags e) \<Rightarrow> Some (flag_exit e)
      | Failed (BadStart StartPanic) \<Rightarrow> Some 2
      | Failed _ \<Rightarrow> Some 1
      | Serving rn \<Rightarrow> None)"

section \<open>Lemmas\<close>

lemma parse_validate: "parse_flags sor_flag_defs [''-validate''] p = Inr (p\<lparr>so_validate := True\<rparr>, [])"
  by (simp add: parse_flags.simps parse_one_def parse_named_def flag_value_def flag_argument_def set_flag_def
      sor_flag_defs_def parse_bool_def Let_def)

lemma parse_probe:
  "parse_flags sor_flag_defs [''-healthcheck'', ''-listen='' @ l] p =
    Inr (p\<lparr>so_healthcheck := True, so_listen := l\<rparr>, [])"
proof -
  have "parse_flags sor_flag_defs [CHR ''-'' # ''listen'' @ CHR ''='' # l] f = Inr (f\<lparr>so_listen := l\<rparr>, [])" for f
    by (subst parse_flags_assign [where fl = "string_flag (\<lambda>v p. p\<lparr>so_listen := v\<rparr>)"])
      (simp_all add: flag_name_def sor_flag_defs_def set_flag_def string_flag_def parse_flags.simps parse_one_def)
  then show ?thesis
    by (subst parse_flags.simps)
      (simp add: parse_one_def parse_named_def flag_value_def flag_argument_def set_flag_def sor_flag_defs_def
        parse_bool_def Let_def)
qed

section \<open>Properties\<close>

text \<open>
  C28: \<open>-validate\<close> predicts the start: added to a command line that sets a rules file (and a
  grace that is not negative), it makes \<open>sor\<close> exit with 0 exactly if the command without it goes
  on to serve, when its addresses can be listened on.
\<close>

theorem validate_predicts_serving:
  assumes "subs_range rfd" and "parse_flags sor_flag_defs args default_options = Inr (p, [])" and "''--'' \<notin> set args"
    and "\<not> so_healthcheck p" and "\<not> so_validate p"
    and "fl_alerts (so_flags p) \<noteq> []" and "\<not> dur_less (fl_absent_grace (so_flags p)) 0"
    and "so_grpc p = [] \<or> sw_tcp W (so_grpc p)" and "sw_tcp W (so_listen p)"
  shows "sor_exit (sor_main rfd W (args @ [''-validate''])) = Some 0 \<longleftrightarrow> sor_exit (sor_main rfd W args) = None"
proof -
  have valid: "sor_main rfd W (args @ [''-validate'']) =
      (case validate_alerts (sw_load W) (fl_alerts (so_flags p)) of
         Inl e \<Rightarrow> Failed (BadRules e) | Inr summary \<Rightarrow> Done (summary @ [CHR 0x0A]))"
    using assms(4) by (simp add: sor_main_def parse_flags_append [OF assms(2,3)] parse_validate sor_command_def)
  have serve: "sor_main rfd W args = sor_serve rfd W p"
    using assms(2,4,5) by (simp add: sor_main_def sor_command_def)
  have "(\<exists>text. validate_alerts (sw_load W) (fl_alerts (so_flags p)) = Inr text) \<longleftrightarrow>
      (\<exists>S. sor_start (sw_slack W) rfd (so_flags p) (sw_load W) (sw_now W) (sw_outside W) = Inr S)"
    by (rule validate_predicts_start [OF assms(1,7,6)])
  then show ?thesis unfolding valid serve
    using assms(8,9)
    by (auto simp: sor_serve_def sor_exit_def split: sum.splits start_error.splits)
qed

definition demo_world :: "(unit, unit) sor_world" where
  "demo_world = \<lparr>sw_slack = demo_outside, sw_load = (\<lambda>_. Inr demo_config), sw_unspecified = (\<lambda>_. False),
     sw_fetch = (\<lambda>_. Inl []), sw_tcp = (\<lambda>_. True), sw_now = 5, sw_outside = ()\<rparr>"

theorem validate_predicts_serving_witness:
  "sor_exit (sor_main ascending_keys demo_world [''-alerts'', ''alert.conf'']) = None"
proof -
  let ?p = "default_options\<lparr>so_flags := (so_flags default_options)\<lparr>fl_alerts := ''alert.conf''\<rparr>\<rparr>"
  have parse: "parse_flags sor_flag_defs [''-alerts'', ''alert.conf''] default_options = Inr (?p, [])"
    by (simp add: parse_flags.simps parse_one_def parse_named_def flag_value_def flag_argument_def set_flag_def
      sor_flag_defs_def string_flag_def Let_def)
  have "sor_exit (sor_main ascending_keys demo_world ([''-alerts'', ''alert.conf''] @ [''-validate''])) = Some 0"
    unfolding sor_main_def
    by (subst parse_flags_append [OF parse])
      (simp_all add: parse_validate sor_command_def validate_alerts_def demo_world_def sor_exit_def default_options_def)
  then show ?thesis
    using validate_predicts_serving [OF subs_ascending.subs_range_axioms parse, of demo_world]
    by (simp add: default_options_def demo_world_def dur_less_def)
qed

text \<open>
  C40: The probe tells whether a sor serves: \<open>sor -healthcheck -listen=host:port\<close> (brackets
  around a host with colons) exits cleanly beside a sor that serves that port on the host, or on
  127.0.0.1 when the address names none, in whatever state that sor is, and fails when nothing answers.
\<close>

definition network :: "string \<Rightarrow> (url_request \<Rightarrow> http_reply option) \<Rightarrow> string \<Rightarrow> string + nat \<times> string" where
  \<comment> \<open>a handler that answers at \<open>origin\<close>, and nothing else: status code and status line\<close>
  "network origin exchange url =
     (if has_prefix url origin then
        (case http_get exchange (drop (length origin) url) of
           None \<Rightarrow> Inl ''EOF''
         | Some res \<Rightarrow> Inr (res_status res, nat_digits (res_status res)))
      else Inl ''connection refused'')"

theorem probe_tells_serving:
  assumes "CHR ''['' \<notin> set host" and "CHR '']'' \<notin> set host" and "port \<noteq> []"
    and "list_all (\<lambda>c. c \<noteq> CHR '':'' \<and> c \<noteq> CHR ''['' \<and> c \<noteq> CHR '']'') port"
    and "origin = ''http://'' @ join_host_port (if host = [] \<or> sw_unspecified W host then ''127.0.0.1'' else host) port"
  shows "sor_main rfd (W\<lparr>sw_fetch := network origin (\<lambda>r. map_option fst (sor_http env rst rfd b codec js q now r S))\<rparr>)
      [''-healthcheck'', ''-listen='' @ join_host_port host port] = Done [] \<and>
    sor_main rfd (W\<lparr>sw_fetch := (\<lambda>_. Inl e)\<rparr>)
      [''-healthcheck'', ''-listen='' @ join_host_port host port] = Failed ProbeFailed"
proof -
  let ?exchange = "\<lambda>r. map_option fst (sor_http env rst rfd b codec js q now r S)"
  have url: "health_url (sw_unspecified W) (join_host_port host port) = Inr (origin @ ''/fs/ls?path=/'')"
    using health_url_join [OF assms(1-4)] assms(5) by (simp add: health_path_def)
  obtain es where "sor_ls rst (sor_store S) ''/'' = Inr es"
    using browser.ls_root [of "store_namespaces rst" "store_services rst" "store_stream_names rst"
        store_samples "sor_store S"] by (elim exE)
  then have "res_status (serve_ls js q (sor_ls rst (sor_store S)) ''/'') = status_ok"
    by (simp add: serve_ls_def write_json_def)
  moreover have "cut_byte CHR ''?'' ''/fs/ls?path=/'' = (''/fs/ls'', ''path=/'')" "query_get ''path'' ''path=/'' = ''/''"
    by code_simp+
  ultimately have "\<exists>text. network origin ?exchange (origin @ ''/fs/ls?path=/'') = Inr (status_ok, text)"
    by (simp add: network_def http_get_def numeral_eq_Suc sor_http_fs fs_handler_ls)
  then have "healthcheck_exit (sw_unspecified W) (network origin ?exchange) (join_host_port host port) = 0"
    unfolding healthcheck_exit_iff url by blast
  moreover have "healthcheck_exit (sw_unspecified W) (\<lambda>_. Inl e) (join_host_port host port) \<noteq> 0"
    unfolding healthcheck_exit_iff by simp
  ultimately show ?thesis by (simp add: sor_main_def parse_probe [simplified] sor_command_def)
qed

theorem probe_tells_serving_witness:
  "sor_main ascending_keys (demo_world\<lparr>sw_fetch := network ''http://127.0.0.1:4318''
      (\<lambda>r. map_option fst (sor_http demo_outside ascending_keys ascending_keys \<lparr>max_samples = 2\<rparr> demo_codec
        demo_empty_json id 7 r demo_sor))\<rparr>) [''-healthcheck'', ''-listen='' @ '':4318''] = Done []"
  using probe_tells_serving [of "[]" "''4318''" "''http://127.0.0.1:4318''" demo_world ascending_keys demo_outside
      ascending_keys "\<lparr>max_samples = 2\<rparr>" demo_codec demo_empty_json id 7 demo_sor "[]"]
  by (simp add: join_host_port_def)

end
