(* ===== verification/Sample_App.thy ===== *)
theory Sample_App
  imports Display Go_Duration Domain
begin

text \<open>
  \<open>cmd/sample-app\<close>: the configuration file of the traffic simulator (\<open>config.go\<close>), its timed
  bursts and blips (\<open>burst.go\<close>) and its terminal (\<open>keys.go\<close>).
  Clock readings are arguments.
\<close>

section \<open>Bursts\<close>

record burst =
  bu_duration :: duration
  bu_until :: time   \<comment> \<open>zero when idle\<close>

definition new_burst :: "duration \<Rightarrow> burst" where
  "new_burst d = \<lparr>bu_duration = d, bu_until = 0\<rparr>"

definition burst_start_for :: "time \<Rightarrow> duration \<Rightarrow> burst \<Rightarrow> bool \<times> burst" where
  "burst_start_for now d b =
     (if \<not> time_is_zero (bu_until b) \<and> time_before now (bu_until b) then (False, b)
      else (True, b\<lparr>bu_until := time_add now d\<rparr>))"

definition burst_start :: "time \<Rightarrow> burst \<Rightarrow> bool \<times> burst" where
  "burst_start now b = burst_start_for now (bu_duration b) b"

definition burst_active :: "time \<Rightarrow> burst \<Rightarrow> bool" where
  "burst_active now b \<longleftrightarrow> \<not> time_is_zero (bu_until b) \<and> time_before now (bu_until b)"

definition burst_tick :: "time \<Rightarrow> burst \<Rightarrow> bool \<times> burst" where
  "burst_tick now b =
     (if time_is_zero (bu_until b) \<or> time_before now (bu_until b) then (False, b)
      else (True, b\<lparr>bu_until := 0\<rparr>))"

fun burst_ticks :: "time list \<Rightarrow> burst \<Rightarrow> bool list \<times> burst" where
  "burst_ticks [] b = ([], b)"
| "burst_ticks (t # ts) b =
     (case burst_tick t b of (r, b) \<Rightarrow> (case burst_ticks ts b of (rs, b) \<Rightarrow> (r # rs, b)))"

section \<open>Configuration\<close>

record service_config =
  sv_namespace :: string
  sv_service :: string
  sv_rps :: float64

datatype sim_conf_msg = UnknownSimDirective string | ServiceUsage | SlashInName string
  | UnknownOption string | BadRps string | ListedTwice string

datatype 'e sim_conf_error = SimLine nat sim_conf_msg | SimTooLong | SimRead 'e | NoServices

definition cut_comment :: "string \<Rightarrow> string" where
  "cut_comment l = (case index_byte l CHR ''#'' of Some i \<Rightarrow> take i l | None \<Rightarrow> l)"

fun parse_options :: "string list \<Rightarrow> float64 \<Rightarrow> sim_conf_msg + float64" where
  \<comment> \<open>the rate the options leave\<close>
  "parse_options [] rps = Inr rps"
| "parse_options (opt # opts) rps =
     (case index_byte opt CHR ''='' of
        None \<Rightarrow> Inl (UnknownOption opt)
      | Some i \<Rightarrow>
          if take i opt \<noteq> ''rps'' then Inl (UnknownOption opt)
          else case parse_float (drop (Suc i) opt) of
            None \<Rightarrow> Inl (BadRps (drop (Suc i) opt))
          | Some r \<Rightarrow>
              if f64_le r (float_of_int 0) then Inl (BadRps (drop (Suc i) opt)) else parse_options opts r)"

definition bad_name :: "string \<Rightarrow> bool" where
  "bad_name s \<longleftrightarrow> CHR ''/'' \<in> set s \<or> CHR '' '' \<in> set s"

definition parse_service :: "float64 \<Rightarrow> string list \<Rightarrow> sim_conf_msg + service_config" where
  \<comment> \<open>the fields of a line that is not empty\<close>
  "parse_service default_rps fs =
     (if hd fs \<noteq> ''service'' then Inl (UnknownSimDirective (hd fs))
      else if length fs < 3 then Inl ServiceUsage
      else if bad_name (fs ! 1) then Inl (SlashInName (fs ! 1))
      else if bad_name (fs ! 2) then Inl (SlashInName (fs ! 2))
      else bind_result (parse_options (drop 3 fs) default_rps) (\<lambda>rps.
        Inr \<lparr>sv_namespace = fs ! 1, sv_service = fs ! 2, sv_rps = rps\<rparr>))"

definition service_key :: "service_config \<Rightarrow> string" where
  "service_key sv = sv_namespace sv @ ''/'' @ sv_service sv"

fun parse_services :: "float64 \<Rightarrow> nat \<Rightarrow> string list \<Rightarrow> (string \<rightharpoonup> bool) \<Rightarrow> service_config list \<Rightarrow> 'e sim_conf_error + service_config list" where
  "parse_services d n [] seen out = Inr out"
| "parse_services d n (l # ls) seen out =
     (case go_fields (cut_comment l) of
        [] \<Rightarrow> parse_services d (n + 1) ls seen out
      | f # fs \<Rightarrow>
          (case parse_service d (f # fs) of
             Inl e \<Rightarrow> Inl (SimLine n e)
           | Inr sv \<Rightarrow>
               if seen (service_key sv) = Some True then Inl (SimLine n (ListedTwice (service_key sv)))
               else parse_services d (n + 1) ls (seen(service_key sv \<mapsto> True)) (out @ [sv])))"

definition parse_config :: "string \<times> 'e option \<Rightarrow> float64 \<Rightarrow> 'e sim_conf_error + service_config list" where
  "parse_config r default_rps =
     (case r of (content, rerr) \<Rightarrow>
      case scan_lines content of (ls, too_long) \<Rightarrow>
        bind_result (parse_services default_rps 1 ls Map.empty []) (\<lambda>out.
          if too_long then Inl SimTooLong
          else case rerr of
            Some e \<Rightarrow> Inl (SimRead e)
          | None \<Rightarrow> if out = [] then Inl NoServices else Inr out))"

definition load_config :: "(string \<Rightarrow> 'e + string \<times> 'e option) \<Rightarrow> string \<Rightarrow> float64 \<Rightarrow> 'e sim_conf_error + service_config list" where
  "load_config open_file path default_rps =
     (case open_file path of Inl e \<Rightarrow> Inl (SimRead e) | Inr r \<Rightarrow> parse_config r default_rps)"

section \<open>The terminal\<close>

text \<open>The terminal writer of raw mode.\<close>

definition crlf_write :: "string \<Rightarrow> string" where
  "crlf_write p = concat (map (\<lambda>c. if c = CHR 0x0A then [CHR 0x0D, CHR 0x0A] else [c]) p)"

fun read_keys :: "(char option \<times> bool) list \<Rightarrow> char list" where
  \<comment> \<open>the keys sent for a sequence of reads: the byte, if one was read, and whether the read failed\<close>
  "read_keys [] = []"
| "read_keys ((b, failed) # rs) =
     (case b of Some k \<Rightarrow> [k] | None \<Rightarrow> []) @ (if failed then [] else read_keys rs)"

section \<open>Lemmas\<close>

lemma f64_le_0 [simp]:
  "f64_le (FFin s m e) (float_of_int 0) \<longleftrightarrow> s \<or> m = 0"
  "f64_le (FInf s) (float_of_int 0) \<longleftrightarrow> s"
  by (auto simp: float_of_int_def round_ratio_def scaled_def sign_int_def mult_le_0_iff)

lemma burst_ticks_idle: "bu_until b = 0 \<Longrightarrow> burst_ticks ts b = (replicate (length ts) False, b)"
  by (induction ts) (simp_all add: burst_tick_def time_is_zero_def)

definition service_ok :: "float64 \<Rightarrow> service_config \<Rightarrow> bool" where
  "service_ok d sv \<longleftrightarrow> sv_namespace sv \<noteq> [] \<and> sv_service sv \<noteq> [] \<and> slash_free (sv_namespace sv) \<and>
     slash_free (sv_service sv) \<and> (sv_rps sv = d \<or> \<not> f64_le (sv_rps sv) (float_of_int 0))"

lemma parse_options_rate: "parse_options opts d = Inr r \<Longrightarrow> r = d \<or> \<not> f64_le r (float_of_int 0)"
  by (induction opts d rule: parse_options.induct) (auto split: option.splits if_splits)

lemma parse_service_ok:
  assumes "parse_service d fs = Inr sv" and "list_all (\<lambda>w. w \<noteq> []) fs"
  shows "service_ok d sv"
proof -
  have len: "3 \<le> length fs" and names: "\<not> bad_name (fs ! 1)" "\<not> bad_name (fs ! 2)"
    using assms(1) by (auto simp: parse_service_def split: if_splits)
  obtain rps where rps: "parse_options (drop 3 fs) d = Inr rps"
    "sv = \<lparr>sv_namespace = fs ! 1, sv_service = fs ! 2, sv_rps = rps\<rparr>"
    using assms(1) by (auto simp: parse_service_def bind_result_Inr_iff split: if_splits)
  have "fs ! 1 \<noteq> []" "fs ! 2 \<noteq> []" using assms(2) len by (simp_all add: list_all_length)
  then show ?thesis
    using names parse_options_rate [OF rps(1)] by (simp add: rps(2) service_ok_def slash_free_def bad_name_def)
qed

lemma parse_services_ok:
  assumes "parse_services d n ls seen out = (Inr svs :: 'e sim_conf_error + service_config list)"
    and "\<And>k. seen k = Some True \<longleftrightarrow> k \<in> service_key ` set out"
    and "distinct (map service_key out)" and "list_all (service_ok d) out"
  shows "distinct (map service_key svs) \<and> list_all (service_ok d) svs"
  using assms
proof (induction ls arbitrary: n seen out)
  case Nil
  then show ?case by simp
next
  case (Cons l ls)
  show ?case
  proof (cases "go_fields (cut_comment l)")
    case Nil
    with Cons.prems(1) have rest: "parse_services d (n + 1) ls seen out = (Inr svs :: 'e sim_conf_error + service_config list)"
      by simp
    show ?thesis by (rule Cons.IH [OF rest Cons.prems(2-4)])
  next
    case (Cons f fs)
    then obtain sv where sv: "parse_service d (f # fs) = Inr sv" "seen (service_key sv) \<noteq> Some True"
      and rest: "parse_services d (n + 1) ls (seen(service_key sv \<mapsto> True)) (out @ [sv]) =
        (Inr svs :: 'e sim_conf_error + service_config list)"
      using Cons.prems(1) by (auto split: sum.splits if_splits)
    have "list_all (\<lambda>w. w \<noteq> []) (f # fs)"
      using fields_not_Nil [of _ "cut_comment l"] Cons by (auto simp: list_all_iff)
    then have "service_ok d sv" by (rule parse_service_ok [OF sv(1)])
    moreover have "service_key sv \<notin> service_key ` set out"
      using sv(2) \<open>\<And>k. seen k = Some True \<longleftrightarrow> k \<in> service_key ` set out\<close> by blast
    ultimately show ?thesis
      using \<open>distinct (map service_key out)\<close> \<open>list_all (service_ok d) out\<close>
        \<open>\<And>k. seen k = Some True \<longleftrightarrow> k \<in> service_key ` set out\<close>
      by (intro Cons.IH [OF rest]) auto
  qed
qed

section \<open>Properties\<close>

text \<open>
  A burst ends once: after it started, the loop's ticks report its end exactly once, at the
  first tick at or after its duration has passed, and it is active exactly before that moment.
\<close>

theorem burst_ends_once:
  assumes "burst_start_for now d b = (True, b')" and "now + sint d \<noteq> 0"
  shows "fst (burst_ticks ts b') =
      (let k = length (takeWhile (\<lambda>t. t < now + sint d) ts) in
        replicate k False @ (if k < length ts then True # replicate (length ts - k - 1) False else [])) \<and>
    (burst_active t b' \<longleftrightarrow> t < now + sint d)"
proof
  have until: "bu_until b' = now + sint d"
    using assms(1) by (auto simp: burst_start_for_def time_add_def split: if_splits)
  show "burst_active t b' \<longleftrightarrow> t < now + sint d"
    using assms(2) by (simp add: burst_active_def until time_is_zero_def time_before_def)
  show "fst (burst_ticks ts b') =
      (let k = length (takeWhile (\<lambda>t. t < now + sint d) ts) in
        replicate k False @ (if k < length ts then True # replicate (length ts - k - 1) False else []))"
  proof (induction ts)
    case Nil
    then show ?case by simp
  next
    case (Cons t ts)
    show ?case
    proof (cases "t < now + sint d")
      case True
      then have "burst_tick t b' = (False, b')" by (simp add: burst_tick_def until time_before_def)
      then show ?thesis using Cons True by (simp add: Let_def case_prod_beta)
    next
      case False
      then have "burst_tick t b' = (True, b'\<lparr>bu_until := 0\<rparr>)"
        using assms(2) by (simp add: burst_tick_def until time_before_def time_is_zero_def)
      then show ?thesis using False burst_ticks_idle [of "b'\<lparr>bu_until := 0\<rparr>" ts] by simp
    qed
  qed
qed

theorem burst_ends_once_witness:
  "fst (burst_ticks [4, 9, 10, 12] (snd (burst_start_for 5 5 (new_burst 180)))) = [False, False, True, False]"
proof -
  have "burst_start_for 5 5 (new_burst 180) = (True, \<lparr>bu_duration = 180, bu_until = 10\<rparr>)"
    by (simp add: burst_start_for_def new_burst_def time_is_zero_def time_add_def)
  from burst_ends_once [OF this, of "[4, 9, 10, 12]"] show ?thesis
    by (simp add: burst_start_for_def new_burst_def time_is_zero_def time_add_def)
qed

text \<open>
  An accepted configuration names at least one service, no service twice, every name can be a
  directory of the virtual filesystem, and every rate is the default or one that passed the check.
\<close>

theorem accepted_services_distinct:
  assumes "parse_config r d = Inr svs"
  shows "svs \<noteq> [] \<and> distinct (map (\<lambda>sv. (sv_namespace sv, sv_service sv)) svs) \<and>
    list_all (\<lambda>sv. path_wf \<lparr>pth_namespace = sv_namespace sv, pth_service = sv_service sv, pth_kind = KindNone, pth_name = []\<rparr>) svs \<and>
    list_all (\<lambda>sv. sv_rps sv = d \<or> \<not> f64_le (sv_rps sv) (float_of_int 0)) svs"
proof -
  obtain content rerr where r: "r = (content, rerr)" by (cases r)
  obtain ls tl where ls: "scan_lines content = (ls, tl)" by (cases "scan_lines content")
  have svs: "parse_services d 1 ls Map.empty [] = (Inr svs :: 'a sim_conf_error + service_config list)" "svs \<noteq> []"
    using assms by (auto simp: parse_config_def r ls bind_result_Inr_iff split: if_splits option.splits)
  have ok: "distinct (map service_key svs)" "list_all (service_ok d) svs"
    using parse_services_ok [OF svs(1)] by simp_all
  have "distinct (map (\<lambda>sv. (sv_namespace sv, sv_service sv)) svs)"
  proof -
    have "map service_key svs = map (\<lambda>(a, b). a @ ''/'' @ b) (map (\<lambda>sv. (sv_namespace sv, sv_service sv)) svs)"
      by (simp add: service_key_def)
    from ok(1) [unfolded this] show ?thesis by (rule distinct_map [THEN iffD1, THEN conjunct1])
  qed
  moreover have "path_wf \<lparr>pth_namespace = sv_namespace sv, pth_service = sv_service sv, pth_kind = KindNone, pth_name = []\<rparr>"
    if "service_ok d sv" for sv
    using that by (simp add: service_ok_def path_wf_def slash_free_def)
  moreover have "sv_rps sv = d \<or> \<not> f64_le (sv_rps sv) (float_of_int 0)" if "service_ok d sv" for sv
    using that by (simp add: service_ok_def)
  ultimately show ?thesis using svs(2) ok(2) unfolding list_all_iff by blast
qed

lemma parse_one_service:
  assumes "go_fields (cut_comment l) = [''service'', ns, svc, ''rps='' @ v]"
    and "\<not> bad_name ns" "\<not> bad_name svc" "parse_float v = Some r" "\<not> f64_le r (float_of_int 0)"
  shows "parse_services d n (l # ls) seen out =
     (let sv = \<lparr>sv_namespace = ns, sv_service = svc, sv_rps = r\<rparr> in
      if seen (service_key sv) = Some True then Inl (SimLine n (ListedTwice (service_key sv)))
      else parse_services d (n + 1) ls (seen(service_key sv \<mapsto> True)) (out @ [sv]))"
proof -
  have "parse_options [''rps='' @ v] d = Inr r" using assms(4,5) by simp
  then have "parse_service d [''service'', ns, svc, ''rps='' @ v] = Inr \<lparr>sv_namespace = ns, sv_service = svc, sv_rps = r\<rparr>"
    using assms(2,3) by (simp add: parse_service_def)
  then show ?thesis using assms(1) by (simp add: Let_def)
qed

definition demo_services :: string where
  "demo_services = ''service iam api rps=5 # x'' @ [CHR 0x0A] @ ''service iam web rps=Inf''"

lemma demo_services_parsed:
  "\<exists>sv. parse_config (demo_services, None :: unit option) d =
      Inr [\<lparr>sv_namespace = ''iam'', sv_service = ''api'', sv_rps = FFin False 5629499534213120 (- 50)\<rparr>, sv] \<and>
    sv_service sv = ''web'' \<and> sv_rps sv = FInf False"
proof -
  have lines: "scan_lines demo_services = ([''service iam api rps=5 # x'', ''service iam web rps=Inf''], False)"
    by code_simp
  have fs: "go_fields (cut_comment ''service iam api rps=5 # x'') = [''service'', ''iam'', ''api'', ''rps='' @ ''5'']"
    "go_fields (cut_comment ''service iam web rps=Inf'') = [''service'', ''iam'', ''web'', ''rps='' @ ''Inf'']"
    by code_simp+
  have inf: "parse_float ''Inf'' = Some (FInf False)" and five: "parse_float ''5'' = Some (FFin False 5629499534213120 (- 50))"
    by code_simp+
  have bad: "\<not> bad_name ''iam''" "\<not> bad_name ''api''" "\<not> bad_name ''web''" by (simp_all add: bad_name_def)
  have "\<not> f64_le (FInf False) (float_of_int 0)" "\<not> f64_le (FFin False 5629499534213120 (- 50)) (float_of_int 0)" by simp_all
  note line1 = parse_one_service [OF fs(1) bad(1,2) five this(2)]
    and line2 = parse_one_service [OF fs(2) bad(1,3) inf this(1)]
  show ?thesis
    by (simp only: parse_config_def lines prod.case line1 line2 Let_def)
      (simp add: service_key_def)
qed

theorem accepted_services_distinct_witness:
  "\<exists>svs. parse_config (demo_services, None :: unit option) FNaN = Inr svs \<and>
    map sv_service svs = [''api'', ''web''] \<and> distinct (map (\<lambda>sv. (sv_namespace sv, sv_service sv)) svs)"
proof -
  obtain sv where sv: "sv_service sv = ''web''" "parse_config (demo_services, None :: unit option) FNaN =
      Inr [\<lparr>sv_namespace = ''iam'', sv_service = ''api'', sv_rps = FFin False 5629499534213120 (- 50)\<rparr>, sv]"
    using demo_services_parsed [of FNaN] by blast
  from accepted_services_distinct [OF sv(2)] show ?thesis by (simp add: sv)
qed

end
