(* ===== verification/Client_Log.thy ===== *)
theory Client_Log
  imports Go_Time Go_Strings
begin

text \<open>
  \<open>client/slog.go\<close> and \<open>client/stdlog.go\<close>: the log side of the client library. A fan-out
  redacts the attributes of a record and hands it to its sinks; one sink is the application's handler,
  the other the bridge, which renders attributes into the body of an OTel log record. The types of
  \<open>log/slog\<close> are modelled as far as they are used; a sink is known by its four methods only
  (\<open>slog_handler\<close>), the pattern of secret keys and \<open>strconv.Quote\<close> are parameters.
\<close>

section \<open>Attributes\<close>

datatype slog_value =
    Scalar string                     \<comment> \<open>any value that is not a group, by the text of \<open>String()\<close>\<close>
  | Group "(string \<times> slog_value) list"
  | Valuer string slog_value          \<comment> \<open>a LogValuer: its type and what it stands for\<close>

type_synonym attr = "string \<times> slog_value"

fun resolve_value :: "nat \<Rightarrow> string \<Rightarrow> slog_value \<Rightarrow> slog_value" where
  \<comment> \<open>\<open>Value.Resolve\<close> with the number of calls it may still make\<close>
  "resolve_value n ty v =
     (if n = 0 then Scalar (''LogValue called too many times on Value of type '' @ ty)
      else (case v of Valuer t w \<Rightarrow> resolve_value (n - 1) ty w | _ \<Rightarrow> v))"

declare resolve_value.simps [simp del]

lemma resolve_value_simps [simp]:
  "resolve_value 0 ty v = Scalar (''LogValue called too many times on Value of type '' @ ty)"
  "resolve_value (Suc n) ty (Valuer t w) = resolve_value n ty w"
  "resolve_value (Suc n) ty (Scalar s) = Scalar s"
  "resolve_value (Suc n) ty (Group ms) = Group ms"
  by (simp_all add: resolve_value.simps)

definition resolved :: "slog_value \<Rightarrow> slog_value" where
  "resolved v = resolve_value 100 (case v of Valuer ty w \<Rightarrow> ty | _ \<Rightarrow> []) v"

definition redacted :: string where "redacted = ''[REDACTED]''"

definition sub_prefix :: "string \<Rightarrow> string \<Rightarrow> string" where
  "sub_prefix prefix key = (if key \<noteq> [] then prefix @ key @ ''.'' else prefix)"

lemma size_resolve_value: "resolve_value n ty v = Group ms \<Longrightarrow> size (Group ms) \<le> size v"
proof (induction v arbitrary: n)
  case (Valuer t w)
  then show ?case by (cases n) fastforce+
qed (case_tac n; simp)+

lemma size_resolved: "resolved v = Group ms \<Longrightarrow> size (Group ms) \<le> size v"
  unfolding resolved_def by (rule size_resolve_value)

lemma size_member:
  assumes "resolved v = Group ms" and "(k, w) \<in> set ms"
  shows "size w < size v"
proof -
  have "size_prod (\<lambda>_. 0) size (k, w) \<le> size_list (size_prod (\<lambda>_. 0) size) ms"
    using assms(2) by (induction ms) auto
  then show ?thesis using size_resolved [OF assms(1)] by simp
qed

lemma resolve_value_not_valuer: "resolve_value n ty v \<noteq> Valuer t w"
  by (induction v arbitrary: n; case_tac n) auto

lemma resolved_not_valuer [simp]: "resolved v \<noteq> Valuer t w"
  by (simp add: resolved_def resolve_value_not_valuer)

lemma resolved_plain [simp]: "resolved (Scalar s) = Scalar s" "resolved (Group ms) = Group ms"
  by (simp_all add: resolved_def numeral_eq_Suc)

lemma resolved_idem [simp]: "resolved (resolved v) = resolved v"
  by (cases "resolved v") auto

definition empty_group :: "attr \<Rightarrow> bool" where
  "empty_group a = (snd a = Group [])"

definition group_value :: "attr list \<Rightarrow> slog_value" where
  \<comment> \<open>\<open>slog.GroupValue\<close>, which leaves out empty groups\<close>
  "group_value as = Group (filter (\<lambda>a. \<not> empty_group a) as)"

section \<open>Redaction\<close>

function redact_attr :: "(string \<Rightarrow> bool) \<Rightarrow> string \<Rightarrow> attr \<Rightarrow> attr" where
  "redact_attr re prefix (k, v) =
     (case resolved v of
        Group ms \<Rightarrow> (k, group_value (map (redact_attr re (sub_prefix prefix k)) ms))
      | w \<Rightarrow> if re (prefix @ k) then (k, Scalar redacted) else (k, w))"
  by pat_completeness auto
termination
  by (relation "measure (\<lambda>(re, prefix, k, v). size v)") (auto simp: size_member)

section \<open>Handlers\<close>

record slog_record =
  rec_time :: time
  rec_level :: int
  rec_msg :: string
  rec_pc :: nat
  rec_attrs :: "attr list"

definition new_record :: "time \<Rightarrow> int \<Rightarrow> string \<Rightarrow> nat \<Rightarrow> slog_record" where
  "new_record t l m pc = \<lparr>rec_time = t, rec_level = l, rec_msg = m, rec_pc = pc, rec_attrs = []\<rparr>"

definition add_attrs :: "attr list \<Rightarrow> slog_record \<Rightarrow> slog_record" where
  \<comment> \<open>\<open>Record.AddAttrs\<close>, which leaves out empty groups\<close>
  "add_attrs as r = r\<lparr>rec_attrs := rec_attrs r @ filter (\<lambda>a. \<not> empty_group a) as\<rparr>"

record ('h, 'w, 'e) slog_handler =
  hd_enabled :: "'h \<Rightarrow> int \<Rightarrow> bool"
  hd_handle :: "'h \<Rightarrow> slog_record \<Rightarrow> 'w \<Rightarrow> 'e option \<times> 'w"
  hd_with_attrs :: "'h \<Rightarrow> attr list \<Rightarrow> 'h"
  hd_with_group :: "'h \<Rightarrow> string \<Rightarrow> 'h"

section \<open>The fan-out\<close>

record 'h fanout =
  fo_redact :: "string \<Rightarrow> bool"
  fo_sinks :: "'h list"
  fo_prefix :: string

definition new_fanout :: "(string \<Rightarrow> bool) \<Rightarrow> 'h list \<Rightarrow> 'h fanout" where
  "new_fanout re sinks = \<lparr>fo_redact = re, fo_sinks = sinks, fo_prefix = []\<rparr>"

definition fanout_enabled :: "('h, 'w, 'e) slog_handler \<Rightarrow> 'h fanout \<Rightarrow> int \<Rightarrow> bool" where
  "fanout_enabled ops f l = hd_enabled ops (fo_sinks f ! 0) l"

definition clean_record :: "'h fanout \<Rightarrow> slog_record \<Rightarrow> slog_record" where
  "clean_record f r =
     fold (\<lambda>a. add_attrs [redact_attr (fo_redact f) (fo_prefix f) a]) (rec_attrs r)
       (new_record (rec_time r) (rec_level r) (rec_msg r) (rec_pc r))"

fun deliver_each :: "('h, 'w, 'e) slog_handler \<Rightarrow> slog_record \<Rightarrow> 'h list \<Rightarrow> 'e option list \<Rightarrow> 'w \<Rightarrow> 'e option list \<times> 'w" where
  "deliver_each ops r [] errs w = (errs, w)"
| "deliver_each ops r (h # hs) errs w =
     (if hd_enabled ops h (rec_level r)
      then (case hd_handle ops h r w of (err, w) \<Rightarrow> deliver_each ops r hs (errs @ [err]) w)
      else deliver_each ops r hs errs w)"

definition join_nonnil :: "'e option list \<Rightarrow> 'e list option" where
  \<comment> \<open>\<open>errors.Join\<close>: nil errors are left out\<close>
  "join_nonnil errs = (case List.map_filter id errs of [] \<Rightarrow> None | es \<Rightarrow> Some es)"

definition fanout_handle :: "('h, 'w, 'e) slog_handler \<Rightarrow> 'h fanout \<Rightarrow> slog_record \<Rightarrow> 'w \<Rightarrow> 'e list option \<times> 'w" where
  "fanout_handle ops f r w =
     (case deliver_each ops (clean_record f r) (fo_sinks f) [] w of (errs, w) \<Rightarrow> (join_nonnil errs, w))"

definition fanout_derive :: "string \<Rightarrow> ('h \<Rightarrow> 'h) \<Rightarrow> 'h fanout \<Rightarrow> 'h fanout" where
  "fanout_derive prefix fn f = \<lparr>fo_redact = fo_redact f, fo_sinks = map fn (fo_sinks f), fo_prefix = prefix\<rparr>"

definition fanout_with_attrs :: "('h, 'w, 'e) slog_handler \<Rightarrow> 'h fanout \<Rightarrow> attr list \<Rightarrow> 'h fanout" where
  "fanout_with_attrs ops f as =
     (let clean = map (redact_attr (fo_redact f) (fo_prefix f)) as
      in fanout_derive (fo_prefix f) (\<lambda>h. hd_with_attrs ops h clean) f)"

definition fanout_with_group :: "('h, 'w, 'e) slog_handler \<Rightarrow> 'h fanout \<Rightarrow> string \<Rightarrow> 'h fanout" where
  "fanout_with_group ops f name =
     (if name = [] then f
      else fanout_derive (fo_prefix f @ name @ ''.'') (\<lambda>h. hd_with_group ops h name) f)"

section \<open>The bridge\<close>

record bridge =
  br_prefix :: string
  br_attrs :: string

datatype otel_severity = SeverityTrace | SeverityDebug | SeverityInfo | SeverityWarn | SeverityError | SeverityFatal

record otel_record =
  ol_time :: time
  ol_observed :: time
  ol_severity :: otel_severity
  ol_severity_text :: string
  ol_body :: string

definition new_bridge :: bridge where
  "new_bridge = \<lparr>br_prefix = [], br_attrs = []\<rparr>"

definition render_value :: "(string \<Rightarrow> string) \<Rightarrow> string \<Rightarrow> string" where
  \<comment> \<open>of the text of a value; the first argument is \<open>strconv.Quote\<close>\<close>
  "render_value q s =
     (if s = [] \<or> list_ex (\<lambda>c. c \<in> {CHR '' '', CHR ''='', CHR 0x22, CHR 0x0A, CHR 0x09, CHR 0x0D}) s
      then q s else s)"

function render_attr :: "(string \<Rightarrow> string) \<Rightarrow> string \<Rightarrow> attr \<Rightarrow> string" where
  \<comment> \<open>what is appended to the body\<close>
  "render_attr q prefix (k, v) =
     (case resolved v of
        Group ms \<Rightarrow> concat (map (render_attr q (sub_prefix prefix k)) ms)
      | Scalar s \<Rightarrow> '' '' @ prefix @ k @ ''='' @ render_value q s
      | Valuer ty w \<Rightarrow> [])"
  by pat_completeness auto
termination
  by (relation "measure (\<lambda>(q, prefix, k, v). size v)") (auto simp: size_member)

definition level_severity :: "int \<Rightarrow> otel_severity \<times> string" where
  \<comment> \<open>levels: DEBUG -4, INFO 0, WARN 4, ERROR 8\<close>
  "level_severity l =
     (if l < - 4 then (SeverityTrace, ''TRACE'')
      else if l < 0 then (SeverityDebug, ''DEBUG'')
      else if l < 4 then (SeverityInfo, ''INFO'')
      else if l < 8 then (SeverityWarn, ''WARN'')
      else if l < 8 + 4 then (SeverityError, ''ERROR'')
      else (SeverityFatal, ''FATAL''))"

definition bridge_enabled :: "bridge \<Rightarrow> int \<Rightarrow> bool" where
  "bridge_enabled b l = True"

definition bridge_handle :: "(string \<Rightarrow> string) \<Rightarrow> time \<times> time \<Rightarrow> bridge \<Rightarrow> slog_record \<Rightarrow> otel_record list \<Rightarrow> 'e option \<times> otel_record list" where
  \<comment> \<open>the world is the list of records emitted; the times are the two readings of the clock\<close>
  "bridge_handle q now b r w =
     (let body = rec_msg r @ br_attrs b @ concat (map (render_attr q (br_prefix b)) (rec_attrs r));
          ts = (if time_is_zero (rec_time r) then fst now else rec_time r)
      in (case level_severity (rec_level r) of (sev, txt) \<Rightarrow>
            (None, w @ [\<lparr>ol_time = ts, ol_observed = snd now, ol_severity = sev, ol_severity_text = txt, ol_body = body\<rparr>])))"

definition bridge_with_attrs :: "(string \<Rightarrow> string) \<Rightarrow> bridge \<Rightarrow> attr list \<Rightarrow> bridge" where
  "bridge_with_attrs q b as =
     \<lparr>br_prefix = br_prefix b, br_attrs = br_attrs b @ concat (map (render_attr q (br_prefix b)) as)\<rparr>"

definition bridge_with_group :: "bridge \<Rightarrow> string \<Rightarrow> bridge" where
  "bridge_with_group b name =
     (if name = [] then b else \<lparr>br_prefix = br_prefix b @ name @ ''.'', br_attrs = br_attrs b\<rparr>)"

definition bridge_ops :: "(string \<Rightarrow> string) \<Rightarrow> time \<times> time \<Rightarrow> (bridge, otel_record list, 'e) slog_handler" where
  "bridge_ops q now =
     \<lparr>hd_enabled = bridge_enabled, hd_handle = bridge_handle q now,
      hd_with_attrs = bridge_with_attrs q, hd_with_group = bridge_with_group\<rparr>"

section \<open>The standard log package\<close>

definition trim_right_newlines :: "string \<Rightarrow> string" where
  "trim_right_newlines s = rev (dropWhile (\<lambda>c. c = CHR 0x0A) (rev s))"

fun write_lines :: "(slog_record \<Rightarrow> 'w \<Rightarrow> 'e option \<times> 'w) \<Rightarrow> ('w \<Rightarrow> time \<times> 'w) \<Rightarrow> string list \<Rightarrow> 'w \<Rightarrow> 'e option \<times> 'w" where
  "write_lines handle clock [] w = (None, w)"
| "write_lines handle clock (l # ls) w =
     (case clock w of (now, w) \<Rightarrow>
      (case handle (new_record now 0 l 0) w of
         (Some e, w) \<Rightarrow> (Some e, w)
       | (None, w) \<Rightarrow> write_lines handle clock ls w))"

definition line_write :: "(int \<Rightarrow> bool) \<Rightarrow> (slog_record \<Rightarrow> 'w \<Rightarrow> 'e option \<times> 'w) \<Rightarrow> ('w \<Rightarrow> time \<times> 'w) \<Rightarrow> string \<Rightarrow> 'w \<Rightarrow>
    (nat \<times> 'e option) \<times> 'w" where
  \<comment> \<open>bytes written and error\<close>
  "line_write enabled handle clock p w =
     (if \<not> enabled 0 then ((length p, None), w)
      else (case write_lines handle clock (split_byte CHR 0x0A (trim_right_newlines p)) w of
              (Some e, w) \<Rightarrow> ((0, Some e), w)
            | (None, w) \<Rightarrow> ((length p, None), w)))"

section \<open>Attributes by their dotted paths\<close>

function leaves :: "string \<Rightarrow> attr \<Rightarrow> (string \<times> string) list" where
  \<comment> \<open>the values an attribute carries, each with the path of keys that leads to it\<close>
  "leaves prefix (k, v) =
     (case resolved v of
        Group ms \<Rightarrow> concat (map (leaves (sub_prefix prefix k)) ms)
      | Scalar s \<Rightarrow> [(prefix @ k, s)]
      | Valuer ty w \<Rightarrow> [])"
  by pat_completeness auto
termination
  by (relation "measure (\<lambda>(prefix, k, v). size v)") (auto simp: size_member)

definition redact_leaf :: "(string \<Rightarrow> bool) \<Rightarrow> string \<times> string \<Rightarrow> string \<times> string" where
  "redact_leaf re l = (fst l, if re (fst l) then redacted else snd l)"

definition render_leaf :: "(string \<Rightarrow> string) \<Rightarrow> string \<times> string \<Rightarrow> string" where
  "render_leaf q l = '' '' @ fst l @ ''='' @ render_value q (snd l)"

declare leaves.simps [simp del] redact_attr.simps [simp del] render_attr.simps [simp del]

lemma leaves_empty_group [simp]: "empty_group a \<Longrightarrow> leaves prefix a = []"
  by (cases a) (simp add: leaves.simps empty_group_def)

lemma concat_leaves_filter: "concat (map (leaves prefix) (filter (\<lambda>a. \<not> empty_group a) as)) = concat (map (leaves prefix) as)"
  by (induction as) auto

lemma render_attr_leaves: "render_attr q prefix a = concat (map (render_leaf q) (leaves prefix a))"
proof (induction q prefix a rule: render_attr.induct)
  case (1 q prefix k v)
  show ?case
  proof (cases "resolved v")
    case (Scalar s)
    then show ?thesis by (simp add: render_attr.simps leaves.simps render_leaf_def)
  next
    case (Group ms)
    then have "map (render_attr q (sub_prefix prefix k)) ms =
        map (\<lambda>m. concat (map (render_leaf q) (leaves (sub_prefix prefix k) m))) ms"
      using 1 by simp
    moreover have "concat (map (\<lambda>m. concat (map f (g m))) ms) = concat (map f (concat (map g ms)))"
      for f :: "string \<times> string \<Rightarrow> string" and g :: "attr \<Rightarrow> (string \<times> string) list"
      by (induction ms) auto
    ultimately show ?thesis using Group by (simp only: render_attr.simps leaves.simps slog_value.case)
  qed simp
qed

lemma render_attrs_leaves:
  "concat (map (render_attr q prefix) as) = concat (map (render_leaf q) (concat (map (leaves prefix) as)))"
  by (induction as) (auto simp: render_attr_leaves)

text \<open>Redacting an attribute redacts its leaves and changes nothing else.\<close>

lemma leaves_redact_attr: "leaves prefix (redact_attr re prefix a) = map (redact_leaf re) (leaves prefix a)"
proof (induction re prefix a rule: redact_attr.induct)
  case (1 re prefix k v)
  show ?case
  proof (cases "resolved v")
    case (Scalar s)
    then show ?thesis by (simp add: redact_attr.simps leaves.simps redact_leaf_def)
  next
    case (Group ms)
    let ?p = "sub_prefix prefix k"
    have "concat (map (leaves ?p) (map (redact_attr re ?p) ms)) =
        concat (map (\<lambda>m. map (redact_leaf re) (leaves ?p m)) ms)"
      using 1 Group by (simp add: comp_def cong: map_cong)
    then show ?thesis using Group
      by (simp add: redact_attr.simps leaves.simps group_value_def concat_leaves_filter map_concat comp_def)
  qed simp
qed

lemma leaves_redact_attrs:
  "concat (map (leaves prefix) (map (redact_attr re prefix) as)) =
    map (redact_leaf re) (concat (map (leaves prefix) as))"
  by (induction as) (auto simp: leaves_redact_attr)

lemma clean_record_attrs:
  "rec_attrs (clean_record f r) =
    filter (\<lambda>a. \<not> empty_group a) (map (redact_attr (fo_redact f) (fo_prefix f)) (rec_attrs r))"
proof -
  have "rec_attrs (fold (\<lambda>a. add_attrs [redact_attr re prefix a]) as r0) =
      rec_attrs r0 @ filter (\<lambda>a. \<not> empty_group a) (map (redact_attr re prefix) as)" for re prefix as r0
    by (induction as arbitrary: r0) (auto simp: add_attrs_def)
  then show ?thesis by (simp add: clean_record_def new_record_def)
qed

lemma clean_record_fields:
  "rec_time (clean_record f r) = rec_time r" "rec_level (clean_record f r) = rec_level r"
  "rec_msg (clean_record f r) = rec_msg r" "rec_pc (clean_record f r) = rec_pc r"
proof -
  have "rec_time (fold (\<lambda>a. add_attrs [g a]) as r0) = rec_time r0 \<and>
      rec_level (fold (\<lambda>a. add_attrs [g a]) as r0) = rec_level r0 \<and>
      rec_msg (fold (\<lambda>a. add_attrs [g a]) as r0) = rec_msg r0 \<and>
      rec_pc (fold (\<lambda>a. add_attrs [g a]) as r0) = rec_pc r0" for g :: "attr \<Rightarrow> attr" and as r0
    by (induction as arbitrary: r0) (auto simp: add_attrs_def)
  then show "rec_time (clean_record f r) = rec_time r" "rec_level (clean_record f r) = rec_level r"
    "rec_msg (clean_record f r) = rec_msg r" "rec_pc (clean_record f r) = rec_pc r"
    by (simp_all add: clean_record_def new_record_def)
qed

lemma clean_record_leaves:
  "concat (map (leaves (fo_prefix f)) (rec_attrs (clean_record f r))) =
    map (redact_leaf (fo_redact f)) (concat (map (leaves (fo_prefix f)) (rec_attrs r)))"
  by (simp only: clean_record_attrs concat_leaves_filter leaves_redact_attrs)

section \<open>Derived loggers\<close>

datatype derivation = With_Attrs "attr list" | With_Group string

fun derive_sink :: "('h \<Rightarrow> attr list \<Rightarrow> 'h) \<Rightarrow> ('h \<Rightarrow> string \<Rightarrow> 'h) \<Rightarrow> derivation list \<Rightarrow> 'h \<Rightarrow> 'h" where
  \<comment> \<open>what \<open>Logger.With\<close> and \<open>WithGroup\<close> do to a handler\<close>
  "derive_sink wa wg [] h = h"
| "derive_sink wa wg (With_Attrs as # ds) h = derive_sink wa wg ds (wa h as)"
| "derive_sink wa wg (With_Group g # ds) h = derive_sink wa wg ds (wg h g)"

fun open_prefix :: "string \<Rightarrow> derivation list \<Rightarrow> string" where
  "open_prefix prefix [] = prefix"
| "open_prefix prefix (With_Attrs as # ds) = open_prefix prefix ds"
| "open_prefix prefix (With_Group g # ds) = open_prefix (sub_prefix prefix g) ds"

fun attached :: "string \<Rightarrow> derivation list \<Rightarrow> (string \<times> string) list" where
  \<comment> \<open>the leaves a derivation attaches\<close>
  "attached prefix [] = []"
| "attached prefix (With_Attrs as # ds) = concat (map (leaves prefix) as) @ attached prefix ds"
| "attached prefix (With_Group g # ds) = attached (sub_prefix prefix g) ds"

fun redact_derivation :: "(string \<Rightarrow> bool) \<Rightarrow> string \<Rightarrow> derivation list \<Rightarrow> derivation list" where
  "redact_derivation re prefix [] = []"
| "redact_derivation re prefix (With_Attrs as # ds) =
     With_Attrs (map (redact_attr re prefix) as) # redact_derivation re prefix ds"
| "redact_derivation re prefix (With_Group g # ds) =
     With_Group g # redact_derivation re (sub_prefix prefix g) ds"

lemma attached_redacted:
  "attached prefix (redact_derivation re prefix ds) = map (redact_leaf re) (attached prefix ds)"
  by (induction re prefix ds rule: redact_derivation.induct) (simp_all add: leaves_redact_attrs del: map_map)

lemma open_prefix_redacted [simp]: "open_prefix prefix (redact_derivation re prefix ds) = open_prefix prefix ds"
  by (induction re prefix ds rule: redact_derivation.induct) auto

text \<open>
  The contract of a sink that shows attributes by their dotted paths: \<open>seen\<close> is what the
  derivations have attached so far, \<open>add\<close> how more leaves are put behind it.
\<close>

locale leaf_sink =
  fixes with_attrs :: "'h \<Rightarrow> attr list \<Rightarrow> 'h"
    and with_group :: "'h \<Rightarrow> string \<Rightarrow> 'h"
    and prefix_of :: "'h \<Rightarrow> string"
    and seen :: "'h \<Rightarrow> 'v"
    and add :: "'v \<Rightarrow> (string \<times> string) list \<Rightarrow> 'v"
  assumes seen_attrs: "seen (with_attrs h as) = add (seen h) (concat (map (leaves (prefix_of h)) as))"
    and prefix_attrs: "prefix_of (with_attrs h as) = prefix_of h"
    and seen_group: "seen (with_group h g) = seen h"
    and prefix_group: "prefix_of (with_group h g) = sub_prefix (prefix_of h) g"
    and add_nil: "add v [] = v"
    and add_append: "add (add v xs) ys = add v (xs @ ys)"
begin

lemma derived:
  "seen (derive_sink with_attrs with_group ds h) = add (seen h) (attached (prefix_of h) ds) \<and>
    prefix_of (derive_sink with_attrs with_group ds h) = open_prefix (prefix_of h) ds"
proof (induction ds arbitrary: h)
  case Nil
  then show ?case by (simp add: add_nil)
next
  case (Cons d ds)
  then show ?case
    by (cases d) (simp_all add: seen_attrs prefix_attrs seen_group prefix_group add_append)
qed

lemma derived_redacted:
  "seen (derive_sink with_attrs with_group (redact_derivation re (prefix_of h) ds) h) =
    add (seen h) (map (redact_leaf re) (attached (prefix_of h) ds))"
  by (simp add: derived attached_redacted)

end

interpretation bridge_sink: leaf_sink "bridge_with_attrs q" bridge_with_group br_prefix br_attrs
    "\<lambda>v ls. v @ concat (map (render_leaf q) ls)" for q
  by unfold_locales
    (auto simp: bridge_with_attrs_def bridge_with_group_def sub_prefix_def render_attrs_leaves)

section \<open>The fan-out and its sinks\<close>

definition fanout_derived :: "('h, 'w, 'e) slog_handler \<Rightarrow> derivation list \<Rightarrow> 'h fanout \<Rightarrow> 'h fanout" where
  "fanout_derived ops ds f = derive_sink (fanout_with_attrs ops) (fanout_with_group ops) ds f"

definition same_handler :: "('h, 'w, 'e) slog_handler \<Rightarrow> bool" where
  \<comment> \<open>\<open>WithGroup\<close> with an empty name is the handler itself, as \<open>log/slog\<close> asks\<close>
  "same_handler ops \<longleftrightarrow> (\<forall>h. hd_with_group ops h [] = h)"

lemma fanout_derived_eq:
  assumes "same_handler ops"
  shows "fanout_derived ops ds f =
    \<lparr>fo_redact = fo_redact f,
     fo_sinks = map (derive_sink (hd_with_attrs ops) (hd_with_group ops)
       (redact_derivation (fo_redact f) (fo_prefix f) ds)) (fo_sinks f),
     fo_prefix = open_prefix (fo_prefix f) ds\<rparr>"
  unfolding fanout_derived_def
proof (induction ds arbitrary: f)
  case Nil
  then show ?case by simp
next
  case (Cons d ds)
  then show ?case
    using assms by (cases d)
      (auto simp: fanout_with_attrs_def fanout_with_group_def fanout_derive_def sub_prefix_def same_handler_def Let_def comp_def)
qed

lemma deliver_each_errs: "fst (deliver_each ops r hs errs w) = errs @ fst (deliver_each ops r hs [] w) \<and>
    snd (deliver_each ops r hs errs w) = snd (deliver_each ops r hs [] w)"
proof (induction hs arbitrary: errs w)
  case Nil
  then show ?case by simp
next
  case (Cons h hs)
  show ?case
    using Cons [of "errs @ [fst (hd_handle ops h r w)]" "snd (hd_handle ops h r w)"]
      Cons [of "[fst (hd_handle ops h r w)]" "snd (hd_handle ops h r w)"] Cons [of errs w]
    by (auto simp: case_prod_beta)
qed

lemma single_bridge:
  assumes "fo_sinks f = [b]"
  shows "fanout_handle (bridge_ops q now) f r w =
    (None, w @ [\<lparr>ol_time = (if time_is_zero (rec_time (clean_record f r)) then fst now else rec_time (clean_record f r)),
      ol_observed = snd now, ol_severity = fst (level_severity (rec_level (clean_record f r))),
      ol_severity_text = snd (level_severity (rec_level (clean_record f r))),
      ol_body = rec_msg (clean_record f r) @ br_attrs b @
        concat (map (render_attr q (br_prefix b)) (rec_attrs (clean_record f r)))\<rparr>])"
  using assms
  by (simp add: fanout_handle_def bridge_ops_def bridge_enabled_def bridge_handle_def Let_def case_prod_beta
      join_nonnil_def map_filter_simps)

section \<open>Properties\<close>

text \<open>
  C9: A secret never reaches a sink. Whatever attributes and groups are attached to a logger and
  to a record, nested in groups and behind LogValuers, every sink is given exactly the same
  attributes at the same paths in the same order, except that the value of each attribute whose
  dotted path matches the pattern is \<open>[REDACTED]\<close>. The level, time and message are untouched.
\<close>

theorem secrets_never_reach_a_sink:
  assumes "same_handler ops" and "leaf_sink (hd_with_attrs ops) (hd_with_group ops) prefix_of seen add"
    and "\<And>h. h \<in> set sinks \<Longrightarrow> prefix_of h = []"
  shows "map seen (fo_sinks (fanout_derived ops ds (new_fanout re sinks))) =
      map (\<lambda>h. add (seen h) (map (redact_leaf re) (attached [] ds))) sinks \<and>
    (let f = fanout_derived ops ds (new_fanout re sinks); r' = clean_record f r in
      fanout_handle ops f r w = (case deliver_each ops r' (fo_sinks f) [] w of (errs, w) \<Rightarrow> (join_nonnil errs, w)) \<and>
      concat (map (leaves (open_prefix [] ds)) (rec_attrs r')) =
        map (redact_leaf re) (concat (map (leaves (open_prefix [] ds)) (rec_attrs r))) \<and>
      rec_level r' = rec_level r \<and> rec_time r' = rec_time r \<and> rec_msg r' = rec_msg r)"
proof -
  have f: "fo_prefix (fanout_derived ops ds (new_fanout re sinks)) = open_prefix [] ds"
    "fo_redact (fanout_derived ops ds (new_fanout re sinks)) = re"
    by (simp_all add: fanout_derived_eq [OF assms(1)] new_fanout_def)
  have "seen (derive_sink (hd_with_attrs ops) (hd_with_group ops) (redact_derivation re [] ds) h) =
      add (seen h) (map (redact_leaf re) (attached [] ds))" if "h \<in> set sinks" for h
    using leaf_sink.derived_redacted [OF assms(2), of re h ds] assms(3) [OF that] by simp
  then have "map seen (fo_sinks (fanout_derived ops ds (new_fanout re sinks))) =
      map (\<lambda>h. add (seen h) (map (redact_leaf re) (attached [] ds))) sinks"
    by (simp add: fanout_derived_eq [OF assms(1)] new_fanout_def)
  then show ?thesis
    using clean_record_leaves [of "fanout_derived ops ds (new_fanout re sinks)" r]
    by (simp add: Let_def fanout_handle_def clean_record_fields f)
qed

theorem secrets_never_reach_a_sink_witness:
  "map br_attrs (fo_sinks (fanout_derived (bridge_ops (\<lambda>s. s) (1, 1) :: (_, _, unit) slog_handler)
      [With_Group ''req'', With_Attrs [(''user'', Scalar ''bob''), (''auth'', Group [(''token'', Valuer ''T'' (Scalar ''s3cret''))])]]
      (new_fanout (\<lambda>p. p = ''req.auth.token'') [new_bridge]))) =
    ['' req.user=bob req.auth.token=[REDACTED]'']"
proof -
  let ?ds = "[With_Group ''req'', With_Attrs [(''user'', Scalar ''bob''), (''auth'', Group [(''token'', Valuer ''T'' (Scalar ''s3cret''))])]]"
  let ?ops = "bridge_ops (\<lambda>s. s) (1, 1) :: (_, _, unit) slog_handler"
  have same: "same_handler ?ops" by (simp add: same_handler_def bridge_ops_def bridge_with_group_def)
  have sink: "leaf_sink (hd_with_attrs ?ops) (hd_with_group ?ops) br_prefix br_attrs
      (\<lambda>v ls. v @ concat (map (render_leaf (\<lambda>s. s)) ls))"
    using bridge_sink.leaf_sink_axioms [of "\<lambda>s. s"] by (simp add: bridge_ops_def)
  have "map br_attrs (fo_sinks (fanout_derived ?ops ?ds (new_fanout (\<lambda>p. p = ''req.auth.token'') [new_bridge]))) =
      map (\<lambda>h. br_attrs h @ concat (map (render_leaf (\<lambda>s. s))
        (map (redact_leaf (\<lambda>p. p = ''req.auth.token'')) (attached [] ?ds)))) [new_bridge]"
    using secrets_never_reach_a_sink [OF same sink, of "[new_bridge]" ?ds "\<lambda>p. p = ''req.auth.token''"]
    by (simp add: new_bridge_def)
  also have "attached [] ?ds = [(''req.user'', ''bob''), (''req.auth.token'', ''s3cret'')]" by code_simp
  finally show ?thesis
    by (simp add: new_bridge_def render_leaf_def redact_leaf_def render_value_def redacted_def)
qed

lemma bridge_logs_line:
  "fanout_handle (bridge_ops q now) (fanout_derived (bridge_ops q now :: (_, _, unit) slog_handler) ds
      (new_fanout re [new_bridge])) r w =
    (None, w @ [\<lparr>ol_time = (if time_is_zero (rec_time r) then fst now else rec_time r),
      ol_observed = snd now, ol_severity = fst (level_severity (rec_level r)),
      ol_severity_text = snd (level_severity (rec_level r)),
      ol_body = rec_msg r @ concat (map (render_leaf q)
        (map (redact_leaf re) (attached [] ds @ concat (map (leaves (open_prefix [] ds)) (rec_attrs r)))))\<rparr>])"
proof -
  let ?ops = "bridge_ops q now :: (_, _, unit) slog_handler"
  have same: "same_handler ?ops" by (simp add: same_handler_def bridge_ops_def bridge_with_group_def)
  let ?b = "derive_sink (bridge_with_attrs q) bridge_with_group (redact_derivation re [] ds) new_bridge"
  let ?f = "fanout_derived ?ops ds (new_fanout re [new_bridge])"
  have f: "fo_sinks ?f = [?b]" "fo_prefix ?f = open_prefix [] ds" "fo_redact ?f = re"
    unfolding fanout_derived_eq [OF same] by (simp_all add: new_fanout_def bridge_ops_def)
  have b: "br_attrs ?b = concat (map (render_leaf q) (map (redact_leaf re) (attached [] ds)))"
    "br_prefix ?b = open_prefix [] ds"
    using bridge_sink.derived [of q "redact_derivation re [] ds" new_bridge]
    by (simp_all add: attached_redacted new_bridge_def)
  have body: "concat (map (render_attr q (open_prefix [] ds)) (rec_attrs (clean_record ?f r))) =
      concat (map (render_leaf q) (map (redact_leaf re) (concat (map (leaves (open_prefix [] ds)) (rec_attrs r)))))"
    using clean_record_leaves [of ?f r] by (simp only: render_attrs_leaves f)
  show ?thesis
    unfolding single_bridge [OF f(1)] b body clean_record_fields map_append concat_append append_assoc
    by (rule refl)
qed

text \<open>
  C35: What the system of record gets of a record logged through a derived logger is one line: the
  message and then \<open> path=value\<close> for every attribute of the logger and of the record, in the order
  they were attached, by its dotted path, quoted where it must be, and redacted where the pattern
  says so.
\<close>

theorem log_body_lists_redacted_attributes:
  "fanout_handle (bridge_ops q now) (fanout_derived (bridge_ops q now :: (_, _, unit) slog_handler) ds
      (new_fanout re [new_bridge])) r w =
    (None, w @ [\<lparr>ol_time = (if time_is_zero (rec_time r) then fst now else rec_time r),
      ol_observed = snd now, ol_severity = fst (level_severity (rec_level r)),
      ol_severity_text = snd (level_severity (rec_level r)),
      ol_body = rec_msg r @ concat (map (render_leaf q)
        (map (redact_leaf re) (attached [] ds @ concat (map (leaves (open_prefix [] ds)) (rec_attrs r)))))\<rparr>])"
  by (rule bridge_logs_line)

end
