(* ===== verification/Simulator.thy ===== *)
theory Simulator
  imports Sample_App Client_Log
begin

text \<open>
  \<open>cmd/sample-app/main.go\<close>: the simulated services. A service is a \<open>simulator\<close> whose request
  loop (\<open>run\<close>) is a fold of \<open>sim_turn\<close> over the ticks; what it reports through its OpenTelemetry
  instruments is the count they have added up to, and the records it emitted. Random draws and
  clock readings are arguments, and the SDK is the errors it answers with.
\<close>

section \<open>Pace\<close>

definition f64_add :: "float64 \<Rightarrow> float64 \<Rightarrow> float64" where
  \<comment> \<open>of finite non-negative floats\<close>
  "f64_add x y = (case (f64_ratio x, f64_ratio y) of ((a, b), (c, d)) \<Rightarrow> round_ratio False (a * d + c * b) (b * d))"

datatype pace = Normal | Blipping | Bursting

definition rps_factor :: "pace \<Rightarrow> nat" where
  "rps_factor p = (case p of Bursting \<Rightarrow> 10 | Blipping \<Rightarrow> 5 | Normal \<Rightarrow> 1)"

definition error_rate :: "pace \<Rightarrow> float64" where
  "error_rate p = (case p of Bursting \<Rightarrow> round_ratio False 1 2 | Blipping \<Rightarrow> round_ratio False 1 4 | Normal \<Rightarrow> round_ratio False 2 100)"

record simulator =
  si_name :: string
  si_rps :: float64
  si_mem :: int
  si_burst :: burst
  si_blip :: burst
  si_paused :: bool

definition sim_pace :: "time \<Rightarrow> simulator \<Rightarrow> pace" where
  "sim_pace now s =
     (if burst_active now (si_burst s) then Bursting
      else if burst_active now (si_blip s) then Blipping else Normal)"

definition signed_like :: "float64 \<Rightarrow> float64 \<Rightarrow> float64" where
  "signed_like x q = (case (x, q) of (FFin True _ _, FFin _ m e) \<Rightarrow> FFin True m e | (FFin True _ _, FInf _) \<Rightarrow> FInf True | _ \<Rightarrow> q)"

definition request_interval :: "float64 \<Rightarrow> duration" where
  \<comment> \<open>\<open>time.Duration(float64(time.Second) / s.rps)\<close>\<close>
  "request_interval rps =
     (case rps of
        FFin s m e \<Rightarrow>
          word_of_int (int64_of_float (if m = 0 then FInf s else signed_like rps (f64_div (f64_of_nat (10 ^ 9)) rps)))
      | FInf s \<Rightarrow> 0
      | FNaN \<Rightarrow> word_of_int (int64_of_float FNaN))"

definition paced_interval :: "duration \<Rightarrow> pace \<Rightarrow> duration" where
  \<comment> \<open>\<open>time.Duration(float64(interval) / p.rpsFactor())\<close> of an interval that is positive\<close>
  "paced_interval i p = word_of_int (int64_of_float (f64_div (f64_of_nat (unat i)) (f64_of_nat (rps_factor p))))"

section \<open>A request\<close>

record draws =
  dw_route :: nat      \<comment> \<open>\<open>rand.IntN(len(routes))\<close>\<close>
  dw_status :: float64   \<comment> \<open>\<open>rand.Float64()\<close>\<close>
  dw_latency :: float64  \<comment> \<open>\<open>rand.ExpFloat64()\<close>\<close>
  dw_grow :: int
  dw_log_time :: time    \<comment> \<open>the clock \<open>emitLog\<close> reads\<close>
  dw_gc :: "int option"  \<comment> \<open>the heap left by a collection, if one is drawn\<close>

datatype attribute = AttrString string | AttrInt nat | AttrFloat float64

record sim_record =
  sr_time :: time
  sr_attributes :: "(string \<times> attribute) list"
  sr_severity :: otel_severity
  sr_severity_text :: string
  sr_body :: string

record reported =
  re_requests :: int
  re_errors :: int
  re_inflight :: int
  re_durations :: "float64 list"
  re_logs :: "sim_record list"

definition routes :: "string list" where
  "routes = [''/login'', ''/users'', ''/users/{id}'', ''/health'', ''/search'']"

definition request_status :: "pace \<Rightarrow> float64 \<Rightarrow> nat" where
  "request_status p r =
     (if f64_less r (error_rate p) then 500
      else if f64_less r (f64_add (error_rate p) (round_ratio False 5 100)) then 404 else 200)"

definition request_latency :: "pace \<Rightarrow> string \<Rightarrow> float64 \<Rightarrow> float64" where
  "request_latency p route r =
     (let l = f64_add (f64_of_nat 5) (f64_mult r (f64_of_nat 40));
          l = (if route = ''/search'' then f64_mult l (f64_of_nat 3) else l)
      in if p = Bursting then f64_mult l (f64_of_nat 8) else l)"

definition log_content :: "string \<Rightarrow> nat \<Rightarrow> float64 \<Rightarrow> otel_severity \<times> string \<times> string" where
  "log_content route status latency =
     (if 500 \<le> status then (SeverityError, ''ERROR'', route @ '' failed: upstream timeout ('' @ nat_digits status @ '')'')
      else if 400 \<le> status then (SeverityWarn, ''WARN'', route @ '' -> '' @ nat_digits status)
      else if f64_less (f64_of_nat 100) latency then
        (SeverityWarn, ''WARN'', route @ '' slow: '' @ format_fixed 0 latency @ ''ms'')
      else (SeverityInfo, ''INFO'',
        route @ '' -> '' @ nat_digits status @ '' in '' @ format_fixed 1 latency @ ''ms''))"

definition emit_log :: "time \<Rightarrow> string \<Rightarrow> nat \<Rightarrow> float64 \<Rightarrow> sim_record" where
  "emit_log now route status latency =
     (case log_content route status latency of (sev, txt, body) \<Rightarrow>
        \<lparr>sr_time = now,
         sr_attributes = [(''http.route'', AttrString route), (''http.response.status_code'', AttrInt status),
           (''duration_ms'', AttrFloat latency)],
         sr_severity = sev, sr_severity_text = txt, sr_body = body\<rparr>)"

definition burst_mem_per_req :: int where "burst_mem_per_req = 96 * 2 ^ 10"
definition burst_mem_cap :: int where "burst_mem_cap = 512 * 2 ^ 20"

definition request_memory :: "pace \<Rightarrow> draws \<Rightarrow> int \<Rightarrow> int" where
  "request_memory p dw mem =
     (if p = Bursting then min (mem + burst_mem_per_req) burst_mem_cap
      else case dw_gc dw of None \<Rightarrow> mem + dw_grow dw | Some left \<Rightarrow> 40 * 2 ^ 20 + left)"

definition sim_request :: "time \<Rightarrow> draws \<Rightarrow> simulator \<times> reported \<Rightarrow> simulator \<times> reported" where
  "sim_request now dw sr =
     (case sr of (s, r) \<Rightarrow>
        let p = sim_pace now s;
            route = routes ! dw_route dw;
            status = request_status p (dw_status dw);
            latency = request_latency p route (dw_latency dw);
            r = r\<lparr>re_inflight := re_inflight r + 1\<rparr>;
            r = r\<lparr>re_requests := re_requests r + 1, re_durations := re_durations r @ [latency]\<rparr>;
            r = (if 500 \<le> status then r\<lparr>re_errors := re_errors r + 1\<rparr> else r);
            r = r\<lparr>re_inflight := re_inflight r - 1\<rparr>;
            s = s\<lparr>si_mem := request_memory p dw (si_mem s)\<rparr>
        in (s, r\<lparr>re_logs := re_logs r @ [emit_log (dw_log_time dw) route status latency]\<rparr>))"

section \<open>The request loop\<close>

definition blip_min_for :: duration where "blip_min_for = seconds 5"
definition blip_max_for :: duration where "blip_max_for = seconds 20"
definition blip_min_gap :: duration where "blip_min_gap = seconds 45"
definition blip_max_gap :: duration where "blip_max_gap = seconds 120"

definition rand_duration :: "(duration \<Rightarrow> duration) \<Rightarrow> duration \<Rightarrow> duration \<Rightarrow> duration" where
  \<comment> \<open>the first argument is \<open>rand.Int64N\<close>\<close>
  "rand_duration int64n lo hi = lo + int64n (hi - lo)"

record looping =
  lp_sim :: simulator
  lp_reported :: reported
  lp_current :: pace
  lp_next_blip :: time
  lp_ticker :: duration

record tick =
  tk_now :: time
  tk_request :: time   \<comment> \<open>the clock \<open>request\<close> reads\<close>
  tk_draws :: draws
  tk_blip_for :: "duration \<Rightarrow> duration"  \<comment> \<open>two uses of \<open>rand.Int64N\<close>\<close>
  tk_blip_gap :: "duration \<Rightarrow> duration"

definition sim_blip :: "tick \<Rightarrow> looping \<Rightarrow> looping" where
  "sim_blip t l =
     (let s = lp_sim l in
      if time_before (lp_next_blip l) (tk_now t) \<and> \<not> burst_active (tk_now t) (si_burst s) then
        let d = rand_duration (tk_blip_for t) blip_min_for blip_max_for in
        l\<lparr>lp_sim := s\<lparr>si_blip := snd (burst_start_for (tk_now t) d (si_blip s))\<rparr>,
          lp_next_blip := time_add (tk_now t) (d + rand_duration (tk_blip_gap t) blip_min_gap blip_max_gap)\<rparr>
      else l)"

definition sim_reset_ticker :: "time \<Rightarrow> looping \<Rightarrow> looping option" where
  \<comment> \<open>None: \<open>Ticker.Reset\<close> panics of an interval that is not positive\<close>
  "sim_reset_ticker now l =
     (let p = sim_pace now (lp_sim l); d = paced_interval (request_interval (si_rps (lp_sim l))) p in
      if p = lp_current l then Some l
      else if dur_less 0 d then Some (l\<lparr>lp_current := p, lp_ticker := d\<rparr>) else None)"

definition sim_turn :: "tick \<Rightarrow> looping \<Rightarrow> looping option" where
  "sim_turn t l =
     (case sim_reset_ticker (tk_now t) (sim_blip t l) of
        None \<Rightarrow> None
      | Some l \<Rightarrow>
          (case sim_request (tk_request t) (tk_draws t) (lp_sim l, lp_reported l) of
             (s, r) \<Rightarrow>
               let s = s\<lparr>si_burst := snd (burst_tick (tk_now t) (si_burst s))\<rparr>;
                   s = s\<lparr>si_blip := snd (burst_tick (tk_now t) (si_blip s))\<rparr>
               in Some (l\<lparr>lp_sim := s, lp_reported := r\<rparr>)))"

text \<open>Between two turns the keys act on the simulator.\<close>

definition toggle_pause :: "simulator \<Rightarrow> simulator" where
  "toggle_pause s = s\<lparr>si_paused := \<not> si_paused s\<rparr>"

definition sim_start_burst :: "time \<Rightarrow> simulator \<Rightarrow> simulator" where
  "sim_start_burst now s = s\<lparr>si_burst := snd (burst_start now (si_burst s))\<rparr>"

datatype sim_input = Turn tick | Key_Burst time | Key_Pause

fun sim_step :: "sim_input \<Rightarrow> looping \<Rightarrow> looping option" where
  "sim_step (Turn t) l = sim_turn t l"
| "sim_step (Key_Burst now) l = Some (l\<lparr>lp_sim := sim_start_burst now (lp_sim l)\<rparr>)"
| "sim_step Key_Pause l = Some (l\<lparr>lp_sim := toggle_pause (lp_sim l)\<rparr>)"

fun sim_events :: "sim_input list \<Rightarrow> looping \<Rightarrow> looping option" where
  "sim_events [] l = Some l"
| "sim_events (e # es) l = (case sim_step e l of None \<Rightarrow> None | Some l \<Rightarrow> sim_events es l)"

definition new_simulator :: "service_config \<Rightarrow> duration \<Rightarrow> simulator" where
  "new_simulator sv burst_for =
     \<lparr>si_name = service_key sv, si_rps = sv_rps sv, si_mem = 40 * 2 ^ 20, si_burst = new_burst burst_for,
      si_blip = new_burst blip_max_for, si_paused = False\<rparr>"

definition sim_run_start :: "time \<Rightarrow> (duration \<Rightarrow> duration) \<Rightarrow> simulator \<Rightarrow> looping option" where
  \<comment> \<open>None: \<open>NewTicker\<close> panics\<close>
  "sim_run_start now gap s =
     (if dur_less 0 (request_interval (si_rps s)) then
        Some \<lparr>lp_sim = s, lp_reported = \<lparr>re_requests = 0, re_errors = 0, re_inflight = 0, re_durations = [], re_logs = []\<rparr>,
          lp_current = Normal, lp_next_blip = time_add now (rand_duration gap blip_min_gap blip_max_gap), lp_ticker = request_interval (si_rps s)\<rparr>
      else None)"

definition gauges :: "simulator \<Rightarrow> float64 \<Rightarrow> int option \<times> float64 option" where
  \<comment> \<open>what the memory and CPU gauges observe; \<open>cpu\<close> is the utilization drawn\<close>
  "gauges s cpu = (if si_paused s then (None, None) else (Some (si_mem s), Some cpu))"

section \<open>Keys\<close>

definition control_key :: "(nat \<Rightarrow> time) \<Rightarrow> char \<Rightarrow> simulator list \<Rightarrow> simulator list option" where
  \<comment> \<open>the clock read for each simulator; None: quit\<close>
  "control_key now k sims =
     (if k = CHR ''b'' \<or> k = CHR ''B'' then Some (map (\<lambda>(i, s). sim_start_burst (now i) s) (enumerate 0 sims))
      else if CHR ''1'' \<le> k \<and> k \<le> CHR ''9'' \<and> of_char k - of_char CHR ''1'' < length sims then
        (let i = of_char k - of_char CHR ''1'' in Some (sims[i := sim_start_burst (now i) (sims ! i)]))
      else if k = CHR ''p'' \<or> k = CHR ''P'' then Some (map toggle_pause sims)
      else if k = CHR ''q'' \<or> k = CHR ''Q'' \<or> k = CHR 0x03 then None
      else Some sims)"

fun control :: "((nat \<Rightarrow> time) \<times> char) list \<Rightarrow> simulator list \<Rightarrow> simulator list" where
  "control [] sims = sims"
| "control ((now, k) # ks) sims = (case control_key now k sims of None \<Rightarrow> sims | Some sims \<Rightarrow> control ks sims)"

section \<open>Starting a service\<close>

text \<open>What the OpenTelemetry SDK answers: an error for a resource, an exporter or an instrument.\<close>

record 'e service_sdk =
  ss_resource :: "'e option"
  ss_metrics :: "'e option"
  ss_logs :: "'e option"
  ss_instrument :: "string \<Rightarrow> 'e option"

definition sim_instruments :: "string list" where
  "sim_instruments = [''http.server.requests'', ''http.server.errors'', ''http.server.duration'',
     ''http.server.active_requests'', ''go.memory.used'', ''process.cpu.utilization'', ''process.uptime'']"

fun first_error :: "(string \<Rightarrow> 'e option) \<Rightarrow> string list \<Rightarrow> 'e option" where
  "first_error create [] = None"
| "first_error create (n # ns) = (case create n of Some e \<Rightarrow> Some e | None \<Rightarrow> first_error create ns)"

datatype provider = MeterProvider | LoggerProvider

datatype 'e service_error = NoResource 'e | NoMetricExporter 'e | NoLogExporter 'e | NoInstruments 'e

definition start_service :: "'e service_sdk \<Rightarrow> service_config \<Rightarrow> duration \<Rightarrow>
    ('e service_error + simulator) \<times> provider list \<times> provider list" where
  \<comment> \<open>the result, the providers started and the ones shut down\<close>
  "start_service sdk sv burst_for =
     (case ss_resource sdk of
        Some e \<Rightarrow> (Inl (NoResource e), [], [])
      | None \<Rightarrow> (case ss_metrics sdk of
        Some e \<Rightarrow> (Inl (NoMetricExporter e), [], [])
      | None \<Rightarrow> (case ss_logs sdk of
        Some e \<Rightarrow> (Inl (NoLogExporter e), [MeterProvider], [MeterProvider])
      | None \<Rightarrow> (case first_error (ss_instrument sdk) sim_instruments of
        Some e \<Rightarrow> (Inl (NoInstruments e), [MeterProvider, LoggerProvider], [MeterProvider, LoggerProvider])
      | None \<Rightarrow> (Inr (new_simulator sv burst_for), [MeterProvider, LoggerProvider], [])))))"

text \<open>A service that cannot be started leaves no provider behind.\<close>

lemma start_service_leaves_nothing:
  "start_service sdk sv burst_for = (Inl e, started, stopped) \<Longrightarrow> started = stopped"
  by (auto simp: start_service_def split: option.splits)

definition app_services :: "(string \<Rightarrow> 'e + string \<times> 'e option) \<Rightarrow> string \<Rightarrow> string \<Rightarrow> string \<Rightarrow> float64 \<Rightarrow>
    'e sim_conf_error + service_config list" where
  \<comment> \<open>the services of the flags \<open>-config\<close>, \<open>-namespace\<close>, \<open>-service\<close> and \<open>-rps\<close>\<close>
  "app_services open_file config ns svc rps =
     (if config \<noteq> [] then load_config open_file config rps
      else Inr [\<lparr>sv_namespace = ns, sv_service = svc, sv_rps = rps\<rparr>])"

section \<open>Lemmas\<close>

definition is_turn :: "sim_input \<Rightarrow> bool" where
  "is_turn e = (case e of Turn t \<Rightarrow> True | _ \<Rightarrow> False)"

definition logged_errors :: "sim_record list \<Rightarrow> nat" where
  "logged_errors logs = length (filter (\<lambda>lr. sr_severity lr = SeverityError) logs)"

definition reports_agree :: "nat \<Rightarrow> reported \<Rightarrow> bool" where
  "reports_agree n r \<longleftrightarrow> re_requests r = int n \<and> length (re_durations r) = n \<and> length (re_logs r) = n \<and>
     re_errors r = int (logged_errors (re_logs r)) \<and> re_inflight r = 0"

lemma emit_log_error: "sr_severity (emit_log now route status latency) = SeverityError \<longleftrightarrow> 500 \<le> status"
  by (simp add: emit_log_def log_content_def)

lemma sim_request_agree:
  "reports_agree n r \<Longrightarrow> reports_agree (Suc n) (snd (sim_request now dw (s, r)))"
  using emit_log_error [of "dw_log_time dw" "routes ! dw_route dw"]
  by (auto simp: reports_agree_def sim_request_def logged_errors_def Let_def case_prod_beta)

lemma sim_turn_agree:
  assumes "sim_turn t l = Some l'" and "reports_agree n (lp_reported l)"
  shows "reports_agree (Suc n) (lp_reported l')"
proof -
  obtain m where m: "sim_reset_ticker (tk_now t) (sim_blip t l) = Some m" "lp_reported l' =
      snd (sim_request (tk_request t) (tk_draws t) (lp_sim m, lp_reported m))"
    using assms(1) by (auto simp: sim_turn_def Let_def case_prod_beta split: option.splits)
  moreover have "lp_reported m = lp_reported l"
    using m(1) by (auto simp: sim_reset_ticker_def sim_blip_def Let_def split: if_splits)
  ultimately show ?thesis using sim_request_agree assms(2) by simp
qed

lemma sim_step_agree:
  "sim_step e l = Some l' \<Longrightarrow> reports_agree n (lp_reported l) \<Longrightarrow>
    reports_agree (if is_turn e then Suc n else n) (lp_reported l')"
  by (cases e) (auto simp: is_turn_def sim_turn_agree)

lemma sim_events_agree:
  "sim_events es l = Some l' \<Longrightarrow> reports_agree n (lp_reported l) \<Longrightarrow>
    reports_agree (n + length (filter is_turn es)) (lp_reported l')"
proof (induction es arbitrary: l n)
  case (Cons e es)
  then obtain m where m: "sim_step e l = Some m" "sim_events es m = Some l'" by (auto split: option.splits)
  from Cons.IH [OF m(2) sim_step_agree [OF m(1) Cons.prems(2)]] show ?case by (simp split: if_splits)
qed simp

lemma sim_turn_returns:
  assumes "\<And>p. dur_less 0 (paced_interval (request_interval (si_rps (lp_sim l))) p)"
  shows "\<exists>l'. sim_turn t l = Some l' \<and> si_rps (lp_sim l') = si_rps (lp_sim l)"
proof -
  have blip: "si_rps (lp_sim (sim_blip t l)) = si_rps (lp_sim l)" by (simp add: sim_blip_def Let_def)
  have "\<exists>m. sim_reset_ticker (tk_now t) (sim_blip t l) = Some m \<and> si_rps (lp_sim m) = si_rps (lp_sim l)"
    by (simp add: sim_reset_ticker_def Let_def blip assms)
  then obtain m where "sim_reset_ticker (tk_now t) (sim_blip t l) = Some m" "si_rps (lp_sim m) = si_rps (lp_sim l)"
    by blast
  then show ?thesis by (simp add: sim_turn_def sim_request_def Let_def)
qed

lemma sim_step_returns:
  assumes "\<And>p. dur_less 0 (paced_interval (request_interval (si_rps (lp_sim l))) p)"
  shows "\<exists>l'. sim_step e l = Some l' \<and> si_rps (lp_sim l') = si_rps (lp_sim l)"
  using sim_turn_returns [OF assms] by (cases e) (simp_all add: sim_start_burst_def toggle_pause_def)

lemma sim_events_return:
  "(\<And>p. dur_less 0 (paced_interval (request_interval (si_rps (lp_sim l))) p)) \<Longrightarrow> \<exists>l'. sim_events es l = Some l'"
proof (induction es arbitrary: l)
  case (Cons e es)
  obtain m where m: "sim_step e l = Some m" "si_rps (lp_sim m) = si_rps (lp_sim l)"
    using sim_step_returns [OF Cons.prems] by blast
  then show ?case using Cons.IH [of m] Cons.prems by simp
qed simp

text \<open>
  Blips are short and rare: one that starts ends within 5 to 20 seconds, and the next starts no
  earlier than 45 and no later than 120 seconds after that.
\<close>

definition int64n :: "(duration \<Rightarrow> duration) \<Rightarrow> bool" where
  \<comment> \<open>the contract of \<open>rand.Int64N\<close>\<close>
  "int64n r \<longleftrightarrow> (\<forall>n. dur_less 0 n \<longrightarrow> 0 \<le> sint (r n) \<and> sint (r n) < sint n)"

lemma sint_sum: "min_duration \<le> sint a + sint b \<Longrightarrow> sint a + sint b \<le> max_duration \<Longrightarrow> sint (a + b :: duration) = sint a + sint b"
  using sint_of_saturated [of "sint a + sint b"] by (simp flip: wi_hom_add)

lemma sint_difference: "min_duration \<le> sint a - sint b \<Longrightarrow> sint a - sint b \<le> max_duration \<Longrightarrow> sint (a - b :: duration) = sint a - sint b"
  using sint_of_saturated [of "sint a - sint b"] by (simp flip: wi_hom_sub)

lemma rand_duration_range:
  assumes "int64n r" and "0 \<le> sint lo" and "sint lo < sint hi"
  shows "sint lo \<le> sint (rand_duration r lo hi) \<and> sint (rand_duration r lo hi) < sint hi"
proof -
  have "sint (hi - lo) = sint hi - sint lo"
    using assms(2,3) sint_range [of hi] by (intro sint_difference) (auto simp: min_duration_def)
  then have "0 \<le> sint (r (hi - lo))" "sint (r (hi - lo)) < sint hi - sint lo"
    using assms(1) [unfolded int64n_def, rule_format, of "hi - lo"] assms(3) by (simp_all add: dur_less_def)
  moreover from this have "sint (lo + r (hi - lo)) = sint lo + sint (r (hi - lo))"
    using assms(2) sint_range [of hi] by (intro sint_sum) (auto simp: min_duration_def)
  ultimately show ?thesis by (simp add: rand_duration_def)
qed

lemma blip_times:
  "sint blip_min_for = 5 * 10 ^ 9" "sint blip_max_for = 20 * 10 ^ 9"
  "sint blip_min_gap = 45 * 10 ^ 9" "sint blip_max_gap = 120 * 10 ^ 9"
  by (simp_all add: blip_min_for_def blip_max_for_def blip_min_gap_def blip_max_gap_def seconds_def)

lemma blips_are_short:
  assumes "int64n (tk_blip_for t)" and "int64n (tk_blip_gap t)"
    and "over = bu_until (si_blip (lp_sim (sim_blip t l)))" and "over \<noteq> bu_until (si_blip (lp_sim l))"
  shows "tk_now t + 5 * 10 ^ 9 \<le> over \<and> over < tk_now t + 20 * 10 ^ 9 \<and>
    over + 45 * 10 ^ 9 \<le> lp_next_blip (sim_blip t l) \<and> lp_next_blip (sim_blip t l) < over + 120 * 10 ^ 9"
proof -
  let ?d = "rand_duration (tk_blip_for t) blip_min_for blip_max_for"
  let ?g = "rand_duration (tk_blip_gap t) blip_min_gap blip_max_gap"
  have d: "5 * 10 ^ 9 \<le> sint ?d" "sint ?d < 20 * 10 ^ 9"
    using rand_duration_range [OF assms(1), of blip_min_for blip_max_for] by (simp_all add: blip_times)
  have g: "45 * 10 ^ 9 \<le> sint ?g" "sint ?g < 120 * 10 ^ 9"
    using rand_duration_range [OF assms(2), of blip_min_gap blip_max_gap] by (simp_all add: blip_times)
  have "sint (?d + ?g) = sint ?d + sint ?g"
    using d g by (intro sint_sum) (simp_all add: min_duration_def max_duration_def)
  then show ?thesis
    using assms(3,4) d g by (auto simp: sim_blip_def Let_def burst_start_for_def time_add_def split: if_splits)
qed

section \<open>Properties\<close>


lemmas float_eval = f64_div_def f64_of_nat_def round_ratio_def ratio_exp_def nat_bits.simps ratio_at_def
  round_half_even_def Let_def min_exp_def max_exp_def truncate_int_def fin_ratio_def sign_int_def
  min_duration_def max_duration_def

lemma demo_interval: "request_interval (FFin False 5629499534213120 (- 50)) = 200000000"
proof -
  have "f64_div (f64_of_nat (10 ^ 9)) (FFin False 5629499534213120 (- 50)) = FFin False 6710886400000000 (- 25)"
    by (simp add: float_eval)
  then show ?thesis by (simp add: request_interval_def signed_like_def float_eval)
qed

lemma demo_paced: "dur_less 0 (paced_interval 200000000 p)"
  by (cases p) (simp_all add: paced_interval_def rps_factor_def float_eval dur_less_def)

definition demo_simulator :: simulator where
  "demo_simulator = new_simulator \<lparr>sv_namespace = ''iam'', sv_service = ''api'', sv_rps = FFin False 5629499534213120 (- 50)\<rparr> (seconds 180)"

definition demo_tick :: "time \<Rightarrow> tick" where
  "demo_tick now = \<lparr>tk_now = now, tk_request = now, tk_draws = \<lparr>dw_route = 4, dw_status = round_ratio False 3 10,
     dw_latency = f64_of_nat 1, dw_grow = 7, dw_log_time = now, dw_gc = None\<rparr>, tk_blip_for = (\<lambda>_. 0), tk_blip_gap = (\<lambda>_. seconds 15)\<rparr>"


text \<open>A rate that \<open>parseConfig\<close> lets through can stop the whole application: an infinite one makes
  an interval of zero, for which \<open>NewTicker\<close> panics.\<close>

theorem accepted_rate_panics:
  "\<exists>sv sw. parse_config (demo_services, None :: unit option) d = Inr [sv, sw] \<and>
    sim_run_start now gap (new_simulator sw b) = None"
proof -
  have "sim_run_start now gap (new_simulator sw b) = None" if "sv_rps sw = FInf False" for sw
    by (simp add: that sim_run_start_def new_simulator_def request_interval_def dur_less_def)
  then show ?thesis using demo_services_parsed [of d] by fast
qed

end
