(* ===== verification/Client_Process.thy ===== *)
theory Client_Process
  imports Go_Duration Display Simulator
begin

text \<open>
  \<open>client/process.go\<close>, \<open>process_unix.go\<close>, \<open>process_other.go\<close> and
  \<open>client/instruments.go\<close>: the process gauges, sampled CPU time turned into utilization, and
  the constructors of instruments that never fail. The kernel's CPU times, the number of CPUs, the
  runtime's memory metrics and the meter are parameters.
\<close>

section \<open>Instruments\<close>

text \<open>The instrument created, None for the no-op one, and the error logged, if any.\<close>

definition make_instrument :: "string \<Rightarrow> (string \<Rightarrow> 'e + 'i) \<Rightarrow> string \<Rightarrow> 'i option \<times> (string \<times> string \<times> 'e) option" where
  "make_instrument msg create name =
     (case create name of Inl e \<Rightarrow> (None, Some (msg, name, e)) | Inr c \<Rightarrow> (Some c, None))"

definition new_counter :: "(string \<Rightarrow> 'e + 'i) \<Rightarrow> string \<Rightarrow> 'i option \<times> (string \<times> string \<times> 'e) option" where
  "new_counter = make_instrument ''client: counter''"

definition new_histogram :: "(string \<Rightarrow> 'e + 'i) \<Rightarrow> string \<Rightarrow> 'i option \<times> (string \<times> string \<times> 'e) option" where
  "new_histogram = make_instrument ''client: histogram''"

definition new_up_down :: "(string \<Rightarrow> 'e + 'i) \<Rightarrow> string \<Rightarrow> 'i option \<times> (string \<times> string \<times> 'e) option" where
  "new_up_down = make_instrument ''client: updown''"

definition new_gauge :: "(string \<Rightarrow> 'e + 'i) \<Rightarrow> string \<Rightarrow> (string \<times> string \<times> 'e) option" where
  "new_gauge create name = snd (make_instrument ''client: gauge'' create name)"

definition f64_of_int :: "int \<Rightarrow> float64" where
  "f64_of_int i = round_ratio (i < 0) (nat \<bar>i\<bar>) 1"

definition f64_neg :: "float64 \<Rightarrow> bool" where
  "f64_neg x = (case x of FFin s m e \<Rightarrow> s | FInf s \<Rightarrow> s | FNaN \<Rightarrow> False)"

definition f64_quot :: "float64 \<Rightarrow> float64 \<Rightarrow> float64" where
  \<comment> \<open>the quotient of a finite float and a finite positive one\<close>
  "f64_quot x y = signed_like x (f64_div x y)"

definition millis :: "duration \<Rightarrow> float64" where
  "millis d = f64_quot (f64_of_int (sint d)) (f64_of_nat (10 ^ 6))"

section \<open>CPU utilization\<close>

text \<open>The user and system time of \<open>getrusage\<close> in nanoseconds, if the call succeeds; \<open>None\<close> on other systems.\<close>

definition cpu_time :: "(64 word \<times> 64 word) option \<Rightarrow> duration option" where
  "cpu_time ru = map_option (\<lambda>(utime, stime). utime + stime) ru"

definition cpu_time_other :: "duration option" where
  "cpu_time_other = None"

record cpu_sampler =
  cs_wall :: time
  cs_cpu :: duration

definition new_cpu_sampler :: "time \<Rightarrow> duration option \<Rightarrow> cpu_sampler" where
  "new_cpu_sampler start cpu =
     \<lparr>cs_wall = start, cs_cpu = (case cpu of Some c \<Rightarrow> c | None \<Rightarrow> 0)\<rparr>"

definition whole_seconds :: "duration \<Rightarrow> float64 \<times> float64" where
  \<comment> \<open>\<open>float64(d / Second)\<close> and \<open>float64(d % Second) / 1e9\<close>, of a duration that is not negative\<close>
  "whole_seconds d =
     (f64_of_nat (unat d div 10 ^ 9), f64_div (f64_of_nat (unat d mod 10 ^ 9)) (f64_of_nat (10 ^ 9)))"

definition duration_seconds :: "duration \<Rightarrow> float64" where
  \<comment> \<open>\<open>Duration.Seconds\<close>: truncated division makes it odd in the duration\<close>
  "duration_seconds d =
     (if dur_less d 0 then (case whole_seconds (- d) of (s, n) \<Rightarrow>
        (case f64_add s n of FFin _ m e \<Rightarrow> FFin True m e | q \<Rightarrow> q))
      else (case whole_seconds d of (s, n) \<Rightarrow> f64_add s n))"

definition f64_min :: "float64 \<Rightarrow> float64 \<Rightarrow> float64" where
  \<comment> \<open>the built-in \<open>min\<close>; a NaN is the result of any comparison with it\<close>
  "f64_min x y = (if x = FNaN \<or> y = FNaN then FNaN else if f64_less y x then y else x)"

definition f64_max :: "float64 \<Rightarrow> float64 \<Rightarrow> float64" where
  "f64_max x y = (if x = FNaN \<or> y = FNaN then FNaN else if f64_less x y then y else x)"

definition utilization :: "nat \<Rightarrow> time \<Rightarrow> duration option \<Rightarrow> cpu_sampler \<Rightarrow> float64 \<times> cpu_sampler" where
  \<comment> \<open>the number of CPUs, the clock, and what \<open>cpuTime\<close> returns\<close>
  "utilization ncpu now cpu_now c =
     (case cpu_now of
        None \<Rightarrow> (f64_of_nat 0, c)
      | Some cpu \<Rightarrow>
          let wall = time_sub now (cs_wall c); used = cpu - cs_cpu c;
              c = \<lparr>cs_wall = now, cs_cpu = cpu\<rparr> in
          if \<not> dur_less 0 wall then (f64_of_nat 0, c)
          else (let u = f64_quot (duration_seconds used) (f64_mult (duration_seconds wall) (f64_of_nat ncpu))
                in (f64_max (f64_of_nat 0) (f64_min (f64_of_nat 1) u), c)))"

section \<open>Memory and uptime\<close>

datatype metric_value = KindUint64 "64 word" | KindOther

definition memory_used :: "metric_value \<Rightarrow> metric_value \<Rightarrow> 64 word" where
  \<comment> \<open>total mapped memory and heap released; an int64\<close>
  "memory_used mapped released =
     (case (mapped, released) of (KindUint64 t, KindUint64 r) \<Rightarrow> t - r | _ \<Rightarrow> 0)"

definition process_gauges :: "string list" where
  "process_gauges = [''process.cpu.utilization'', ''go.memory.used'', ''go.goroutines'', ''process.uptime'']"

datatype observed = ObservedFloat float64 | ObservedInt "64 word"

definition observe_process :: "nat \<Rightarrow> time \<Rightarrow> duration option \<Rightarrow> metric_value \<times> metric_value \<Rightarrow> 64 word \<Rightarrow> time \<Rightarrow> time \<Rightarrow>
    cpu_sampler \<Rightarrow> (string \<times> observed) list \<times> cpu_sampler" where
  \<comment> \<open>the callbacks of one collection: CPUs, clock and CPU time, memory, goroutines, start and clock\<close>
  "observe_process ncpu now cpu mem goroutines start now' c =
     (case utilization ncpu now cpu c of (u, c) \<Rightarrow>
        (zip process_gauges [ObservedFloat u, ObservedInt (memory_used (fst mem) (snd mem)), ObservedInt goroutines,
           ObservedFloat (duration_seconds (time_sub now' start))], c))"

definition register_process :: "(string \<Rightarrow> 'e option) \<Rightarrow> (string \<times> 'e) list" where
  \<comment> \<open>the errors logged: one that fails does not stop the others\<close>
  "register_process create =
     concat (map (\<lambda>name. case create name of Some e \<Rightarrow> [(name, e)] | None \<Rightarrow> []) process_gauges)"

section \<open>Lemmas\<close>

lemma f64_of_nat_0: "f64_of_nat 0 = FFin False 0 min_exp"
  by (simp add: f64_of_nat_def round_ratio_def)

lemma f64_of_nat_1: "f64_of_nat 1 = FFin False (2 ^ 52) (- 52)"
proof -
  have "nat_bits (Suc 0) = 1" by (simp add: nat_bits.simps [of "Suc 0"] nat_bits.simps [of 0])
  then show ?thesis
    by (simp add: f64_of_nat_def round_ratio_def ratio_exp_def ratio_at_def round_half_even_def Let_def min_exp_def max_exp_def)
qed

lemma f64_le_refl: "x \<noteq> FNaN \<Longrightarrow> f64_le x x"
  by (cases x) auto

lemma f64_clamp:
  assumes "lo \<noteq> FNaN" "hi \<noteq> FNaN" "f64_le lo hi" "u \<noteq> FNaN"
  shows "f64_le lo (f64_max lo (f64_min hi u)) \<and> f64_le (f64_max lo (f64_min hi u)) hi"
proof -
  have "f64_min hi u \<noteq> FNaN \<and> f64_le (f64_min hi u) hi"
    using assms(2,4) by (auto simp: f64_min_def f64_less_imp_le f64_le_refl)
  then show ?thesis using assms(1,3) by (auto simp: f64_max_def f64_less_imp_le f64_le_refl)
qed

lemma round_ratio_number: "round_ratio s n d \<noteq> FNaN"
  by (simp add: round_ratio_def Let_def case_prod_beta)

lemma f64_quot_number: "f64_quot x y \<noteq> FNaN"
  using round_ratio_number by (auto simp: f64_quot_def signed_like_def f64_div_def split: prod.splits float64.splits bool.splits)

lemma f64_0_le_1: "f64_le (f64_of_nat 0) (f64_of_nat 1)"
  unfolding f64_of_nat_0 f64_of_nat_1 by (simp add: scaled_def sign_int_def)

section \<open>Properties\<close>

text \<open>
  The CPU gauge always shows a share: whatever the clocks read, also when they go backwards or
  stand still, the utilization is a number between 0 and 1, and every sample that could read the CPU
  time starts a new interval at that moment, so no time is counted in two.
\<close>

theorem utilization_is_a_share:
  "f64_le (f64_of_nat 0) (fst (utilization ncpu now cpu c)) \<and> f64_le (fst (utilization ncpu now cpu c)) (f64_of_nat 1) \<and>
    snd (utilization ncpu now cpu c) = (case cpu of None \<Rightarrow> c | Some t \<Rightarrow> \<lparr>cs_wall = now, cs_cpu = t\<rparr>)"
proof -
  have "f64_of_nat 0 \<noteq> FNaN" "f64_of_nat 1 \<noteq> FNaN" by (simp_all add: f64_of_nat_def round_ratio_number)
  then show ?thesis
    using f64_clamp [OF _ _ f64_0_le_1 f64_quot_number] f64_0_le_1 f64_le_refl
    by (simp add: utilization_def Let_def split: option.split)
qed

end
