(* ===== verification/Sample_Main.thy ===== *)
theory Sample_Main
  imports Client_Process Go_Flag
begin

text \<open>
  \<open>main\<close> of \<open>cmd/sample-app/main.go\<close>: its flags, the services it starts, and the CPU gauge of a
  service. The files, the SDK and the sine are parameters.
\<close>

section \<open>The command line\<close>

record app_options =
  ap_endpoint :: string
  ap_namespace :: string
  ap_service :: string
  ap_interval :: duration
  ap_rps :: float64
  ap_burst :: duration
  ap_config :: string

definition default_app_options :: app_options where
  "default_app_options = \<lparr>ap_endpoint = ''localhost:4318'', ap_namespace = ''iam'', ap_service = ''iam-api'',
     ap_interval = seconds 5, ap_rps = f64_of_nat 20, ap_burst = seconds 180, ap_config = []\<rparr>"

definition app_flag_defs :: "(string \<times> app_options flag) list" where
  "app_flag_defs =
     [(''endpoint'', string_flag (\<lambda>v p. p\<lparr>ap_endpoint := v\<rparr>)),
      (''namespace'', string_flag (\<lambda>v p. p\<lparr>ap_namespace := v\<rparr>)),
      (''service'', string_flag (\<lambda>v p. p\<lparr>ap_service := v\<rparr>)),
      (''interval'', duration_flag (\<lambda>d p. p\<lparr>ap_interval := d\<rparr>)),
      (''rps'', float_flag (\<lambda>x p. p\<lparr>ap_rps := x\<rparr>)),
      (''burst'', duration_flag (\<lambda>d p. p\<lparr>ap_burst := d\<rparr>)),
      (''config'', string_flag (\<lambda>v p. p\<lparr>ap_config := v\<rparr>))]"

section \<open>Starting the services\<close>

fun start_services :: "(service_config \<Rightarrow> 'e service_sdk) \<Rightarrow> duration \<Rightarrow> service_config list \<Rightarrow>
    (service_config \<times> 'e service_error) + simulator list" where
  \<comment> \<open>the first service that cannot be started ends the command\<close>
  "start_services sdk burst_for [] = Inr []"
| "start_services sdk burst_for (sv # svs) =
     (case fst (start_service (sdk sv) sv burst_for) of
        Inl e \<Rightarrow> Inl (sv, e)
      | Inr s \<Rightarrow> bind_result (start_services sdk burst_for svs) (\<lambda>sims. Inr (s # sims)))"

datatype 'e app_failure = AppFlags flag_error | AppConfig "'e sim_conf_error"
  | AppService service_config "'e service_error"

definition app_start :: "(string \<Rightarrow> 'e + string \<times> 'e option) \<Rightarrow> (service_config \<Rightarrow> 'e service_sdk) \<Rightarrow> string list \<Rightarrow>
    'e app_failure + simulator list" where
  \<comment> \<open>up to the point where the keys are read\<close>
  "app_start open_file sdk args =
     (case parse_flags app_flag_defs args default_app_options of
        Inl e \<Rightarrow> Inl (AppFlags e)
      | Inr (p, rest) \<Rightarrow>
          (case app_services open_file (ap_config p) (ap_namespace p) (ap_service p) (ap_rps p) of
             Inl e \<Rightarrow> Inl (AppConfig e)
           | Inr svs \<Rightarrow>
               (case start_services sdk (ap_burst p) svs of
                  Inl (sv, e) \<Rightarrow> Inl (AppService sv e)
                | Inr sims \<Rightarrow> Inr sims)))"

definition service_line :: "nat \<Rightarrow> simulator \<Rightarrow> string" where
  \<comment> \<open>what is logged for each service, counted from one\<close>
  "service_line i s = ''  '' @ nat_digits (i + 1) @ '': '' @ si_name s @ '' ('' @ format_fixed 0 (si_rps s) @ '' rps)''"

section \<open>The terminal\<close>

text \<open>
  Whether the terminal is in raw mode, and whether log lines are written through the writer that
  ends them with a carriage return. Raw mode yields the function that leaves it again.
\<close>

record terminal =
  tm_raw :: bool
  tm_crlf :: bool

definition raw_terminal :: "bool \<Rightarrow> 'e option \<Rightarrow> terminal \<Rightarrow> terminal \<times> (terminal \<Rightarrow> terminal)" where
  \<comment> \<open>whether the input is a terminal, and the error of \<open>term.MakeRaw\<close>\<close>
  "raw_terminal is_terminal err t =
     (if \<not> is_terminal then (t, id)
      else case err of
        Some e \<Rightarrow> (t, id)
      | None \<Rightarrow> (t\<lparr>tm_raw := True, tm_crlf := True\<rparr>, \<lambda>u. u\<lparr>tm_raw := tm_raw t, tm_crlf := False\<rparr>))"

definition log_output :: "terminal \<Rightarrow> string \<Rightarrow> string" where
  "log_output t p = (if tm_crlf t then crlf_write p else p)"

definition app_session :: "bool \<Rightarrow> 'e option \<Rightarrow> ((nat \<Rightarrow> time) \<times> char) list \<Rightarrow> simulator list \<Rightarrow> terminal \<Rightarrow>
    string list \<times> simulator list \<times> terminal" where
  \<comment> \<open>the lines logged for the services, the services at the end, and the terminal it leaves\<close>
  "app_session is_terminal err ks sims t =
     (case raw_terminal is_terminal err t of
        (u, restore) \<Rightarrow>
          let lines = map (\<lambda>(i, s). log_output u (service_line i s @ [CHR 0x0A])) (enumerate 0 sims);
              sims = control ks sims;
              u = restore u
          in (lines, sims, restore u))"

text \<open>Whatever happens, the terminal is left as it was found.\<close>

lemma session_restores_terminal:
  "\<not> tm_crlf t \<Longrightarrow> snd (snd (app_session is_terminal err ks sims t)) = t"
  by (cases t) (simp add: app_session_def raw_terminal_def Let_def split: option.split)

section \<open>The CPU gauge\<close>

definition round_scaled :: "bool \<Rightarrow> nat \<Rightarrow> int \<Rightarrow> float64" where
  "round_scaled neg n k = (if 0 \<le> k then round_ratio neg (n * 2 ^ nat k) 1 else round_ratio neg n (2 ^ nat (- k)))"

fun f64_plus :: "float64 \<Rightarrow> float64 \<Rightarrow> float64" where
  "f64_plus (FFin s m e) (FFin t n f) =
     (let k = min e f; v = sign_int s m * 2 ^ nat (e - k) + sign_int t n * 2 ^ nat (f - k)
      in round_scaled (if v = 0 then s \<and> t else v < 0) (nat \<bar>v\<bar>) k)"
| "f64_plus (FInf s) (FInf t) = (if s = t then FInf s else FNaN)"
| "f64_plus FNaN y = FNaN"
| "f64_plus x FNaN = FNaN"
| "f64_plus (FInf s) y = FInf s"
| "f64_plus x (FInf t) = FInf t"

fun f64_times :: "float64 \<Rightarrow> float64 \<Rightarrow> float64" where
  "f64_times (FFin s m e) (FFin t n f) = round_scaled (s \<noteq> t) (m * n) (e + f)"
| "f64_times FNaN y = FNaN"
| "f64_times x FNaN = FNaN"
| "f64_times (FInf s) (FInf t) = FInf (s \<noteq> t)"
| "f64_times (FInf s) (FFin t n f) = (if n = 0 then FNaN else FInf (s \<noteq> t))"
| "f64_times (FFin s m e) (FInf t) = (if m = 0 then FNaN else FInf (s \<noteq> t))"

definition sim_cpu :: "(float64 \<Rightarrow> float64) \<Rightarrow> time \<Rightarrow> duration \<Rightarrow> float64 \<Rightarrow> simulator \<Rightarrow> float64" where
  \<comment> \<open>the sine, the clock, the time since the start, and the number drawn\<close>
  "sim_cpu sine now since r s =
     (if burst_active now (si_burst s) then
        f64_min (f64_of_nat 1) (f64_plus (round_ratio False 92 100) (f64_times r (round_ratio False 6 100)))
      else
        let t = duration_seconds since;
            v = f64_plus (f64_plus (round_ratio False 35 100)
                  (f64_times (round_ratio False 25 100) (sine (f64_quot t (f64_of_nat 60)))))
                (f64_times r (round_ratio False 1 10))
        in f64_max (f64_of_nat 0) (f64_min (f64_of_nat 1) v))"

text \<open>The gauge never shows more than all of the CPU, nor less than none outside a burst.\<close>

lemma sim_cpu_range:
  assumes "sim_cpu sine now since r s \<noteq> FNaN"
  shows "f64_le (sim_cpu sine now since r s) (f64_of_nat 1)"
    and "\<not> burst_active now (si_burst s) \<Longrightarrow> f64_le (f64_of_nat 0) (sim_cpu sine now since r s)"
proof -
  have number: "f64_of_nat n \<noteq> FNaN" for n by (simp add: f64_of_nat_def round_ratio_number)
  have clamp: "f64_le (f64_of_nat 0) (f64_max (f64_of_nat 0) (f64_min (f64_of_nat 1) v)) \<and>
      f64_le (f64_max (f64_of_nat 0) (f64_min (f64_of_nat 1) v)) (f64_of_nat 1)"
    if "f64_max (f64_of_nat 0) (f64_min (f64_of_nat 1) v) \<noteq> FNaN" for v
    using that by (intro f64_clamp number f64_0_le_1) (auto simp: f64_min_def f64_max_def)
  have below: "f64_min (f64_of_nat 1) v \<noteq> FNaN \<Longrightarrow> f64_le (f64_min (f64_of_nat 1) v) (f64_of_nat 1)" for v
    using number by (auto simp: f64_min_def f64_less_imp_le f64_le_refl split: if_splits)
  show "f64_le (sim_cpu sine now since r s) (f64_of_nat 1)"
    using assms clamp below by (auto simp: sim_cpu_def Let_def)
  show "f64_le (f64_of_nat 0) (sim_cpu sine now since r s)" if "\<not> burst_active now (si_burst s)"
    using assms clamp that by (auto simp: sim_cpu_def Let_def)
qed

section \<open>The rate of the command line\<close>

text \<open>
  The rate of \<open>-rps\<close> is not checked, unlike the one of a file: a negative one starts a service
  whose loop panics when it makes its ticker.
\<close>

lemma no_error: "first_error (\<lambda>_. None) names = None"
  by (induction names) simp_all

theorem rate_flag_unchecked:
  assumes "\<And>sv. sdk sv = \<lparr>ss_resource = None, ss_metrics = None, ss_logs = None, ss_instrument = (\<lambda>_. None)\<rparr>"
  shows "\<exists>s. app_start open_file sdk [''-rps=-5''] = Inr [s] \<and> sim_run_start now gap s = None"
proof -
  have "parse_float ''-5'' = Some (FFin True 5629499534213120 (- 50))" by code_simp
  then have flags: "parse_flags app_flag_defs [''-rps=-5''] default_app_options =
      Inr (default_app_options\<lparr>ap_rps := FFin True 5629499534213120 (- 50)\<rparr>, [])"
    by (simp add: parse_flags.simps parse_one_def parse_named_def flag_value_def flag_argument_def set_flag_def
      app_flag_defs_def float_flag_def Let_def)
  have "f64_div (f64_of_nat (10 ^ 9)) (FFin True 5629499534213120 (- 50)) = FFin False 6710886400000000 (- 25)"
    by (simp add: float_eval)
  then have "request_interval (FFin True 5629499534213120 (- 50)) = - 200000000"
    by (simp add: request_interval_def signed_like_def float_eval)
  then have "sim_run_start now gap (new_simulator \<lparr>sv_namespace = ns, sv_service = svc,
      sv_rps = FFin True 5629499534213120 (- 50)\<rparr> b) = None" for ns svc b
    by (simp add: sim_run_start_def new_simulator_def dur_less_def)
  then show ?thesis
    unfolding app_start_def flags
    by (simp add: app_services_def default_app_options_def start_service_def no_error assms)
qed

theorem rate_flag_unchecked_witness:
  "\<exists>s. app_start (\<lambda>_. Inl ()) (\<lambda>_. \<lparr>ss_resource = None, ss_metrics = None, ss_logs = None, ss_instrument = (\<lambda>_. None)\<rparr>)
    [''-rps=-5''] = Inr [s] \<and> sim_run_start 1 (\<lambda>_. seconds 15) s = None"
  by (rule rate_flag_unchecked) simp

end
