(* ===== verification/Ingest_Concurrent.thy ===== *)
theory Ingest_Concurrent
  imports Memstore
begin

text \<open>
  \<open>internal/usecase/ingest.go\<close> under concurrency. Requests are served concurrently, and
  \<open>Ingest\<close> holds no lock of its own: appending, counting and dropping are three calls into the
  store, each atomic under the store's mutex, and the calls of several goroutines interleave. A call
  is in one of the phases below, a step runs one phase of one call, and the evictor may run between
  any two. The lemmas are proved once, in the locale \<open>sample_store\<close>.
\<close>

section \<open>Calls in flight\<close>

datatype ingest_phase = Appending stream_id sample | Counting | Dropping int | Finished

fun ingest_turn ::
  "(stream_id \<Rightarrow> sample \<Rightarrow> 's \<Rightarrow> 's) \<Rightarrow> ('s \<Rightarrow> int) \<Rightarrow> (int \<Rightarrow> 's \<Rightarrow> (int \<times> 's) option) \<Rightarrow>
   budget \<Rightarrow> ingest_phase \<Rightarrow> 's \<Rightarrow> (ingest_phase \<times> 's) option" where
  \<comment> \<open>None is a panic of the store, or a call that has returned\<close>
  "ingest_turn app cnt drp b (Appending i smp) st = Some (Counting, app i smp st)"
| "ingest_turn app cnt drp b Counting st =
     (let n = excess b (cnt st) in Some (if n > 0 then Dropping n else Finished, st))"
| "ingest_turn app cnt drp b (Dropping n) st = map_option (\<lambda>(k, st). (Finished, st)) (drp n st)"
| "ingest_turn app cnt drp b Finished st = None"

inductive calls_step ::
  "(stream_id \<Rightarrow> sample \<Rightarrow> 's \<Rightarrow> 's) \<Rightarrow> ('s \<Rightarrow> int) \<Rightarrow> (int \<Rightarrow> 's \<Rightarrow> (int \<times> 's) option) \<Rightarrow> budget \<Rightarrow>
   's \<times> ingest_phase list \<Rightarrow> 's \<times> ingest_phase list \<Rightarrow> bool"
  for app cnt drp b where
  turn: "p < length ps \<Longrightarrow> ingest_turn app cnt drp b (ps ! p) st = Some (ph, st') \<Longrightarrow>
    calls_step app cnt drp b (st, ps) (st', ps[p := ph])"

inductive_cases calls_stepE: "calls_step app cnt drp b (st, ps) c"

inductive calls_run ::
  "(stream_id \<Rightarrow> sample \<Rightarrow> 's \<Rightarrow> 's) \<Rightarrow> ('s \<Rightarrow> int) \<Rightarrow> (int \<Rightarrow> 's \<Rightarrow> (int \<times> 's) option) \<Rightarrow>
   (time \<Rightarrow> 's \<Rightarrow> int \<times> 's) \<Rightarrow> budget \<Rightarrow> 's \<Rightarrow> 's \<times> ingest_phase list \<Rightarrow> bool"
  for app cnt drp drop_before b st0 where
  idle: "calls_run app cnt drp drop_before b st0 (st0, [])"
| call: "calls_run app cnt drp drop_before b st0 (st, ps) \<Longrightarrow>
    calls_run app cnt drp drop_before b st0 (st, ps @ [Appending i smp])"
| step: "calls_run app cnt drp drop_before b st0 c \<Longrightarrow> calls_step app cnt drp b c c' \<Longrightarrow>
    calls_run app cnt drp drop_before b st0 c'"
| evict: "calls_run app cnt drp drop_before b st0 (st, ps) \<Longrightarrow>
    evictor_run drop_before w now st = (n, st') \<Longrightarrow>
    calls_run app cnt drp drop_before b st0 (st', ps)"

section \<open>Measures\<close>

fun in_flight :: "ingest_phase \<Rightarrow> int" where
  \<comment> \<open>a call that has appended and not yet trimmed\<close>
  "in_flight Counting = 1"
| "in_flight (Dropping n) = 1"
| "in_flight _ = 0"

fun turns_left :: "ingest_phase \<Rightarrow> nat" where
  "turns_left (Appending i smp) = 3"
| "turns_left Counting = 2"
| "turns_left (Dropping n) = 1"
| "turns_left Finished = 0"

fun useful :: "ingest_phase \<Rightarrow> bool" where
  "useful (Dropping n) = (0 < n)"
| "useful _ = True"

lemma sum_list_update:
  fixes f :: "'a \<Rightarrow> int"
  shows "p < length xs \<Longrightarrow> sum_list (map f (xs[p := x])) = sum_list (map f xs) - f (xs ! p) + f x"
  by (induction xs arbitrary: p) (auto split: nat.split)

lemma in_flight_pos: "0 \<le> in_flight x"
  by (cases x) simp_all

lemma in_flight_nonneg: "0 \<le> sum_list (map in_flight ps)"
  by (rule sum_list_nonneg) (auto simp: in_flight_pos)

lemma turns_decrease:
  assumes "calls_step app cnt drp b c c'"
  shows "sum_list (map turns_left (snd c')) < sum_list (map turns_left (snd c))"
  using assms
proof cases
  case (turn p ps st ph st')
  have "turns_left ph < turns_left (ps ! p)"
    using turn(4) by (cases "ps ! p") (auto simp: Let_def split: if_splits)
  then show ?thesis using turn sum_list_map_update [of p ps turns_left ph] by simp
qed

lemma turns_bound:
  "(calls_step app cnt drp b ^^ n) c c' \<Longrightarrow> n + sum_list (map turns_left (snd c')) \<le> sum_list (map turns_left (snd c))"
proof (induction n arbitrary: c')
  case 0
  then show ?case by simp
next
  case (Suc n)
  then obtain d where d: "(calls_step app cnt drp b ^^ n) c d" "calls_step app cnt drp b d c'" by auto
  show ?case using Suc.IH [OF d(1)] turns_decrease [OF d(2)] by simp
qed

section \<open>The budget\<close>

context sample_store
begin

definition within :: "budget \<Rightarrow> 's \<times> ingest_phase list \<Rightarrow> bool" where
  "within b c \<longleftrightarrow> inv (fst c) \<and> list_all useful (snd c) \<and>
     cnt (fst c) \<le> max_samples b + sum_list (map in_flight (snd c))"

lemma turn_within:
  assumes "0 < max_samples b" and "inv st" and "useful ph" and "cnt st \<le> max_samples b + k + in_flight ph" and "0 \<le> k"
    and "ingest_turn append_smp cnt drop_oldest b ph st = Some (ph', st')"
  shows "inv st' \<and> useful ph' \<and> cnt st' \<le> max_samples b + k + in_flight ph'"
proof (cases ph)
  case (Appending i smp)
  then show ?thesis using assms by (auto simp: inv_append count_append)
next
  case Counting
  then show ?thesis using assms by (auto simp: Let_def excess_def split: if_splits)
next
  case (Dropping n)
  obtain st1 where "drop_oldest n st = Some (min (max 0 n) (cnt st), st1)" "inv st1"
    "cnt st1 = cnt st - min (max 0 n) (cnt st)"
    using drop_oldest_spec [OF assms(2)] by blast
  then show ?thesis using assms Dropping by auto
next
  case Finished
  then show ?thesis using assms by simp
qed

lemma step_within:
  assumes "calls_step append_smp cnt drop_oldest b c c'" and "0 < max_samples b" and "within b c"
  shows "within b c'"
  using assms(1)
proof cases
  case (turn p ps st ph st')
  let ?k = "sum_list (map in_flight ps) - in_flight (ps ! p)"
  have "?k = sum_list (map in_flight (ps[p := Finished]))"
    using sum_list_update [of p ps in_flight Finished] turn(3) by simp
  then have k: "0 \<le> ?k" using in_flight_nonneg by simp
  have "inv st' \<and> useful ph \<and> cnt st' \<le> max_samples b + ?k + in_flight ph"
    using assms(2,3) turn k by (intro turn_within [of b st "ps ! p"]) (auto simp: within_def list_all_length)
  then show ?thesis
    using assms(3) turn sum_list_update [of p ps in_flight ph]
    by (auto simp: within_def list_all_length nth_list_update)
qed

lemma run_within:
  assumes "calls_run append_smp cnt drop_oldest drop_before b st0 c"
    and "0 < max_samples b" and "inv st0" and "cnt st0 \<le> max_samples b"
  shows "within b c"
  using assms(1)
proof (induction rule: calls_run.induct)
  case idle
  then show ?case using assms by (simp add: within_def)
next
  case (call st ps i smp)
  then show ?case by (simp add: within_def)
next
  case (step c c')
  then show ?case using step_within assms(2) by blast
next
  case (evict st ps w now n st')
  then show ?case using evict_count_le [of st w now] by (auto simp: within_def)
qed

lemma turn_inv:
  assumes "inv st" and "ingest_turn append_smp cnt drop_oldest b ph st = Some (ph', st')"
  shows "inv st'"
proof (cases ph)
  case (Dropping n)
  then show ?thesis using assms drop_oldest_spec [OF assms(1), of n] by auto
qed (use assms in \<open>auto simp: inv_append Let_def\<close>)

lemma steps_inv:
  assumes "(calls_step append_smp cnt drop_oldest b ^^ n) c0 c" and "inv (fst c0)"
  shows "inv (fst c)"
  using assms(1)
proof (induction n arbitrary: c)
  case 0
  then show ?case using assms(2) by auto
next
  case (Suc n)
  then obtain d where d: "(calls_step append_smp cnt drop_oldest b ^^ n) c0 d"
    "calls_step append_smp cnt drop_oldest b d c" by auto
  show ?case using d(2)
  proof cases
    case (turn p ps st ph st')
    then show ?thesis using turn_inv [of st b "ps ! p"] Suc.IH [OF d(1)] by simp
  qed
qed

text \<open>No phase panics, so a call that has not returned can always move.\<close>

lemma turn_returns: "inv st \<Longrightarrow> ph \<noteq> Finished \<Longrightarrow> ingest_turn append_smp cnt drop_oldest b ph st \<noteq> None"
  using drop_oldest_spec [of st] by (cases ph) (fastforce simp: Let_def)+

text \<open>A call nobody interferes with is \<open>ingester_ingest\<close>.\<close>

lemma alone:
  assumes "inv st"
  shows "(\<exists>st'. ingester_ingest append_smp cnt drop_oldest b i smp st = Some st' \<and>
    (calls_step append_smp cnt drop_oldest b)\<^sup>*\<^sup>* (st, [Appending i smp]) (st', [Finished]))"
proof -
  let ?step = "calls_step append_smp cnt drop_oldest b"
  let ?st = "append_smp i smp st" and ?n = "excess b (cnt (append_smp i smp st))"
  have s1: "?step (st, [Appending i smp]) (?st, [Counting])"
    using calls_step.turn [of 0 "[Appending i smp]" append_smp cnt drop_oldest b st Counting ?st] by simp
  have s2: "?step (?st, [Counting]) (?st, [if ?n > 0 then Dropping ?n else Finished])"
    using calls_step.turn [of 0 "[Counting]" append_smp cnt drop_oldest b ?st
        "if ?n > 0 then Dropping ?n else Finished" ?st] by (simp add: Let_def)
  show ?thesis
  proof (cases "?n > 0")
    case True
    obtain k st1 where d: "drop_oldest ?n ?st = Some (k, st1)"
      using drop_oldest_spec [OF inv_append [OF assms]] by blast
    have "?step (?st, [Dropping ?n]) (st1, [Finished])"
      using calls_step.turn [of 0 "[Dropping ?n]" append_smp cnt drop_oldest b ?st Finished st1] d by simp
    then show ?thesis using s1 s2 True d by (auto simp: ingester_ingest_def Let_def)
  next
    case False
    then show ?thesis using s1 s2 by (auto simp: ingester_ingest_def Let_def)
  qed
qed

text \<open>Two calls that both count before either drops.\<close>

lemma race:
  assumes "inv st" and "cnt st = max_samples b" and "2 \<le> max_samples b"
  shows "\<exists>st'. (calls_step append_smp cnt drop_oldest b)\<^sup>*\<^sup>* (st, [Appending i x, Appending j y]) (st', [Finished, Finished]) \<and>
    cnt st' = max_samples b - 2"
proof -
  let ?step = "calls_step append_smp cnt drop_oldest b"
  let ?s1 = "append_smp i x st" and ?s2 = "append_smp j y (append_smp i x st)"
  have inv2: "inv ?s2" and cnt2: "cnt ?s2 = max_samples b + 2"
    using assms by (simp_all add: inv_append count_append)
  have exc: "excess b (cnt ?s2) = 2" using assms(3) by (simp add: cnt2 excess_def)
  obtain s3 where s3: "drop_oldest 2 ?s2 = Some (2, s3)" "inv s3" "cnt s3 = max_samples b"
    using drop_oldest_spec [OF inv2, of 2] assms(3) by (auto simp: cnt2)
  obtain s4 where s4: "drop_oldest 2 s3 = Some (2, s4)" "cnt s4 = max_samples b - 2"
    using drop_oldest_spec [OF s3(2), of 2] assms(3) by (auto simp: s3(3))
  have t1: "?step (st, [Appending i x, Appending j y]) (?s1, [Counting, Appending j y])"
    using calls_step.turn [of 0 "[Appending i x, Appending j y]" append_smp cnt drop_oldest b st Counting ?s1] by simp
  have t2: "?step (?s1, [Counting, Appending j y]) (?s2, [Counting, Counting])"
    using calls_step.turn [of 1 "[Counting, Appending j y]" append_smp cnt drop_oldest b ?s1 Counting ?s2] by simp
  have t3: "?step (?s2, [Counting, Counting]) (?s2, [Dropping 2, Counting])"
    using calls_step.turn [of 0 "[Counting, Counting]" append_smp cnt drop_oldest b ?s2 "Dropping 2" ?s2]
    by (simp add: exc)
  have t4: "?step (?s2, [Dropping 2, Counting]) (?s2, [Dropping 2, Dropping 2])"
    using calls_step.turn [of 1 "[Dropping 2, Counting]" append_smp cnt drop_oldest b ?s2 "Dropping 2" ?s2]
    by (simp add: exc)
  have t5: "?step (?s2, [Dropping 2, Dropping 2]) (s3, [Finished, Dropping 2])"
    using calls_step.turn [of 0 "[Dropping 2, Dropping 2]" append_smp cnt drop_oldest b ?s2 Finished s3] s3(1) by simp
  have t6: "?step (s3, [Finished, Dropping 2]) (s4, [Finished, Finished])"
    using calls_step.turn [of 1 "[Finished, Dropping 2]" append_smp cnt drop_oldest b s3 Finished s4] s4(1) by simp
  have "?step\<^sup>*\<^sup>* (st, [Appending i x, Appending j y]) (s4, [Finished, Finished])"
    using t1 t2 t3 t4 t5 t6 by (meson converse_rtranclp_into_rtranclp rtranclp.rtrancl_refl)
  then show ?thesis using s4(2) by blast
qed

end

text \<open>All of it for the in-memory store, under every visiting order.\<close>

context streams_range
begin

lemmas run_within_store = ss.run_within
lemmas within_store = ss.within_def
lemmas turn_returns_store = ss.turn_returns
lemmas alone_on_store = ss.alone
lemmas race_on_store = ss.race
lemmas steps_inv_store = ss.steps_inv

end

section \<open>Properties\<close>

text \<open>
  C7: However concurrent \<open>Ingest\<close> calls and the evictor interleave, no call panics, the store
  keeps its invariant, and it exceeds its budget by at most the number of calls that have appended
  and not yet trimmed; so it is within its budget whenever no call is in flight.
\<close>

theorem concurrent_ingest_within_budget:
  assumes "streams_range rng" and "0 < max_samples b"
    and "calls_run store_append store_count (store_drop_oldest rng) (store_drop_before rng) b new_store (st, ps)"
  shows "store_inv st \<and> store_count st \<le> max_samples b + sum_list (map in_flight ps) \<and>
    list_all (\<lambda>ph. ph = Finished \<or> ingest_turn store_append store_count (store_drop_oldest rng) b ph st \<noteq> None) ps"
proof -
  have "store_count new_store \<le> max_samples b" using assms(2) by (simp add: store_count_def new_store_def)
  note w = streams_range.run_within_store [OF assms(1) assms(3,2) store_inv_new this]
  then have inv: "store_inv st" and "store_count st \<le> max_samples b + sum_list (map in_flight ps)"
    by (simp_all add: streams_range.within_store [OF assms(1)])
  moreover have "ph = Finished \<or> ingest_turn store_append store_count (store_drop_oldest rng) b ph st \<noteq> None" for ph
    using streams_range.turn_returns_store [OF assms(1) inv, of ph b] by blast
  ultimately show ?thesis unfolding list_all_iff by blast
qed

lemma demo_calls_step:
  "calls_step store_append store_count (store_drop_oldest ascending_keys) b
    (new_store, [Appending (demo_id ''a'') (demo_sample 1)])
    (store_append (demo_id ''a'') (demo_sample 1) new_store, [Counting])"
  using calls_step.turn [of 0 "[Appending (demo_id ''a'') (demo_sample 1)]" store_append] by simp

lemma demo_calls_run:
  "calls_run store_append store_count (store_drop_oldest ascending_keys) (store_drop_before ascending_keys)
    \<lparr>max_samples = 1\<rparr> new_store (store_append (demo_id ''a'') (demo_sample 1) new_store, [Counting])"
proof -
  have "calls_run store_append store_count (store_drop_oldest ascending_keys) (store_drop_before ascending_keys)
    \<lparr>max_samples = 1\<rparr> new_store (new_store, [] @ [Appending (demo_id ''a'') (demo_sample 1)])"
    by (intro calls_run.call calls_run.idle)
  then show ?thesis by (rule calls_run.step) (simp add: demo_calls_step)
qed

theorem concurrent_ingest_within_budget_witness:
  "store_count (store_append (demo_id ''a'') (demo_sample 1) new_store) \<le> 1 + 1"
  using concurrent_ingest_within_budget [OF ordered.streams_range_axioms _ demo_calls_run] by simp



text \<open>
  A call nobody interferes with does what \<open>Ingest\<close> does as one step, but two calls may both
  count before either drops: on a full store they then drop twice the excess, and two samples more
  than the budget asks for are gone.
\<close>

theorem concurrent_ingest_overtrims:
  assumes "streams_range rng" and "store_inv st" and "store_count st = max_samples b" and "2 \<le> max_samples b"
  shows "(\<exists>st'. ingester_ingest store_append store_count (store_drop_oldest rng) b i x st = Some st' \<and>
      (calls_step store_append store_count (store_drop_oldest rng) b)\<^sup>*\<^sup>* (st, [Appending i x]) (st', [Finished])) \<and>
    (\<exists>st'. (calls_step store_append store_count (store_drop_oldest rng) b)\<^sup>*\<^sup>*
        (st, [Appending i x, Appending j y]) (st', [Finished, Finished]) \<and>
      store_count st' = max_samples b - 2)"
  using streams_range.alone_on_store [OF assms(1,2), of b i x] streams_range.race_on_store [OF assms, of i x j y]
  by blast

theorem concurrent_ingest_overtrims_witness:
  "\<exists>st'. (calls_step store_append store_count (store_drop_oldest ascending_keys) \<lparr>max_samples = 3\<rparr>)\<^sup>*\<^sup>*
      (demo_store, [Appending (demo_id ''a'') (demo_sample 4), Appending (demo_id ''b'') (demo_sample 5)])
      (st', [Finished, Finished]) \<and> store_count st' = 1"
  using concurrent_ingest_overtrims [OF ordered.streams_range_axioms demo_store_inv, of "\<lparr>max_samples = 3\<rparr>"
      "demo_id ''a''" "demo_sample 4" "demo_id ''b''" "demo_sample 5"]
  by (simp add: demo_store_count)

end
