(* ===== verification/Alerter_Concurrent.thy ===== *)
theory Alerter_Concurrent
  imports Slack "HOL-Library.Multiset"
begin

text \<open>
  \<open>internal/usecase/alert.go\<close> under concurrency. \<open>Check\<close> runs on a ticker of its own
  and \<open>Observe\<close> in every request, and both hold the mutex only while they evaluate the
  monitors: the notifications they collected are sent after it is released, one after the other, so
  the deliveries of several calls interleave. A call is in one of the phases below; a step is one
  evaluation or one delivery of one call. A delivery is itself one step here.

  The lemmas show that the rules are still watched one by one, in the order of the evaluations, that
  every notification is delivered exactly once, and that every call returns; and that the
  notifications of a rule may arrive in the wrong order.
\<close>

section \<open>Calls in flight\<close>

datatype 'e alert_phase =
    Calling alert_op
  | Sending "notification list" "'e list"
  | Returned "'e list option"

fun alert_turn :: "('e, 's) notify \<Rightarrow> 'e alert_phase \<Rightarrow> alerter \<times> 's \<Rightarrow> ('e alert_phase \<times> alerter \<times> 's) option" where
  \<comment> \<open>None is a panic of the notifier, or a call that has returned\<close>
  "alert_turn notify (Calling (Check_Op now)) (a, st) =
     (case check_loop now (al_ordered a) (al_heap a) [] of
        (h, pending) \<Rightarrow> Some (Sending pending [], a\<lparr>al_heap := h\<rparr>, st))"
| "alert_turn notify (Calling (Observe_Op i s)) (a, st) =
     (let monitors = (case al_monitors a i of None \<Rightarrow> [] | Some ms \<Rightarrow> ms) in
      if length monitors = 0 then Some (Returned None, a, st)
      else (case parse_float (smp_value s) of
              None \<Rightarrow> Some (Returned None, a, st)
            | Some v \<Rightarrow>
                (case observe_loop s v monitors (al_heap a) [] of
                   (h, pending) \<Rightarrow> Some (Sending pending [], a\<lparr>al_heap := h\<rparr>, st))))"
| "alert_turn notify (Sending [] errs) (a, st) = Some (Returned (join_errors errs), a, st)"
| "alert_turn notify (Sending (nt # nts) errs) (a, st) =
     (case notify nt st of
        None \<Rightarrow> None
      | Some (err, st) \<Rightarrow> Some (Sending nts (case err of None \<Rightarrow> errs | Some e \<Rightarrow> errs @ [e]), a, st))"
| "alert_turn notify (Returned err) (a, st) = None"

inductive alerts_step ::
  "('e, 's) notify \<Rightarrow> (alerter \<times> 's) \<times> 'e alert_phase list \<Rightarrow> (alerter \<times> 's) \<times> 'e alert_phase list \<Rightarrow> bool"
  for notify where
  turn: "p < length ps \<Longrightarrow> alert_turn notify (ps ! p) ast = Some (ph, ast') \<Longrightarrow>
    alerts_step notify (ast, ps) (ast', ps[p := ph])"

fun evaluates :: "'e alert_phase \<Rightarrow> alert_op list" where
  "evaluates (Calling x) = [x]"
| "evaluates _ = []"

inductive alerts_run ::
  "('e, 's) notify \<Rightarrow> alerter \<times> 's \<Rightarrow> alert_op list \<Rightarrow> (alerter \<times> 's) \<times> 'e alert_phase list \<Rightarrow> bool"
  for notify ast0 where
  \<comment> \<open>the list holds the operations in the order in which they were evaluated\<close>
  idle: "alerts_run notify ast0 [] (ast0, [])"
| call: "alerts_run notify ast0 evs (ast, ps) \<Longrightarrow> alerts_run notify ast0 evs (ast, ps @ [Calling x])"
| turn: "alerts_run notify ast0 evs (ast, ps) \<Longrightarrow> p < length ps \<Longrightarrow>
    alert_turn notify (ps ! p) ast = Some (ph, ast') \<Longrightarrow>
    alerts_run notify ast0 (evs @ evaluates (ps ! p)) (ast', ps[p := ph])"

fun pending_of :: "'e alert_phase \<Rightarrow> notification list" where
  "pending_of (Sending nts errs) = nts"
| "pending_of _ = []"

section \<open>One turn\<close>

text \<open>An evaluation steps every monitor and leaves the notifications of all of them to be sent.\<close>

lemma turn_calling_step:
  "\<exists>ph a'. alert_turn notify (Calling x) (a, st) = Some (ph, a', st) \<and>
    (ph = Returned None \<or> (\<exists>nts. ph = Sending nts [])) \<and>
    alerter_step log_notification x (a, []) = Some (None, a', pending_of ph)"
proof (cases x)
  case (Check_Op t)
  then show ?thesis by (auto simp: alerter_check_def log_send split: prod.split)
next
  case (Observe_Op i s)
  then show ?thesis
    by (auto simp: alerter_observe_def log_send Let_def split: prod.split option.splits)
qed

lemma turn_calling:
  assumes "alerter_inv rules a"
  shows "\<exists>ph. alert_turn notify (Calling x) (a, st) =
      Some (ph, a\<lparr>al_heap := map (\<lambda>m. fst (spec_step x m)) (al_heap a)\<rparr>, st) \<and>
    (ph = Returned None \<or> (\<exists>nts. ph = Sending nts [])) \<and>
    pending_of ph = concat (map (\<lambda>m. snd (spec_step x m)) (al_heap a))"
  using turn_calling_step [of notify x a st]
  by (auto simp: alerter_step_eq [OF assms] log_send)

lemma turn_other:
  assumes "alert_turn notify ph (a, st) = Some (ph', a', st')" and "evaluates ph = []"
  shows "a' = a"
  using assms by (cases "(notify, ph, a, st)" rule: alert_turn.cases) (auto split: option.splits)

lemma spec_step_one: "length (snd (spec_step x m)) \<le> 1"
  by (cases x) (auto simp: check_notes_def observe_notes_def Let_def split: option.splits)

lemma pending_bound: "length (concat (map (\<lambda>m. snd (spec_step x m)) h)) \<le> length h"
  using spec_step_one [of x] by (induction h) (auto intro: add_le_mono [of _ "Suc 0", simplified])

text \<open>A call nobody interferes with does what it does as one step.\<close>

lemma sends_alone:
  assumes "send_loop notify nts errs st = Some (errs', st')"
  shows "(alerts_step notify)\<^sup>*\<^sup>* ((a, st), [Sending nts errs]) ((a, st'), [Returned (join_errors errs')])"
  using assms
proof (induction nts arbitrary: errs st)
  case Nil
  then show ?case using alerts_step.turn [of 0 "[Sending [] errs]" notify "(a, st)"] by auto
next
  case (Cons nt nts)
  obtain err st1 where n: "notify nt st = Some (err, st1)" using Cons.prems by (auto split: option.splits)
  let ?errs = "case err of None \<Rightarrow> errs | Some e \<Rightarrow> errs @ [e]"
  have "alerts_step notify ((a, st), [Sending (nt # nts) errs]) ((a, st1), [Sending nts ?errs])"
    using alerts_step.turn [of 0 "[Sending (nt # nts) errs]" notify "(a, st)"] n by auto
  then show ?case using Cons.IH [of ?errs st1] Cons.prems n by (simp add: converse_rtranclp_into_rtranclp)
qed

lemma call_alone:
  assumes "alerter_inv rules a" and "alerter_step notify x (a, st) = Some (err, a', st')"
  shows "(alerts_step notify)\<^sup>*\<^sup>* ((a, st), [Calling x]) ((a', st'), [Returned err])"
proof -
  let ?a = "a\<lparr>al_heap := map (\<lambda>m. fst (spec_step x m)) (al_heap a)\<rparr>"
  obtain ph where ph: "alert_turn notify (Calling x) (a, st) = Some (ph, ?a, st)"
    "ph = Returned None \<or> (\<exists>nts. ph = Sending nts [])"
    "pending_of ph = concat (map (\<lambda>m. snd (spec_step x m)) (al_heap a))"
    using turn_calling [OF assms(1), of notify x st] by blast
  have first: "alerts_step notify ((a, st), [Calling x]) ((?a, st), [ph])"
    using alerts_step.turn [of 0 "[Calling x]" notify "(a, st)"] ph(1) by simp
  have "(case alerter_send notify (pending_of ph) st of
       None \<Rightarrow> None | Some (err, st') \<Rightarrow> Some (err, ?a, st')) = Some (err, a', st')"
    using assms(2) by (simp only: alerter_step_eq [OF assms(1)] ph(3))
  then have "alerter_send notify (pending_of ph) st = Some (err, st') \<and> a' = ?a"
    by (cases "alerter_send notify (pending_of ph) st") (simp, clarsimp)
  then obtain errs where send: "send_loop notify (pending_of ph) [] st = Some (errs, st')"
    and err: "err = join_errors errs" and a': "a' = ?a"
    by (auto simp: alerter_send_def)
  have "(alerts_step notify)\<^sup>*\<^sup>* ((?a, st), [ph]) ((?a, st'), [Returned err])"
    using ph(2)
  proof
    assume "ph = Returned None"
    then show ?thesis using send by (simp add: err join_errors_def)
  next
    assume "\<exists>nts. ph = Sending nts []"
    then obtain nts where nts: "ph = Sending nts []" ..
    then have "send_loop notify nts [] st = Some (errs, st')" using send by simp
    from sends_alone [OF this, of ?a] show ?thesis unfolding nts err .
  qed
  then have "(alerts_step notify)\<^sup>*\<^sup>* ((?a, st), [ph]) ((a', st'), [Returned err])" unfolding a' .
  then show ?thesis using first by (rule converse_rtranclp_into_rtranclp [rotated])
qed

section \<open>Runs\<close>

lemma run_shape:
  assumes "alerts_run notify (start_alerter g rules, st0) evs c"
  shows "alerter_inv rules (fst (fst c)) \<and> al_heap (fst (fst c)) = map (\<lambda>r. rule_monitor g r evs) rules"
  using assms
proof (induction rule: alerts_run.induct)
  case idle
  then show ?case by (simp add: start_alerter_inv start_alerter_heap)
next
  case (call evs ast ps x)
  then show ?case by simp
next
  case (turn evs ast ps p ph ast')
  obtain a st where ast: "ast = (a, st)" by (cases ast)
  have inv: "alerter_inv rules a" and heap: "al_heap a = map (\<lambda>r. rule_monitor g r evs) rules"
    using turn.IH ast by auto
  show ?case
  proof (cases "ps ! p")
    case (Calling x)
    then have "fst ast' = a\<lparr>al_heap := map (\<lambda>m. fst (spec_step x m)) (al_heap a)\<rparr>"
      using turn.hyps(3) turn_calling [OF inv, of notify x st] by (auto simp: ast)
    moreover have "alerter_inv rules (a\<lparr>al_heap := map (\<lambda>m. fst (spec_step x m)) (al_heap a)\<rparr>)"
      using inv by (simp add: alerter_inv_def comp_def)
    ultimately show ?thesis using heap Calling by (simp add: rule_monitor_snoc)
  qed (use turn.hyps(3) ast inv heap turn_other [of notify "ps ! p" a st] in \<open>cases ast'; auto\<close>)+
qed

lemma calls_status:
  assumes "alerts_run notify (start_alerter g rules, st0) evs ((a, st), ps)"
  shows "alerter_status a = map (\<lambda>r. \<lparr>rs_rule = r, rs_firing = monitor_firing (rule_monitor g r evs)\<rparr>) rules"
  using run_shape [OF assms] alerter_status_eq [of rules a] by simp

text \<open>What has been delivered and what is still to be delivered are together what the monitors said.\<close>

definition monitor_events :: "duration \<Rightarrow> rule \<Rightarrow> alert_op list \<Rightarrow> event list" where
  "monitor_events g r ops =
     filter (\<lambda>e. e \<noteq> NoEvent) (fst (monitor_run (inputs_for r ops) ((new_monitor r)\<lparr>mon_grace := g\<rparr>)))"

lemma monitor_events_snoc:
  "monitor_events g r (ops @ [x]) = monitor_events g r ops @ events_of r (snd (spec_step x (rule_monitor g r ops)))"
  by (simp add: monitor_events_def inputs_for_append monitor_run_append rule_monitor_def [symmetric]
      events_of_own [of "rule_monitor g r ops"] Let_def case_prod_beta del: inputs_for.simps)

lemma exchange:
  fixes a :: "'a::cancel_comm_monoid_add"
  assumes "a' + e' = a + e" and "t' + e = t + e'"
  shows "a' + t' = a + t"
proof -
  have "(a' + t') + (e + e') = (a' + e') + (t' + e)" by (simp only: ac_simps)
  also have "\<dots> = (a + t) + (e + e')" unfolding assms by (simp only: ac_simps)
  finally show ?thesis by (simp only: add_right_cancel)
qed

lemma turn_events:
  assumes "alert_turn log_notification ph (a, sent) = Some (ph', a', sent')" and "evaluates ph = []"
  shows "mset (events_of r sent') + mset (events_of r (pending_of ph')) =
    mset (events_of r sent) + mset (events_of r (pending_of ph))"
  using assms
proof (cases ph)
  case (Sending nts errs)
  then show ?thesis using assms by (cases nts) (auto simp: log_notification_def events_of_def)
qed (use assms in auto)

lemma run_events:
  assumes "alerts_run log_notification (start_alerter g rules, []) evs c"
    and "distinct rules" and "r \<in> set rules"
  shows "mset (events_of r (snd (fst c))) + (\<Sum>ph\<leftarrow>snd c. mset (events_of r (pending_of ph))) =
    mset (monitor_events g r evs)"
  using assms(1)
proof (induction rule: alerts_run.induct)
  case idle
  then show ?case by (simp add: events_of_def monitor_events_def)
next
  case (call evs ast ps x)
  then show ?case by (simp add: events_of_def)
next
  case (turn evs ast ps p ph ast')
  let ?E = "\<lambda>ph. mset (events_of r (pending_of ph))"
  obtain a sent where ast: "ast = (a, sent)" by (cases ast)
  obtain a' sent' where ast': "ast' = (a', sent')" by (cases ast')
  have sum: "(\<Sum>ph\<leftarrow>ps[p := ph]. ?E ph) + ?E (ps ! p) = (\<Sum>ph\<leftarrow>ps. ?E ph) + ?E ph"
    by (rule sum_list_map_update) (rule turn.hyps(2))
  have shape: "alerter_inv rules a" "al_heap a = map (\<lambda>r. rule_monitor g r evs) rules"
    using run_shape [OF turn.hyps(1)] by (simp_all add: ast)
  show ?case
  proof (cases "ps ! p")
    case (Calling x)
    then have "sent' = sent" "pending_of ph = concat (map (\<lambda>r. snd (spec_step x (rule_monitor g r evs))) rules)"
      using turn.hyps(3) turn_calling [OF shape(1), of log_notification x sent]
      by (auto simp: ast ast' shape(2) comp_def)
    moreover from this have "events_of r (pending_of ph) = events_of r (snd (spec_step x (rule_monitor g r evs)))"
      using events_of_all [OF assms(2,3), where M = "\<lambda>r. rule_monitor g r evs"] by simp
    ultimately show ?thesis using turn.IH sum Calling
      by (simp add: ast ast' monitor_events_snoc events_of_def [of r "[]"] add.assoc [symmetric])
  next
    case (Sending nts errs)
    then have "mset (events_of r sent') + ?E ph = mset (events_of r sent) + ?E (ps ! p)"
      using turn_events [of "ps ! p" a sent ph a' sent' r] turn.hyps(3) by (simp add: ast ast')
    from exchange [OF this sum] turn.IH Sending show ?thesis by (simp add: ast ast')
  next
    case (Returned err)
    then show ?thesis using turn.hyps(3) by (simp add: ast)
  qed
qed

section \<open>Every call returns\<close>

fun alert_turns_left :: "nat \<Rightarrow> 'e alert_phase \<Rightarrow> nat" where
  "alert_turns_left n (Calling x) = n + 2"
| "alert_turns_left n (Sending nts errs) = length nts + 1"
| "alert_turns_left n (Returned err) = 0"

lemma alert_turn_inv:
  assumes "alerter_inv rules a" and "alert_turn notify ph (a, st) = Some (ph', a', st')"
  shows "alerter_inv rules a'"
proof (cases ph)
  case (Calling x)
  then have "a' = a\<lparr>al_heap := map (\<lambda>m. fst (spec_step x m)) (al_heap a)\<rparr>"
    using turn_calling [OF assms(1), of notify x st] assms(2) by auto
  then show ?thesis using assms(1) by (simp add: alerter_inv_def comp_def)
qed (use assms turn_other [OF assms(2)] in auto)

lemma turn_left_less:
  assumes "alerter_inv rules a" and "alert_turn notify ph (a, st) = Some (ph', a', st')"
  shows "alert_turns_left (length rules) ph' < alert_turns_left (length rules) ph"
proof (cases ph)
  case (Calling x)
  then obtain nts where "ph' = Returned None \<or> ph' = Sending nts []"
    "length (pending_of ph') \<le> length rules"
    using turn_calling [OF assms(1), of notify x st] assms(2) pending_bound [of x "al_heap a"]
      alerter_inv_length [OF assms(1)] by auto
  then show ?thesis using Calling by auto
next
  case (Sending nts errs)
  then show ?thesis using assms(2) by (cases nts) (auto split: option.splits)
qed (use assms(2) in simp)

lemma steps_left:
  assumes "(alerts_step notify ^^ n) ((a, st), ps) c" and "alerter_inv rules a"
  shows "alerter_inv rules (fst (fst c)) \<and> n + sum_list (map (alert_turns_left (length rules)) (snd c)) \<le>
    sum_list (map (alert_turns_left (length rules)) ps)"
  using assms(1)
proof (induction n arbitrary: c)
  case 0
  then show ?case using assms(2) by auto
next
  case (Suc n)
  then obtain d where d: "(alerts_step notify ^^ n) ((a, st), ps) d" "alerts_step notify d c" by auto
  note ih = Suc.IH [OF d(1)]
  show ?case using d(2)
  proof cases
    case (turn p qs ast ph ast')
    obtain b sb where ast: "ast = (b, sb)" by (cases ast)
    obtain b' sb' where ast': "ast' = (b', sb')" by (cases ast')
    have t: "alert_turn notify (qs ! p) (b, sb) = Some (ph, b', sb')" using turn(4) by (simp add: ast ast')
    have inv: "alerter_inv rules b" using ih turn(1) by (simp add: ast)
    show ?thesis
      using ih turn(1,2) alert_turn_inv [OF inv t] turn_left_less [OF inv t]
        sum_list_map_update [OF turn(3), of "alert_turns_left (length rules)" ph]
      by (simp add: ast ast')
  qed
qed

context notifier
begin

lemma turn_returns:
  assumes "alerter_inv rules a" and "inv st"
  shows "(\<exists>err. ph = Returned err) \<or> (\<exists>ph' a' st'. alert_turn notify ph (a, st) = Some (ph', a', st') \<and> inv st')"
proof (cases ph)
  case (Calling x)
  then show ?thesis using turn_calling [OF assms(1), of notify x st] assms(2) by blast
next
  case (Sending nts errs)
  show ?thesis
  proof (cases nts)
    case Nil
    then show ?thesis using Sending assms(2) by simp
  next
    case (Cons nt nts')
    obtain err st' where "notify nt st = Some (err, st')" "inv st'" using notify_returns [OF assms(2)] by blast
    then show ?thesis using Sending Cons by simp
  qed
qed simp

lemma turn_keeps_inv:
  assumes "alerter_inv rules a" and "inv st" and "alert_turn notify ph (a, st) = Some (ph', a', st')"
  shows "inv st'"
  using turn_returns [OF assms(1,2), of ph] assms(3) by auto

lemma steps_keep_inv:
  assumes "(alerts_step notify ^^ n) ((a, st), ps) c" and "alerter_inv rules a" and "inv st"
  shows "inv (snd (fst c))"
  using assms(1)
proof (induction n arbitrary: c)
  case 0
  then show ?case using assms(3) by auto
next
  case (Suc n)
  then obtain d where d: "(alerts_step notify ^^ n) ((a, st), ps) d" "alerts_step notify d c" by auto
  have shape: "alerter_inv rules (fst (fst d))" using steps_left [OF d(1) assms(2)] by simp
  show ?case using d(2)
  proof cases
    case (turn p qs ast ph ast')
    then show ?thesis
      using Suc.IH [OF d(1)] shape turn_keeps_inv [of rules "fst ast" "snd ast" "qs ! p" ph "fst ast'" "snd ast'"] by simp
  qed
qed

lemma some_step:
  assumes "alerter_inv rules a" and "inv st" and "\<not> list_all (\<lambda>ph. \<exists>err. ph = Returned err) ps"
  shows "\<exists>c. alerts_step notify ((a, st), ps) c"
proof -
  obtain p where p: "p < length ps" "\<nexists>err. ps ! p = Returned err" using assms(3) by (auto simp: list_all_length)
  then obtain ph ast' where "alert_turn notify (ps ! p) (a, st) = Some (ph, ast')"
    using turn_returns [OF assms(1,2), of "ps ! p"] by auto
  from alerts_step.turn [OF p(1) this] show ?thesis by blast
qed

end

theorem concurrent_alerts_return:
  fixes notify :: "('e, 's) notify"
  assumes "notifier notify I" and "I st"
    and "(alerts_step notify ^^ n) ((start_alerter g rules, st), map Calling xs) (ast, ps)"
  shows "n \<le> (length rules + 2) * length xs \<and>
    (list_all (\<lambda>ph. \<exists>err. ph = Returned err) ps \<or> (\<exists>c. alerts_step notify (ast, ps) c))"
proof -
  note inv0 = start_alerter_inv [of rules g]
  have "sum_list (map (alert_turns_left (length rules)) (map Calling xs :: 'e alert_phase list)) = (length rules + 2) * length xs"
    by (induction xs) auto
  moreover have "alerter_inv rules (fst ast)" "n + sum_list (map (alert_turns_left (length rules)) ps) \<le>
      sum_list (map (alert_turns_left (length rules)) (map Calling xs :: 'e alert_phase list))"
    using steps_left [OF assms(3) inv0] by auto
  moreover have "I (snd ast)" using notifier.steps_keep_inv [OF assms(1,3) inv0 assms(2)] by simp
  ultimately show ?thesis
    using notifier.some_step [OF assms(1), of rules "fst ast" "snd ast" ps] by auto
qed

section \<open>The order of delivery\<close>

text \<open>
  Nothing orders the deliveries of two calls: when one call fires a rule and another resolves it
  before the first has sent, the resolution may be delivered first.
\<close>

lemma run_call:
  assumes "alerts_run notify (start_alerter g [r], st0) evs ((a, st), ps)"
    and "snd (spec_step x (rule_monitor g r evs)) = nts" and "nts \<noteq> []"
    and "p < length ps" and "ps ! p = Calling x"
  shows "\<exists>a'. alerts_run notify (start_alerter g [r], st0) (evs @ [x]) ((a', st), ps[p := Sending nts []])"
proof -
  have inv: "alerter_inv [r] a" and heap: "al_heap a = [rule_monitor g r evs]"
    using run_shape [OF assms(1)] by simp_all
  obtain ph a' where "alert_turn notify (Calling x) (a, st) = Some (ph, a', st)"
    "ph = Returned None \<or> (\<exists>ns. ph = Sending ns [])" "pending_of ph = nts"
    using turn_calling [OF inv, of notify x st] assms(2) by (auto simp: heap)
  then have "alert_turn notify (ps ! p) (a, st) = Some (Sending nts [], a', st)"
    using assms(3,5) by auto
  from alerts_run.turn [OF assms(1,4) this] show ?thesis by (auto simp: assms(5))
qed

lemma run_deliver:
  assumes "alerts_run notify ast0 evs ((a, st), ps)" and "p < length ps" and "ps ! p = Sending [nt] []"
    and "notify nt st = Some (None, st')"
  shows "alerts_run notify ast0 evs ((a, st'), ps[p := Returned None])"
proof -
  have "alerts_run notify ast0 evs ((a, st'), ps[p := Sending [] []])"
    using alerts_run.turn [OF assms(1,2), of "Sending [] []" "(a, st')"] assms(3,4) by simp
  from alerts_run.turn [OF this, of p "Returned None" "(a, st')"] show ?thesis
    using assms(2) by (simp add: join_errors_def)
qed

theorem resolution_overtakes_alert:
  assumes "alerts_run notify (start_alerter g [r], st0) evs ((a0, st), ps)"
    and "snd (spec_step x (rule_monitor g r evs)) = [f]"
    and "snd (spec_step y (rule_monitor g r (evs @ [x]))) = [q]"
    and "notify q st = Some (None, st1)" and "notify f st1 = Some (None, st2)"
  shows "\<exists>a. alerts_run notify (start_alerter g [r], st0) (evs @ [x, y])
    ((a, st2), ps @ [Returned None, Returned None])"
proof -
  let ?run = "alerts_run notify (start_alerter g [r], st0)"
  have "?run evs ((a0, st), (ps @ [Calling x]) @ [Calling y])"
    by (intro alerts_run.call assms(1))
  then have "?run evs ((a0, st), ps @ [Calling x, Calling y])" by simp
  from run_call [OF this assms(2), of "length ps"] obtain a1 where
    "?run (evs @ [x]) ((a1, st), ps @ [Sending [f] [], Calling y])" by (auto simp: list_update_append)
  from run_call [OF this assms(3), of "Suc (length ps)"] obtain a2 where
    "?run ((evs @ [x]) @ [y]) ((a2, st), ps @ [Sending [f] [], Sending [q] []])"
    by (auto simp: list_update_append nth_append)
  from run_deliver [OF this, of "Suc (length ps)" q st1] assms(4) have
    "?run ((evs @ [x]) @ [y]) ((a2, st1), ps @ [Sending [f] [], Returned None])"
    by (simp add: list_update_append nth_append)
  from run_deliver [OF this, of "length ps" f st2] assms(5) have
    "?run ((evs @ [x]) @ [y]) ((a2, st2), ps @ [Returned None, Returned None])"
    by (simp add: list_update_append nth_append)
  then show ?thesis by auto
qed

text \<open>
  An absent rule, armed at its first check: the next check fires it, and before that alert is sent
  a sample resolves it.
\<close>

definition late_rule :: rule where
  "late_rule = demo_rule OpAbsent"

definition late_sample :: sample where
  "late_sample = \<lparr>smp_time = 1000000000001, smp_value = ''7'', smp_unit = []\<rparr>"

definition late_fired :: notification where
  "late_fired = \<lparr>ntf_rule = late_rule, ntf_event = Fired, ntf_time = 1000000000000, ntf_value = [], ntf_unit = []\<rparr>"

definition late_resolved :: notification where
  "late_resolved = \<lparr>ntf_rule = late_rule, ntf_event = Resolved, ntf_time = 1000000000001, ntf_value = ''7'', ntf_unit = []\<rparr>"

definition late_ops :: "alert_op list" where
  "late_ops = [Check_Op 1, Check_Op 1000000000000, Observe_Op demo_stream late_sample]"

lemma late_rule_fields:
  "rl_op late_rule = OpAbsent" "rl_stream late_rule = demo_stream" "sint (rl_for late_rule) = 180 * 10 ^ 9"
  by (simp_all add: late_rule_def demo_rule_def seconds_def)

lemma late_value: "parse_float (smp_value late_sample) \<noteq> None"
  by code_simp

lemma late_monitors:
  "rule_monitor 0 late_rule [] = new_monitor late_rule"
  "rule_monitor 0 late_rule [Check_Op 1] = new_monitor late_rule\<lparr>mon_last_seen := 1\<rparr>"
  "rule_monitor 0 late_rule [Check_Op 1, Check_Op 1000000000000] =
    new_monitor late_rule\<lparr>mon_last_seen := 1, mon_fired := True\<rparr>"
  by (simp_all add: rule_monitor_def new_monitor_def monitor_check_def late_rule_fields time_is_zero_def
      time_add_def dur_less_def sint_time_sub saturate_def min_duration_def max_duration_def)

lemma late_notes:
  "snd (spec_step (Check_Op 1) (rule_monitor 0 late_rule [])) = []"
  "snd (spec_step (Check_Op 1000000000000) (rule_monitor 0 late_rule [Check_Op 1])) = [late_fired]"
  "snd (spec_step (Observe_Op demo_stream late_sample)
    (rule_monitor 0 late_rule ([Check_Op 1] @ [Check_Op 1000000000000]))) = [late_resolved]"
  "\<not> monitor_firing (rule_monitor 0 late_rule late_ops)"
proof -
  note late = late_monitors late_rule_fields check_notes_def observe_notes_def monitor_check_def monitor_observe_def
    new_monitor_def time_is_zero_def time_add_def dur_less_def sint_time_sub saturate_def min_duration_def
    max_duration_def Let_def
  show "snd (spec_step (Check_Op 1) (rule_monitor 0 late_rule [])) = []" by (simp add: late)
  show "snd (spec_step (Check_Op 1000000000000) (rule_monitor 0 late_rule [Check_Op 1])) = [late_fired]"
    by (simp add: late late_fired_def)
  show "snd (spec_step (Observe_Op demo_stream late_sample)
      (rule_monitor 0 late_rule ([Check_Op 1] @ [Check_Op 1000000000000]))) = [late_resolved]"
    using late_value by (auto simp: late late_resolved_def late_sample_def)
  have "rule_monitor 0 late_rule late_ops = fst (spec_step (Observe_Op demo_stream late_sample)
      (rule_monitor 0 late_rule [Check_Op 1, Check_Op 1000000000000]))"
    using rule_monitor_snoc [of 0 late_rule "[Check_Op 1, Check_Op 1000000000000]"] by (simp add: late_ops_def)
  then show "\<not> monitor_firing (rule_monitor 0 late_rule late_ops)"
    using late_value by (auto simp: late monitor_firing_def)
qed

lemma late_armed:
  "\<exists>a. alerts_run notify (start_alerter 0 [late_rule], st) [Check_Op 1] ((a, st), [Returned None])"
proof -
  let ?ast = "(start_alerter 0 [late_rule], st)"
  have inv: "alerter_inv [late_rule] (start_alerter 0 [late_rule])" by (rule start_alerter_inv)
  obtain ph a where ph: "alert_turn notify (Calling (Check_Op 1)) ?ast = Some (ph, a, st)"
    "ph = Returned None \<or> (\<exists>nts. ph = Sending nts [])" "pending_of ph = []"
    using turn_calling [OF inv, of notify "Check_Op 1" st] late_notes(1)
    by (auto simp: start_alerter_heap simp del: alert_turn.simps)
  have "alerts_run notify ?ast [] (?ast, [] @ [Calling (Check_Op 1)])"
    by (intro alerts_run.call alerts_run.idle)
  from alerts_run.turn [OF this, of 0 ph "(a, st)"] ph(1)
  have one: "alerts_run notify ?ast [Check_Op 1] ((a, st), [ph])" by (simp del: alert_turn.simps)
  show ?thesis using ph(2)
  proof
    assume "ph = Returned None"
    then show ?thesis using one by blast
  next
    assume "\<exists>nts. ph = Sending nts []"
    then have "ph = Sending [] []" using ph(3) by auto
    then show ?thesis using alerts_run.turn [OF one, of 0 "Returned None" "(a, st)"]
      by (auto simp: join_errors_def)
  qed
qed

lemma late_run:
  assumes "notify late_resolved st = Some (None, st1)" and "notify late_fired st1 = Some (None, st2)"
  shows "\<exists>a. alerts_run notify (start_alerter 0 [late_rule], st) late_ops
    ((a, st2), [Returned None, Returned None, Returned None])"
proof -
  obtain a where "alerts_run notify (start_alerter 0 [late_rule], st) [Check_Op 1] ((a, st), [Returned None])"
    using late_armed [of notify st] by (elim exE)
  from resolution_overtakes_alert [OF this late_notes(2,3) assms] show ?thesis
    unfolding late_ops_def append.simps .
qed

lemma slack_unmatched:
  assumes "ntf_event n = Resolved" and "sl_dests s (rl_channel (ntf_rule n)) = Some dest"
    and "sl_open s (rule_key (ntf_rule n)) = None"
    and "slack_post env dest (alert_text (se_time env) n) w = (Inr ts, w1)"
  shows "slack_notify env n (s, w) = (None, s, w1)"
  using assms by (cases s) (simp add: slack_notify_def Let_def post_only_def fun_upd_idem)

theorem slack_alert_stays_open:
  "\<exists>a sw. alerts_run (slack_channel demo_env) (start_alerter 0 [late_rule], (demo_slack, [])) late_ops
      ((a, sw), [Returned None, Returned None, Returned None]) \<and>
    map rs_firing (alerter_status a) = [False] \<and> sl_open (fst sw) (rule_key late_rule) \<noteq> None"
proof -
  have dest: "sl_dests demo_slack (rl_channel late_rule) = Some demo_dest"
    by (simp add: late_rule_def demo_slack_dests)
  obtain w1 where q: "slack_notify demo_env late_resolved (demo_slack, []) = (None, demo_slack, w1)"
    using slack_unmatched [OF _ _ _ demo_post, of late_resolved demo_slack] dest
    by (simp add: late_resolved_def demo_slack_def new_slack_def)
  obtain ts w2 where "slack_post demo_env demo_dest (alert_text (se_time demo_env) late_fired) w1 = (Inr ts, w2)"
    by (simp add: demo_post)
  note f = slack_fired [OF _ _ this, where s = demo_slack]
  obtain a where run: "alerts_run (slack_channel demo_env) (start_alerter 0 [late_rule], (demo_slack, [])) late_ops
      ((a, demo_slack\<lparr>sl_open := (sl_open demo_slack)(rule_key late_rule \<mapsto> \<lparr>psd_fired = late_fired, psd_ts = ts\<rparr>)\<rparr>, w2),
       [Returned None, Returned None, Returned None])"
    using late_run [of "slack_channel demo_env" "(demo_slack, [])" "(demo_slack, w1)"] q f dest
    by (simp add: slack_channel_def late_fired_def) blast
  have firing: "map rs_firing (alerter_status a) = [False]" using calls_status [OF run] late_notes(4) by simp
  show ?thesis by (intro exI conjI, rule run, rule firing, simp)
qed

section \<open>Properties\<close>



end
