(* ===== verification/Client_Rpc.thy ===== *)
theory Client_Rpc
  imports Go_Time Go_Strings
begin

text \<open>
  \<open>client/grpc.go\<close>: what the interceptors count. Instruments are the counts they have added up
  to; a call is \<open>begin\<close>, the handler, and the func \<open>begin\<close> returned. Calls overlap, so a
  server is a state machine over the calls it has accepted (\<open>rpc_run\<close>). Which code a status error
  carries is a parameter, \<open>status.Code\<close>. Panics of a handler are modelled: the interceptors do not
  defer, so such a call is never ended.
\<close>

section \<open>Outcomes\<close>

datatype code = OK | Canceled | Unknown | InvalidArgument | DeadlineExceeded | NotFound | AlreadyExists
  | PermissionDenied | ResourceExhausted | FailedPrecondition | Aborted | OutOfRange | Unimplemented
  | Internal | Unavailable | DataLoss | Unauthenticated

definition caller_codes :: "code list" where
  "caller_codes = [InvalidArgument, NotFound, AlreadyExists, PermissionDenied, Unauthenticated,
     FailedPrecondition, OutOfRange, Canceled]"

datatype outcome = OutcomeOK | OutcomeCallerError | OutcomeServerError

definition rpc_classify :: "('e \<Rightarrow> code) \<Rightarrow> 'e option \<Rightarrow> outcome" where
  "rpc_classify code_of err =
     (case err of
        None \<Rightarrow> OutcomeOK
      | Some e \<Rightarrow>
          let c = code_of e in
          if c = OK then OutcomeOK
          else if c \<in> set caller_codes then OutcomeCallerError
          else OutcomeServerError)"

section \<open>Instruments\<close>

record rpc_instruments =
  ri_client_errors :: bool  \<comment> \<open>not nil\<close>
  ri_active :: bool

record rpc_counts =
  rc_requests :: int
  rc_errors :: int
  rc_client_errors :: int
  rc_durations :: "duration list"
  rc_active :: int

definition no_counts :: rpc_counts where
  "no_counts = \<lparr>rc_requests = 0, rc_errors = 0, rc_client_errors = 0, rc_durations = [], rc_active = 0\<rparr>"

definition server_instruments :: rpc_instruments where
  "server_instruments = \<lparr>ri_client_errors = True, ri_active = True\<rparr>"

definition client_instruments :: rpc_instruments where
  "client_instruments = \<lparr>ri_client_errors = False, ri_active = False\<rparr>"

definition rpc_begin :: "rpc_instruments \<Rightarrow> rpc_counts \<Rightarrow> rpc_counts" where
  "rpc_begin ins c = (if ri_active ins then c\<lparr>rc_active := rc_active c + 1\<rparr> else c)"

definition rpc_done :: "('e \<Rightarrow> code) \<Rightarrow> rpc_instruments \<Rightarrow> duration \<Rightarrow> 'e option \<Rightarrow> rpc_counts \<Rightarrow> rpc_counts" where
  \<comment> \<open>the func \<open>begin\<close> returns, after \<open>d\<close>\<close>
  "rpc_done code_of ins d err c =
     (let c = (if ri_active ins then c\<lparr>rc_active := rc_active c - 1\<rparr> else c);
          c = c\<lparr>rc_requests := rc_requests c + 1, rc_durations := rc_durations c @ [d]\<rparr>
      in (case rpc_classify code_of err of
            OutcomeServerError \<Rightarrow> c\<lparr>rc_errors := rc_errors c + 1\<rparr>
          | OutcomeCallerError \<Rightarrow>
              (if ri_client_errors ins then c\<lparr>rc_client_errors := rc_client_errors c + 1\<rparr> else c)
          | OutcomeOK \<Rightarrow> c))"

definition skipped_method :: "string list \<Rightarrow> string \<Rightarrow> bool" where
  "skipped_method skip method = list_ex (\<lambda>p. has_prefix method p) skip"

section \<open>A server\<close>

text \<open>The calls a server has accepted: not instrumented, in flight, ended, or lost in a panic.\<close>

datatype 'e rpc_call = Skipped | InFlight | Ended "'e option" | Lost

definition rpc_accept :: "string list \<Rightarrow> string \<Rightarrow> rpc_counts \<times> 'e rpc_call list \<Rightarrow> rpc_counts \<times> 'e rpc_call list" where
  \<comment> \<open>an interceptor up to the call of the handler\<close>
  "rpc_accept skip method st =
     (case st of (c, calls) \<Rightarrow>
        if skipped_method skip method then (c, calls @ [Skipped])
        else (rpc_begin server_instruments c, calls @ [InFlight]))"

definition rpc_return :: "('e \<Rightarrow> code) \<Rightarrow> nat \<Rightarrow> duration \<Rightarrow> 'e option \<Rightarrow> rpc_counts \<times> 'e rpc_call list \<Rightarrow> rpc_counts \<times> 'e rpc_call list" where
  \<comment> \<open>the handler of call \<open>p\<close> returns\<close>
  "rpc_return code_of p d err st =
     (case st of (c, calls) \<Rightarrow> (rpc_done code_of server_instruments d err c, calls[p := Ended err]))"

inductive rpc_run :: "('e \<Rightarrow> code) \<Rightarrow> string list \<Rightarrow> rpc_counts \<times> 'e rpc_call list \<Rightarrow> bool" for code_of skip where
  none: "rpc_run code_of skip (no_counts, [])"
| accept: "rpc_run code_of skip st \<Longrightarrow> rpc_run code_of skip (rpc_accept skip method st)"
| return: "rpc_run code_of skip st \<Longrightarrow> p < length (snd st) \<Longrightarrow> snd st ! p = InFlight \<Longrightarrow>
    rpc_run code_of skip (rpc_return code_of p d err st)"
| panic: "rpc_run code_of skip (c, calls) \<Longrightarrow> p < length calls \<Longrightarrow> calls ! p = InFlight \<Longrightarrow>
    rpc_run code_of skip (c, calls[p := Lost])"

text \<open>One call from accept to return, as the interceptors wrap it.\<close>

definition apply_server_options :: "string list list \<Rightarrow> string list" where
  "apply_server_options opts = fold (\<lambda>prefixes skip. skip @ prefixes) opts []"

definition unary_server_call :: "('e \<Rightarrow> code) \<Rightarrow> string list list \<Rightarrow> string \<Rightarrow> duration \<Rightarrow> 'e option \<Rightarrow> rpc_counts \<Rightarrow> rpc_counts" where
  "unary_server_call code_of opts method d err c =
     (if skipped_method (apply_server_options opts) method then c
      else rpc_done code_of server_instruments d err (rpc_begin server_instruments c))"

definition stream_server_call :: "('e \<Rightarrow> code) \<Rightarrow> string list list \<Rightarrow> string \<Rightarrow> duration \<Rightarrow> 'e option \<Rightarrow> rpc_counts \<Rightarrow> rpc_counts" where
  \<comment> \<open>the whole stream, ended by the handler's return\<close>
  "stream_server_call code_of opts method d err c =
     (if skipped_method (apply_server_options opts) method then c
      else rpc_done code_of server_instruments d err (rpc_begin server_instruments c))"

definition unary_client_call :: "('e \<Rightarrow> code) \<Rightarrow> duration \<Rightarrow> 'e option \<Rightarrow> rpc_counts \<Rightarrow> rpc_counts" where
  "unary_client_call code_of d err c = rpc_done code_of client_instruments d err (rpc_begin client_instruments c)"

lemma unary_server_call_steps:
  "fst (let st = rpc_accept (apply_server_options opts) method (c, calls) in
      if last (snd st) = Skipped then st else rpc_return code_of (length calls) d err st) =
    unary_server_call code_of opts method d err c"
  by (simp add: rpc_accept_def rpc_return_def unary_server_call_def Let_def)

section \<open>An outgoing stream\<close>

datatype 'e stream_error = EOF | StreamFailed 'e

definition stream_open :: "('e \<Rightarrow> code) \<Rightarrow> duration \<Rightarrow> 'e option \<Rightarrow> rpc_counts \<Rightarrow> rpc_counts \<times> bool option" where
  \<comment> \<open>\<open>StreamClientInterceptor\<close>: None if there is no stream, else whether it has ended\<close>
  "stream_open code_of d err c =
     (let c = rpc_begin client_instruments c in
      case err of
        Some e \<Rightarrow> (rpc_done code_of client_instruments d (Some e) c, None)
      | None \<Rightarrow> (c, Some False))"

definition stream_recv :: "('e \<Rightarrow> code) \<Rightarrow> duration \<Rightarrow> 'e stream_error option \<Rightarrow> rpc_counts \<times> bool \<Rightarrow> rpc_counts \<times> bool" where
  \<comment> \<open>\<open>RecvMsg\<close>; the flag is the \<open>sync.Once\<close>\<close>
  "stream_recv code_of d err s =
     (case s of (c, ended) \<Rightarrow>
        (case err of
           None \<Rightarrow> (c, ended)
         | Some e \<Rightarrow>
             if ended then (c, ended)
             else (rpc_done code_of client_instruments d
                     (case e of EOF \<Rightarrow> None | StreamFailed e \<Rightarrow> Some e) c, True)))"

fun stream_recvs :: "('e \<Rightarrow> code) \<Rightarrow> (duration \<times> 'e stream_error option) list \<Rightarrow> rpc_counts \<times> bool \<Rightarrow> rpc_counts \<times> bool" where
  "stream_recvs code_of [] s = s"
| "stream_recvs code_of ((d, err) # rs) s = stream_recvs code_of rs (stream_recv code_of d err s)"

section \<open>Lemmas\<close>

fun tally :: "('a \<Rightarrow> bool) \<Rightarrow> 'a list \<Rightarrow> int" where
  "tally P [] = 0"
| "tally P (x # xs) = (if P x then 1 else 0) + tally P xs"

lemma tally_append [simp]: "tally P (xs @ ys) = tally P xs + tally P ys"
  by (induction xs) auto

lemma tally_update:
  "p < length xs \<Longrightarrow> tally P (xs[p := x]) = tally P xs - (if P (xs ! p) then 1 else 0) + (if P x then 1 else 0)"
  by (induction xs arbitrary: p) (auto split: nat.split)

lemma tally_nonneg: "0 \<le> tally P xs"
  by (induction xs) auto

definition ended_with :: "('e \<Rightarrow> code) \<Rightarrow> outcome \<Rightarrow> 'e rpc_call \<Rightarrow> bool" where
  "ended_with code_of oc call = (case call of Ended err \<Rightarrow> rpc_classify code_of err = oc | _ \<Rightarrow> False)"

definition is_ended :: "'e rpc_call \<Rightarrow> bool" where
  "is_ended call = (case call of Ended err \<Rightarrow> True | _ \<Rightarrow> False)"

definition is_open :: "'e rpc_call \<Rightarrow> bool" where
  "is_open call = (case call of InFlight \<Rightarrow> True | Lost \<Rightarrow> True | _ \<Rightarrow> False)"

lemmas call_defs = ended_with_def is_ended_def is_open_def

definition accounted :: "('e \<Rightarrow> code) \<Rightarrow> rpc_counts \<Rightarrow> 'e rpc_call list \<Rightarrow> bool" where
  "accounted code_of c calls \<longleftrightarrow> rc_requests c = tally is_ended calls \<and>
     rc_errors c = tally (ended_with code_of OutcomeServerError) calls \<and>
     rc_client_errors c = tally (ended_with code_of OutcomeCallerError) calls \<and>
     rc_active c = tally is_open calls \<and> int (length (rc_durations c)) = rc_requests c"

lemma rpc_run_accounted: "rpc_run code_of skip st \<Longrightarrow> accounted code_of (fst st) (snd st)"
proof (induction rule: rpc_run.induct)
  case none
  then show ?case by (simp add: accounted_def no_counts_def)
next
  case (accept st m)
  then show ?case
    by (cases st) (simp add: accounted_def rpc_accept_def rpc_begin_def server_instruments_def call_defs)
next
  case (return st p d err)
  then show ?case
    by (cases st; cases "rpc_classify code_of err")
      (simp_all add: accounted_def rpc_return_def rpc_done_def server_instruments_def call_defs tally_update Let_def)
next
  case (panic c calls p)
  then show ?case by (simp add: accounted_def call_defs tally_update)
qed

lemma tally_split:
  "tally is_ended calls = tally (ended_with code_of OutcomeOK) calls +
    tally (ended_with code_of OutcomeCallerError) calls + tally (ended_with code_of OutcomeServerError) calls"
proof (induction calls)
  case (Cons call calls)
  show ?case
  proof (cases call)
    case (Ended err)
    with Cons show ?thesis by (cases "rpc_classify code_of err") (simp_all add: call_defs)
  qed (use Cons in \<open>simp_all add: call_defs\<close>)
qed simp

section \<open>Properties\<close>

text \<open>
  C33: At every moment, whatever RPCs overlap, the instruments of a server add up: requests are the
  RPCs that returned, errors and client errors those of them that failed by the server's or the
  caller's fault, every request has one duration, and \<open>rpc.server.active\<close> is the number of RPCs
  in flight, plus the ones whose handler panicked, which are never taken off.
\<close>

theorem rpc_counts_add_up:
  assumes "rpc_run code_of skip (c, calls)"
  shows "rc_requests c = tally (\<lambda>call. case call of Ended err \<Rightarrow> True | _ \<Rightarrow> False) calls \<and>
    rc_errors c = tally (\<lambda>call. case call of Ended err \<Rightarrow> rpc_classify code_of err = OutcomeServerError | _ \<Rightarrow> False) calls \<and>
    rc_client_errors c = tally (\<lambda>call. case call of Ended err \<Rightarrow> rpc_classify code_of err = OutcomeCallerError | _ \<Rightarrow> False) calls \<and>
    rc_active c = tally (\<lambda>call. call = InFlight) calls + tally (\<lambda>call. call = Lost) calls \<and>
    int (length (rc_durations c)) = rc_requests c \<and> rc_errors c + rc_client_errors c \<le> rc_requests c"
proof -
  have acc: "accounted code_of c calls" using rpc_run_accounted [OF assms] by simp
  have "tally is_open calls = tally (\<lambda>call. call = InFlight) calls + tally (\<lambda>call. call = Lost) calls"
  proof (induction calls)
    case (Cons call calls)
    then show ?case by (cases call) (simp_all add: is_open_def)
  qed simp
  moreover have "rc_errors c + rc_client_errors c \<le> rc_requests c"
    using acc tally_split [of calls code_of] tally_nonneg [of "ended_with code_of OutcomeOK" calls]
    by (simp add: accounted_def)
  ultimately show ?thesis
    using acc unfolding accounted_def is_ended_def ended_with_def by simp
qed

lemma demo_rpc_run:
  "rpc_run id [''/grpc.health''] (\<lparr>rc_requests = 1, rc_errors = 0, rc_client_errors = 1, rc_durations = [5],
    rc_active = 1\<rparr>, [Ended (Some NotFound), InFlight])"
proof -
  let ?r = "rpc_run id [''/grpc.health'']"
  have "?r (rpc_accept [''/grpc.health''] ''/sor/Cat'' (rpc_accept [''/grpc.health''] ''/sor/Ls'' (no_counts, [])))"
    by (intro rpc_run.accept rpc_run.none)
  then have "?r (rpc_return id 0 5 (Some NotFound)
      (rpc_accept [''/grpc.health''] ''/sor/Cat'' (rpc_accept [''/grpc.health''] ''/sor/Ls'' (no_counts, []))))"
    by (rule rpc_run.return) (simp_all add: rpc_accept_def skipped_method_def has_prefix_def no_counts_def)
  then show ?thesis
    by (simp add: rpc_return_def rpc_accept_def skipped_method_def has_prefix_def no_counts_def rpc_begin_def
        rpc_done_def rpc_classify_def caller_codes_def server_instruments_def Let_def)
qed

theorem rpc_counts_add_up_witness:
  "(1 :: int) = tally (\<lambda>call. case call of Ended err \<Rightarrow> True | _ \<Rightarrow> False) [Ended (Some NotFound), InFlight]"
  using rpc_counts_add_up [OF demo_rpc_run] by simp

text \<open>
  An outgoing stream counts as one request exactly once: at the first error \<open>RecvMsg\<close>
  returns, as a success if that is \<open>io.EOF\<close> and by its status otherwise; messages before it
  and anything after it change nothing.
\<close>

lemma stream_recvs_ended: "stream_recvs code_of rs (c, True) = (c, True)"
  by (induction rs) (auto simp: stream_recv_def split: option.splits)

theorem stream_counts_once:
  "stream_recvs code_of rs (c, False) =
    (case dropWhile (\<lambda>r. snd r = None) rs of
       [] \<Rightarrow> (c, False)
     | (d, err) # later \<Rightarrow>
         (c\<lparr>rc_requests := rc_requests c + 1, rc_durations := rc_durations c @ [d],
            rc_errors := rc_errors c + (case err of
                Some (StreamFailed e) \<Rightarrow> if rpc_classify code_of (Some e) = OutcomeServerError then 1 else 0
              | _ \<Rightarrow> 0)\<rparr>, True))"
proof (induction rs)
  case Nil
  then show ?case by simp
next
  case (Cons r rs)
  obtain d err where r: "r = (d, err)" by (cases r)
  show ?case
  proof (cases err)
    case None
    then show ?thesis using Cons by (simp add: r stream_recv_def)
  next
    case (Some e)
    then show ?thesis
      by (cases e; cases "rpc_classify code_of (case e of EOF \<Rightarrow> None | StreamFailed x \<Rightarrow> Some x)")
        (simp_all add: r stream_recv_def stream_recvs_ended rpc_done_def client_instruments_def Let_def,
          simp_all add: rpc_classify_def)
  qed
qed

end
