(* ===== verification/Client_Http.thy ===== *)
theory Client_Http
  imports Go_Time Go_Http
begin

text \<open>
  \<open>client/http.go\<close>: the instrumenting middleware. A handler is the sequence of what it does to
  the request body and the response; the wrapped \<open>ResponseWriter\<close> and body note what passes
  through them. \<open>sent_status\<close> is what \<open>net/http\<close> sends for the same sequence, as its
  documentation has it. Byte counts are unbounded integers here, an int64 in the code.
\<close>

section \<open>What a handler does\<close>

datatype handler_op =
    WriteHeader nat
  | Write nat       \<comment> \<open>with the number of bytes the real writer took\<close>
  | Flush
  | ReadBody nat    \<comment> \<open>with the number of bytes read\<close>

record response_writer =
  rw_status :: nat
  rw_bytes :: int
  rw_wrote :: bool

definition rw_write_header :: "nat \<Rightarrow> response_writer \<Rightarrow> response_writer" where
  "rw_write_header c w = (if \<not> rw_wrote w then w\<lparr>rw_status := c, rw_wrote := True\<rparr> else w)"

definition rw_write :: "nat \<Rightarrow> response_writer \<Rightarrow> response_writer" where
  "rw_write n w = w\<lparr>rw_wrote := True, rw_bytes := rw_bytes w + int n\<rparr>"

definition reader_read :: "nat \<Rightarrow> int \<Rightarrow> int" where
  "reader_read n k = k + int n"

fun handler_step :: "handler_op \<Rightarrow> int \<times> response_writer \<Rightarrow> int \<times> response_writer" where
  "handler_step (WriteHeader c) (n, w) = (n, rw_write_header c w)"
| "handler_step (Write k) (n, w) = (n, rw_write k w)"
| "handler_step Flush (n, w) = (n, w)"
| "handler_step (ReadBody k) (n, w) = (reader_read k n, w)"

section \<open>The middleware\<close>

record http_counts =
  hc_requests :: int
  hc_errors :: int
  hc_bytes_in :: int
  hc_bytes_out :: int
  hc_durations :: "duration list"
  hc_active :: int

definition http_begin :: "http_counts \<Rightarrow> http_counts" where
  "http_begin c = c\<lparr>hc_active := hc_active c + 1\<rparr>"

definition http_end :: "duration \<Rightarrow> int \<Rightarrow> response_writer \<Rightarrow> http_counts \<Rightarrow> http_counts" where
  \<comment> \<open>the deferred function; it also runs when the handler panics\<close>
  "http_end d n w c =
     c\<lparr>hc_active := hc_active c - 1, hc_requests := hc_requests c + 1,
       hc_errors := (if rw_status w \<ge> status_internal_error then hc_errors c + 1 else hc_errors c),
       hc_durations := hc_durations c @ [d], hc_bytes_in := hc_bytes_in c + n,
       hc_bytes_out := hc_bytes_out c + rw_bytes w\<rparr>"

definition http_middleware :: "duration \<Rightarrow> handler_op list \<Rightarrow> http_counts \<Rightarrow> http_counts" where
  "http_middleware d ops c =
     (let c = http_begin c in
      case fold handler_step ops (0, \<lparr>rw_status = status_ok, rw_bytes = 0, rw_wrote = False\<rparr>) of
        (n, w) \<Rightarrow> http_end d n w c)"

section \<open>What the client of the server sees\<close>

definition informational :: "nat \<Rightarrow> bool" where
  "informational c \<longleftrightarrow> 100 \<le> c \<and> c \<le> 199 \<and> c \<noteq> 101"

fun sent_status :: "handler_op list \<Rightarrow> nat" where
  \<comment> \<open>the first final status; writing and flushing send 200 if none was sent\<close>
  "sent_status [] = 200"
| "sent_status (WriteHeader c # ops) = (if informational c then sent_status ops else c)"
| "sent_status (ReadBody n # ops) = sent_status ops"
| "sent_status (Write n # ops) = 200"
| "sent_status (Flush # ops) = 200"

fun ordinary :: "handler_op list \<Rightarrow> bool" where
  \<comment> \<open>sends no informational response, and no header after a flush that came first\<close>
  "ordinary [] = True"
| "ordinary (WriteHeader c # ops) = (\<not> informational c)"
| "ordinary (ReadBody n # ops) = ordinary ops"
| "ordinary (Write n # ops) = True"
| "ordinary (Flush # ops) = (\<not> (\<exists>c. WriteHeader c \<in> set (takeWhile (\<lambda>x. \<forall>n. x \<noteq> Write n) ops)))"

definition bytes_of :: "handler_op \<Rightarrow> int" where
  "bytes_of x = (case x of Write n \<Rightarrow> int n | _ \<Rightarrow> 0)"

definition body_of :: "handler_op \<Rightarrow> int" where
  "body_of x = (case x of ReadBody n \<Rightarrow> int n | _ \<Rightarrow> 0)"

lemma fold_wrote:
  "rw_wrote w \<Longrightarrow> rw_status (snd (fold handler_step ops (n, w))) = rw_status w"
proof (induction ops arbitrary: n w)
  case (Cons x ops)
  then show ?case by (cases x) (simp_all add: rw_write_header_def rw_write_def)
qed simp

lemma fold_flushed:
  "\<not> (\<exists>c. WriteHeader c \<in> set (takeWhile (\<lambda>x. \<forall>n. x \<noteq> Write n) ops)) \<Longrightarrow>
    rw_status (snd (fold handler_step ops (n, w))) = rw_status w"
proof (induction ops arbitrary: n w)
  case (Cons x ops)
  show ?case
  proof (cases x)
    case (Write k)
    then show ?thesis using fold_wrote [of "rw_write k w" ops n] by (simp add: rw_write_def)
  qed (use Cons in auto)
qed simp

lemma fold_status:
  "ordinary ops \<Longrightarrow> rw_status w = 200 \<Longrightarrow> \<not> rw_wrote w \<Longrightarrow>
    rw_status (snd (fold handler_step ops (n, w))) = sent_status ops"
proof (induction ops arbitrary: n)
  case (Cons x ops)
  show ?case
  proof (cases x)
    case (WriteHeader c)
    then show ?thesis using Cons.prems fold_wrote [of "rw_write_header c w" ops n]
      by (simp add: rw_write_header_def)
  next
    case (Write k)
    then show ?thesis using Cons.prems fold_wrote [of "rw_write k w" ops n] by (simp add: rw_write_def)
  next
    case Flush
    then show ?thesis using Cons.prems fold_flushed [of ops n w] by simp
  next
    case (ReadBody k)
    then show ?thesis using Cons by simp
  qed
qed simp

lemma fold_bytes:
  "fst (fold handler_step ops (n, w)) = n + sum_list (map body_of ops) \<and>
   rw_bytes (snd (fold handler_step ops (n, w))) = rw_bytes w + sum_list (map bytes_of ops)"
proof (induction ops arbitrary: n w)
  case (Cons x ops)
  then show ?case
    by (cases x) (simp_all add: body_of_def bytes_of_def reader_read_def rw_write_def rw_write_header_def)
qed simp

section \<open>Properties\<close>

text \<open>
  C34: The middleware counts what happened: one request with its duration, no longer active, the
  bytes read and written, and an error exactly if the client was sent a status of 500 or more, for
  a handler that sends no informational response and does not set the status after a flush.
\<close>

theorem middleware_counts_request:
  assumes "ordinary ops"
  shows "http_middleware d ops c =
    c\<lparr>hc_requests := hc_requests c + 1,
      hc_errors := hc_errors c + (if sent_status ops \<ge> 500 then 1 else 0),
      hc_durations := hc_durations c @ [d],
      hc_bytes_in := hc_bytes_in c + sum_list (map body_of ops),
      hc_bytes_out := hc_bytes_out c + sum_list (map bytes_of ops)\<rparr>"
proof -
  let ?w = "\<lparr>rw_status = status_ok, rw_bytes = 0, rw_wrote = False\<rparr>"
  obtain n w where nw: "fold handler_step ops (0, ?w) = (n, w)" by (cases "fold handler_step ops (0, ?w)")
  have "rw_status w = sent_status ops"
    using fold_status [OF assms, of ?w 0] unfolding nw by (simp add: status_ok_def)
  moreover have "n = sum_list (map body_of ops)" "rw_bytes w = sum_list (map bytes_of ops)"
    using fold_bytes [of ops 0 ?w] by (simp_all add: nw)
  ultimately show ?thesis
    by (simp add: http_middleware_def nw http_begin_def http_end_def status_internal_error_def Let_def)
qed

theorem middleware_counts_request_witness:
  "http_middleware 3 [ReadBody 10, WriteHeader 503, Write 4, WriteHeader 200]
      \<lparr>hc_requests = 1, hc_errors = 0, hc_bytes_in = 0, hc_bytes_out = 0, hc_durations = [], hc_active = 2\<rparr> =
    \<lparr>hc_requests = 2, hc_errors = 1, hc_bytes_in = 10, hc_bytes_out = 4, hc_durations = [3], hc_active = 2\<rparr>"
  using middleware_counts_request [of "[ReadBody 10, WriteHeader 503, Write 4, WriteHeader 200]" 3
      "\<lparr>hc_requests = 1, hc_errors = 0, hc_bytes_in = 0, hc_bytes_out = 0, hc_durations = [], hc_active = 2\<rparr>"]
  by (simp add: informational_def body_of_def bytes_of_def)

text \<open>
  The two kinds of handler it excludes are miscounted: after an informational response the error is
  missed, and a status set after a flush is counted although the client was sent 200.
\<close>

theorem middleware_miscounts:
  "hc_errors (http_middleware d [WriteHeader 103, WriteHeader 500] c) = hc_errors c \<and>
   sent_status [WriteHeader 103, WriteHeader 500] = 500 \<and>
   hc_errors (http_middleware d [Flush, WriteHeader 500] c) = hc_errors c + 1 \<and>
   sent_status [Flush, WriteHeader 500] = 200"
  by (simp add: http_middleware_def http_begin_def http_end_def rw_write_header_def informational_def
      status_ok_def status_internal_error_def Let_def)

end
