(* ===== verification/Client_Setup.thy ===== *)
theory Client_Setup
  imports Client_Log Domain Go_Float
begin

text \<open>
  \<open>client/env.go\<close>, \<open>client/client.go\<close> and \<open>client/counterset.go\<close>: the configuration of
  the client library from options and environment, what \<open>Start\<close> installs, the instruments built
  lazily once per \<open>Start\<close>, and counter sets. The environment is a map; the OpenTelemetry SDK
  (resources, exporters, providers, instruments) is a parameter. Concurrent \<open>get\<close>s of a lazy
  value are a step relation over their phases, with the mutex and the two phases of \<open>Start\<close> that
  matter to it.
\<close>

section \<open>Environment\<close>

type_synonym environ = "string \<rightharpoonup> string"

definition getenv :: "environ \<Rightarrow> string \<Rightarrow> string" where
  "getenv env name = (case env name of None \<Rightarrow> [] | Some v \<Rightarrow> v)"

definition atoi :: "string \<Rightarrow> int option" where
  \<comment> \<open>\<open>strconv.Atoi\<close>\<close>
  "atoi s =
     (let neg = has_prefix s ''-''; ds = (if neg \<or> has_prefix s ''+'' then drop 1 s else s) in
      if ds = [] \<or> \<not> list_all is_digit ds then None
      else let n = digits_val 0 ds in
        if neg then (if n \<le> 2 ^ 63 then Some (- int n) else None)
        else (if n < 2 ^ 63 then Some (int n) else None))"

definition default_interval :: duration where
  "default_interval = seconds 60"

definition resolve_interval :: "environ \<Rightarrow> duration \<Rightarrow> duration" where
  "resolve_interval env d =
     (if dur_less 0 d then d
      else case atoi (getenv env ''OTEL_METRIC_EXPORT_INTERVAL'') of
        Some ms \<Rightarrow> if ms > 0 then word_of_int ms * word_of_int (10 ^ 6) else default_interval
      | None \<Rightarrow> default_interval)"

definition default_scope :: string where "default_scope = ''default''"

definition resolve_scope :: "environ \<Rightarrow> string \<Rightarrow> string" where
  "resolve_scope env s =
     (let s = (if s = [] then getenv env ''OTEL_SERVICE_NAME'' else s);
          s = (if s = [] then default_scope else s)
      in map (\<lambda>c. if c = CHR ''/'' then CHR ''-'' else c) s)"

datatype instrument_kind = KCounter | KUpDownCounter | KHistogram | KGauge
  | KObservableCounter | KObservableUpDownCounter | KObservableGauge

datatype temporality = CumulativeTemporality | DeltaTemporality

definition instrument_temporality :: "instrument_kind \<Rightarrow> temporality" where
  "instrument_temporality k =
     (if k = KCounter \<or> k = KHistogram then DeltaTemporality else CumulativeTemporality)"

definition signal_url :: "string \<Rightarrow> string \<Rightarrow> string" where
  "signal_url endpoint path = rev (dropWhile (\<lambda>c. c = CHR ''/'') (rev endpoint)) @ path"

section \<open>Start\<close>

text \<open>
  \<open>DefaultRedact\<close>, the pattern \<open>(?i)(password|secret|token|authorization|cookie|key)\<close>: one of
  the words anywhere in the key, in any letter case. Folding takes the Kelvin sign (U+212A) for a k
  and the long s (U+017F) for an s.
\<close>

definition kelvin_sign :: string where "kelvin_sign = [CHR 0xE2, CHR 0x84, CHR 0xAA]"
definition long_s :: string where "long_s = [CHR 0xC5, CHR 0xBF]"

fun fold_prefix :: "string \<Rightarrow> string \<Rightarrow> bool" where
  \<comment> \<open>whether the string starts with the word, given in lower case, up to case\<close>
  "fold_prefix [] s = True"
| "fold_prefix (c # w) s =
     ((case s of [] \<Rightarrow> False | d # ds \<Rightarrow> lower_byte d = c \<and> fold_prefix w ds) \<or>
      c = CHR ''k'' \<and> has_prefix s kelvin_sign \<and> fold_prefix w (drop (length kelvin_sign) s) \<or>
      c = CHR ''s'' \<and> has_prefix s long_s \<and> fold_prefix w (drop (length long_s) s))"

definition redact_words :: "string list" where
  "redact_words = [''password'', ''secret'', ''token'', ''authorization'', ''cookie'', ''key'']"

definition default_redact :: "string \<Rightarrow> bool" where
  "default_redact s \<longleftrightarrow> list_ex (\<lambda>w. list_ex (\<lambda>i. fold_prefix w (drop i s)) [0..<Suc (length s)]) redact_words"

record 'h options =
  opt_handler :: "'h option"
  opt_scope :: string
  opt_endpoint :: string
  opt_interval :: duration
  opt_redact :: "(string \<Rightarrow> bool) option"
  opt_no_stdlog :: bool
  opt_no_process :: bool

text \<open>A handler of the process is the application's own or the bridge.\<close>

datatype 'h sink = AppSink 'h | BridgeSink bridge

text \<open>What the SDK answers: the error of the resource (\<open>ErrPartialResource\<close> apart) and of each exporter.\<close>

record 'e sdk =
  sdk_resource :: "'e option"
  sdk_metrics :: "string \<Rightarrow> 'e option"  \<comment> \<open>for the URL of the exporter\<close>
  sdk_logs :: "string \<Rightarrow> 'e option"

datatype 'e client_start_error = ResourceError 'e | MetricExporter 'e | LogExporter 'e

record provider_plan =
  pl_metrics_url :: string
  pl_logs_url :: string
  pl_interval :: duration
  pl_process :: bool       \<comment> \<open>the process gauges are registered\<close>

record 'h process_state =
  ps_generation :: nat
  ps_logger :: "(string \<times> 'h sink fanout) option"  \<comment> \<open>scope and logger of \<open>current\<close>, slog's default\<close>
  ps_stdlog :: "'h sink fanout option"            \<comment> \<open>what the standard log package writes to, if redirected\<close>
  ps_provider :: "provider_plan option"

definition client_install :: "string \<Rightarrow> 'h sink fanout \<Rightarrow> bool \<Rightarrow> 'h process_state \<Rightarrow> 'h process_state" where
  \<comment> \<open>\<open>slog.SetDefault\<close> redirects the standard log package; that is undone or replaced\<close>
  "client_install scope h no_stdlog st =
     (let st = (if no_stdlog then st else st\<lparr>ps_stdlog := Some h\<rparr>)
      in st\<lparr>ps_logger := Some (scope, h)\<rparr>)"

definition client_start :: "environ \<Rightarrow> 'h \<Rightarrow> 'e sdk \<Rightarrow> 'h options \<Rightarrow> 'h process_state \<Rightarrow>
    ('e client_start_error + unit) \<times> 'h process_state" where
  \<comment> \<open>the second argument is the default text handler\<close>
  "client_start env text_handler sdk opts st =
     (let endpoint = (if opt_endpoint opts = [] then getenv env ''OTEL_EXPORTER_OTLP_ENDPOINT'' else opt_endpoint opts);
          scope = resolve_scope env (opt_scope opts);
          redact = (case opt_redact opts of None \<Rightarrow> default_redact | Some re \<Rightarrow> re);
          app = (case opt_handler opts of None \<Rightarrow> text_handler | Some h \<Rightarrow> h);
          st = st\<lparr>ps_generation := ps_generation st + 1\<rparr> in
      if endpoint = [] then (Inr (), client_install scope (new_fanout redact [AppSink app]) (opt_no_stdlog opts) st)
      else
        (case sdk_resource sdk of
           Some e \<Rightarrow> (Inl (ResourceError e), st)
         | None \<Rightarrow>
             let metrics = signal_url endpoint ''/v1/metrics''; logs = signal_url endpoint ''/v1/logs'' in
             (case sdk_metrics sdk metrics of
                Some e \<Rightarrow> (Inl (MetricExporter e), st)
              | None \<Rightarrow>
                  (case sdk_logs sdk logs of
                     Some e \<Rightarrow> (Inl (LogExporter e), st)
                   | None \<Rightarrow>
                       (Inr (),
                        client_install scope (new_fanout redact [AppSink app, BridgeSink new_bridge]) (opt_no_stdlog opts)
                          (st\<lparr>ps_provider := Some \<lparr>pl_metrics_url = metrics, pl_logs_url = logs,
                             pl_interval = resolve_interval env (opt_interval opts),
                             pl_process = (\<not> opt_no_process opts)\<rparr>\<rparr>))))))"

definition scope_name :: "environ \<Rightarrow> 'h process_state \<Rightarrow> string" where
  "scope_name env st = (case ps_logger st of Some (scope, h) \<Rightarrow> scope | None \<Rightarrow> resolve_scope env [])"

definition client_meter :: "(string \<Rightarrow> 'm) \<Rightarrow> environ \<Rightarrow> 'h process_state \<Rightarrow> 'm" where
  \<comment> \<open>\<open>provider\<close> is the global provider: the meter of a scope\<close>
  "client_meter provider env st = provider (scope_name env st)"

definition client_logger :: "'h sink fanout \<Rightarrow> 'h process_state \<Rightarrow> 'h sink fanout" where
  \<comment> \<open>\<open>slog_default\<close> is the logger of \<open>log/slog\<close> before \<open>Start\<close>\<close>
  "client_logger slog_default st = (case ps_logger st of Some (scope, h) \<Rightarrow> h | None \<Rightarrow> slog_default)"

definition client_shutdown :: "provider_plan option \<Rightarrow> 'e option \<Rightarrow> 'e option \<Rightarrow> 'e list option" where
  \<comment> \<open>what the shutdown of \<open>Start\<close> returns, for the errors of the two providers\<close>
  "client_shutdown plan metrics logs = (case plan of None \<Rightarrow> None | Some p \<Rightarrow> join_nonnil [metrics, logs])"

text \<open>A key that contains one of the words in any case is redacted by default.\<close>

lemma fold_prefix_lower: "map lower_byte v = w \<Longrightarrow> fold_prefix w (v @ s)"
  by (induction v arbitrary: w) auto

lemma default_redact_word: "map lower_byte v \<in> set redact_words \<Longrightarrow> default_redact (pre @ v @ post)"
  unfolding default_redact_def list_ex_iff
  by (rule bexI [of _ "map lower_byte v"], rule bexI [of _ "length pre"]) (simp_all add: fold_prefix_lower del: upt_Suc)

text \<open>
  What \<open>Start\<close> installs without a pattern of its own: a logger in whose sinks no value survives
  under a path with one of the words, whether records go to the application alone or also to the
  exporter.
\<close>

theorem start_redacts_by_default:
  assumes "client_start env text_handler sdk opts st = (Inr u, st')" and "opt_redact opts = None"
    and "map lower_byte v \<in> set redact_words"
  shows "fo_redact (client_logger slog_default st') (pre @ v @ post) \<and> fo_prefix (client_logger slog_default st') = [] \<and>
    ps_generation st' = ps_generation st + 1"
  using assms default_redact_word [OF assms(3)]
  by (auto simp: client_start_def client_logger_def client_install_def new_fanout_def Let_def
      split: if_splits option.splits)

theorem start_redacts_by_default_witness:
  "\<exists>st. client_start (Map.empty) () (\<lparr>sdk_resource = None, sdk_metrics = (\<lambda>_. None), sdk_logs = (\<lambda>_. None)\<rparr> :: unit sdk)
      \<lparr>opt_handler = None, opt_scope = [], opt_endpoint = ''http://sor'', opt_interval = 0, opt_redact = None,
       opt_no_stdlog = False, opt_no_process = True\<rparr>
      \<lparr>ps_generation = 0, ps_logger = None, ps_stdlog = None, ps_provider = None\<rparr> = (Inr (), st) \<and>
    fo_redact (client_logger (new_fanout (\<lambda>_. False) []) st) ''http.AUTHORIZATION.raw''"
proof -
  let ?sdk = "\<lparr>sdk_resource = None, sdk_metrics = (\<lambda>_. None), sdk_logs = (\<lambda>_. None)\<rparr> :: unit sdk"
  let ?opts = "\<lparr>opt_handler = None, opt_scope = [], opt_endpoint = ''http://sor'', opt_interval = 0, opt_redact = None,
     opt_no_stdlog = False, opt_no_process = True\<rparr> :: unit options"
  let ?st = "\<lparr>ps_generation = 0, ps_logger = None, ps_stdlog = None, ps_provider = None\<rparr> :: unit process_state"
  obtain st where st: "client_start Map.empty () ?sdk ?opts ?st = (Inr (), st)"
    by (auto simp: client_start_def Let_def)
  have "map lower_byte ''AUTHORIZATION'' \<in> set redact_words" by code_simp
  from start_redacts_by_default [OF st _ this, of "new_fanout (\<lambda>_. False) []" "''http.''" "''.raw''"] st
  show ?thesis by auto
qed

section \<open>Counter sets\<close>

datatype 'e counter_set_error = NeedsPrefix | EmptyName string | CreateError string 'e

fun create_counters :: "(string \<Rightarrow> 'e + 'c) \<Rightarrow> string \<Rightarrow> string list \<Rightarrow> (string \<rightharpoonup> 'c) \<Rightarrow> 'e counter_set_error + (string \<rightharpoonup> 'c)" where
  \<comment> \<open>\<open>create\<close> is \<open>Meter().Int64Counter\<close>\<close>
  "create_counters create prefix [] cs = Inr cs"
| "create_counters create prefix (name # names) cs =
     (if name = [] then Inl (EmptyName prefix)
      else case create (prefix @ ''.'' @ name) of
        Inl e \<Rightarrow> Inl (CreateError prefix e)
      | Inr c \<Rightarrow> create_counters create prefix names (cs(name \<mapsto> c)))"

definition new_counter_set :: "(string \<Rightarrow> 'e + 'c) \<Rightarrow> string \<Rightarrow> string list \<Rightarrow> 'e counter_set_error + (string \<rightharpoonup> 'c)" where
  "new_counter_set create prefix names =
     (if prefix = [] then Inl NeedsPrefix else create_counters create prefix names Map.empty)"

definition counter_set_add :: "(string \<rightharpoonup> 'c) option \<Rightarrow> string \<Rightarrow> int \<Rightarrow> ('c \<Rightarrow> int) \<Rightarrow> 'c \<Rightarrow> int" where
  \<comment> \<open>the counts of all counters; the set may be nil\<close>
  "counter_set_add cs name n counts =
     (case cs of
        None \<Rightarrow> counts
      | Some cs \<Rightarrow> (case cs name of None \<Rightarrow> counts | Some c \<Rightarrow> counts(c := counts c + n)))"

section \<open>Lazy instruments\<close>

text \<open>
  The shared state: the generation, the provider instruments are built from, the cached value
  (its generation and the provider it was built from), whether the mutex is held, and the builds.
\<close>

record lazy_state =
  lz_gen :: nat
  lz_provider :: nat
  lz_cache :: "(nat \<times> nat) option"
  lz_locked :: bool
  lz_builds :: "nat list"

datatype get_phase =
    GetCalled
  | GetLoaded nat        \<comment> \<open>with the generation it loaded\<close>
  | GetWaiting nat       \<comment> \<open>for the mutex\<close>
  | GetHolding nat
  | GetBuilt nat nat     \<comment> \<open>about to store the value it built\<close>
  | GetReturned nat

fun get_turn :: "get_phase \<Rightarrow> lazy_state \<Rightarrow> (get_phase \<times> lazy_state) option" where
  \<comment> \<open>one atomic action of a \<open>get\<close>; None if it waits for the mutex or has returned\<close>
  "get_turn GetCalled z = Some (GetLoaded (lz_gen z), z)"
| "get_turn (GetLoaded g) z =
     (case lz_cache z of
        Some (g', v) \<Rightarrow> Some (if g' = g then GetReturned v else GetWaiting g, z)
      | None \<Rightarrow> Some (GetWaiting g, z))"
| "get_turn (GetWaiting g) z = (if lz_locked z then None else Some (GetHolding g, z\<lparr>lz_locked := True\<rparr>))"
| "get_turn (GetHolding g) z =
     (case lz_cache z of
        Some (g', v) \<Rightarrow>
          (if g' = g then Some (GetReturned v, z\<lparr>lz_locked := False\<rparr>)
           else Some (GetBuilt g (lz_provider z), z\<lparr>lz_builds := lz_builds z @ [g]\<rparr>))
      | None \<Rightarrow> Some (GetBuilt g (lz_provider z), z\<lparr>lz_builds := lz_builds z @ [g]\<rparr>))"
| "get_turn (GetBuilt g v) z = Some (GetReturned v, z\<lparr>lz_cache := Some (g, v), lz_locked := False\<rparr>)"
| "get_turn (GetReturned v) z = None"

inductive gets_step :: "lazy_state \<times> get_phase list \<Rightarrow> lazy_state \<times> get_phase list \<Rightarrow> bool" where
  call: "gets_step (z, ps) (z, ps @ [GetCalled])"
| turn: "p < length ps \<Longrightarrow> get_turn (ps ! p) z = Some (ph, z') \<Longrightarrow> gets_step (z, ps) (z', ps[p := ph])"

text \<open>\<open>Start\<close> increments the generation first and sets the provider some time later.\<close>

inductive start_step :: "lazy_state \<Rightarrow> lazy_state \<Rightarrow> bool" where
  bump: "start_step z (z\<lparr>lz_gen := lz_gen z + 1\<rparr>)"
| set_provider: "start_step z (z\<lparr>lz_provider := v\<rparr>)"

inductive_cases gets_stepE: "gets_step (z, ps) c"

section \<open>One build for concurrent gets\<close>

fun holding :: "get_phase \<Rightarrow> bool" where
  "holding (GetHolding g) = True"
| "holding (GetBuilt g v) = True"
| "holding _ = False"

fun building :: "get_phase \<Rightarrow> bool" where
  "building (GetBuilt g v) = True"
| "building _ = False"

fun phase_ok :: "nat \<Rightarrow> nat \<Rightarrow> get_phase \<Rightarrow> bool" where
  "phase_ok G V GetCalled = True"
| "phase_ok G V (GetLoaded g) = (g = G)"
| "phase_ok G V (GetWaiting g) = (g = G)"
| "phase_ok G V (GetHolding g) = (g = G)"
| "phase_ok G V (GetBuilt g v) = (g = G \<and> v = V)"
| "phase_ok G V (GetReturned v) = (v = V)"

lemma building_holding: "building ph \<Longrightarrow> holding ph"
  by (cases ph) auto

definition exclusive :: "bool \<Rightarrow> get_phase list \<Rightarrow> bool" where
  "exclusive locked ps \<longleftrightarrow> length (filter holding ps) = (if locked then 1 else 0)"

definition lazy_ok :: "nat \<Rightarrow> nat \<Rightarrow> (nat \<times> nat) option \<Rightarrow> lazy_state \<times> get_phase list \<Rightarrow> bool" where
  "lazy_ok G V c0 s \<longleftrightarrow> (case s of (z, ps) \<Rightarrow>
     lz_gen z = G \<and> lz_provider z = V \<and> exclusive (lz_locked z) ps \<and> list_all (phase_ok G V) ps \<and>
     (if lz_cache z = Some (G, V) then lz_builds z = [G] \<and> \<not> list_ex building ps
      else lz_cache z = c0 \<and> list_all (\<lambda>ph. \<forall>v. ph \<noteq> GetReturned v) ps \<and>
        lz_builds z = (if list_ex building ps then [G] else [])))"

lemma filter_update:
  "p < length ps \<Longrightarrow> length (filter P (ps[p := x])) + (if P (ps ! p) then 1 else 0) =
    length (filter P ps) + (if P x then 1 else 0)"
proof (induction ps arbitrary: p)
  case (Cons y ps)
  show ?case
  proof (cases p)
    case (Suc q)
    then show ?thesis using Cons.IH [of q] Cons.prems by simp
  qed simp
qed simp

lemma list_ex_update_same:
  "p < length ps \<Longrightarrow> building (ps ! p) = building x \<Longrightarrow> list_ex building (ps[p := x]) = list_ex building ps"
  by (induction ps arbitrary: p) (auto split: nat.split)

lemma list_all_update: "list_all P ps \<Longrightarrow> P x \<Longrightarrow> list_all P (ps[p := x])"
  by (induction ps arbitrary: p) (auto split: nat.split)

lemma list_ex_update: "p < length ps \<Longrightarrow> Q x \<Longrightarrow> list_ex Q (ps[p := x])"
  by (induction ps arbitrary: p) (auto split: nat.split)

lemma one_holder:
  assumes "length (filter holding ps) = Suc 0" and "p < length ps" and "holding (ps ! p)"
    and "\<not> holding x"
  shows "\<not> list_ex building (ps[p := x])"
proof -
  have "length (filter holding (ps[p := x])) = 0" using filter_update [of p ps holding x] assms by simp
  then show ?thesis using building_holding by (auto simp: list_ex_iff filter_empty_conv)
qed

lemma quiet_turn:
  assumes "lazy_ok G V c0 (z, ps)" and "p < length ps" and "phase_ok G V ph"
    and "holding (ps ! p) = holding ph" and "building (ps ! p) = building ph"
    and "\<And>v. ph = GetReturned v \<Longrightarrow> lz_cache z = Some (G, V)"
  shows "lazy_ok G V c0 (z, ps[p := ph])"
proof -
  have "length (filter holding (ps[p := ph])) = length (filter holding ps)"
    using filter_update [OF assms(2), of holding ph] assms(4) by simp
  moreover have "list_ex building (ps[p := ph]) = list_ex building ps"
    using assms(5) by (rule list_ex_update_same [OF assms(2)])
  moreover have "list_all (phase_ok G V) (ps[p := ph])"
    using assms(1,3) by (simp add: lazy_ok_def list_all_update)
  moreover have "list_all (\<lambda>ph. \<forall>v. ph \<noteq> GetReturned v) (ps[p := ph])" if "lz_cache z \<noteq> Some (G, V)"
    using assms(1,6) that by (intro list_all_update) (auto simp: lazy_ok_def)
  ultimately show ?thesis
    using assms(1) by (simp add: lazy_ok_def exclusive_def)
qed

lemma acquire_turn:
  assumes "lazy_ok G V c0 (z, ps)" and "p < length ps" and "ps ! p = GetWaiting G" and "\<not> lz_locked z"
  shows "lazy_ok G V c0 (z\<lparr>lz_locked := True\<rparr>, ps[p := GetHolding G])"
proof -
  have "length (filter holding (ps[p := GetHolding G])) = Suc (length (filter holding ps))"
    using filter_update [OF assms(2), of holding "GetHolding G"] assms(3) by simp
  moreover have "list_ex building (ps[p := GetHolding G]) = list_ex building ps"
    using assms(3) by (intro list_ex_update_same [OF assms(2)]) simp
  moreover have "list_all (phase_ok G V) (ps[p := GetHolding G])"
    using assms(1) by (simp add: lazy_ok_def list_all_update)
  ultimately show ?thesis
    using assms(1,4) by (auto simp: lazy_ok_def exclusive_def list_all_update)
qed

lemma held:
  assumes "lazy_ok G V c0 (z, ps)" and "p < length ps" and "holding (ps ! p)"
  shows "lz_locked z \<and> length (filter holding ps) = Suc 0"
  using filter_update [OF assms(2), of holding GetCalled] assms(1,3)
  by (simp add: lazy_ok_def exclusive_def split: if_splits)

lemma release_turn:
  assumes "lazy_ok G V c0 (z, ps)" and "p < length ps" and "ps ! p = GetHolding G" and "lz_cache z = Some (G, V)"
  shows "lazy_ok G V c0 (z\<lparr>lz_locked := False\<rparr>, ps[p := GetReturned V])"
proof -
  have h: "length (filter holding ps) = Suc 0" using held [OF assms(1,2)] assms(3) by simp
  then have "length (filter holding (ps[p := GetReturned V])) = 0"
    using filter_update [OF assms(2), of holding "GetReturned V"] assms(3) by simp
  moreover have "list_ex building (ps[p := GetReturned V]) = list_ex building ps"
    using assms(3) by (intro list_ex_update_same [OF assms(2)]) simp
  moreover have "list_all (phase_ok G V) (ps[p := GetReturned V])"
    using assms(1) by (simp add: lazy_ok_def list_all_update)
  ultimately show ?thesis using assms(1,4) by (auto simp: lazy_ok_def exclusive_def)
qed

lemma build_turn:
  assumes "lazy_ok G V c0 (z, ps)" and "p < length ps" and "ps ! p = GetHolding G" and "lz_cache z \<noteq> Some (G, V)"
  shows "lazy_ok G V c0 (z\<lparr>lz_builds := lz_builds z @ [G]\<rparr>, ps[p := GetBuilt G V])"
proof -
  have h: "length (filter holding ps) = Suc 0" using held [OF assms(1,2)] assms(3) by simp
  then have "length (filter holding (ps[p := GetBuilt G V])) = Suc 0"
    using filter_update [OF assms(2), of holding "GetBuilt G V"] assms(3) by simp
  moreover have "\<not> list_ex building ps"
    using one_holder [OF h assms(2), of GetCalled] list_ex_update_same [OF assms(2), of GetCalled] assms(3) by simp
  moreover have "list_ex building (ps[p := GetBuilt G V])" by (rule list_ex_update [OF assms(2)]) simp
  moreover have "list_all (phase_ok G V) (ps[p := GetBuilt G V])"
    using assms(1) by (simp add: lazy_ok_def list_all_update)
  ultimately show ?thesis using assms(1,4) h
    by (auto simp: lazy_ok_def exclusive_def list_all_update split: if_splits)
qed

lemma store_turn:
  assumes "lazy_ok G V c0 (z, ps)" and "p < length ps" and "ps ! p = GetBuilt G V"
  shows "lazy_ok G V c0 (z\<lparr>lz_cache := Some (G, V), lz_locked := False\<rparr>, ps[p := GetReturned V])"
proof -
  have h: "length (filter holding ps) = Suc 0" using held [OF assms(1,2)] assms(3) by simp
  then have "length (filter holding (ps[p := GetReturned V])) = 0"
    using filter_update [OF assms(2), of holding "GetReturned V"] assms(3) by simp
  moreover have "\<not> list_ex building (ps[p := GetReturned V])"
    using assms(3) by (intro one_holder [OF h assms(2)]) simp_all
  moreover have "list_ex building ps" using assms(2,3) by (auto simp: list_ex_length intro!: exI [of _ p])
  moreover have "list_all (phase_ok G V) (ps[p := GetReturned V])"
    using assms(1) by (simp add: lazy_ok_def list_all_update)
  ultimately show ?thesis using assms(1) by (auto simp: lazy_ok_def exclusive_def split: if_splits)
qed

lemma cached_value:
  assumes "lazy_ok G V c0 (z, ps)" and "\<And>v. c0 \<noteq> Some (G, v)"
  shows "lz_cache z = Some (G, v) \<longleftrightarrow> v = V \<and> lz_cache z = Some (G, V)"
  using assms by (auto simp: lazy_ok_def split: if_splits)

lemma turn_ok:
  assumes ok: "lazy_ok G V c0 (z, ps)" and p: "p < length ps" and t: "get_turn (ps ! p) z = Some (ph, z')"
    and c0: "\<And>v. c0 \<noteq> Some (G, v)"
  shows "lazy_ok G V c0 (z', ps[p := ph])"
proof -
  have phs: "phase_ok G V (ps ! p)" using ok p by (simp add: lazy_ok_def list_all_length)
  have gen: "lz_gen z = G" "lz_provider z = V" using ok by (simp_all add: lazy_ok_def)
  show ?thesis
  proof (cases "ps ! p")
    case GetCalled
    then have "ph = GetLoaded G" "z' = z" using t gen by auto
    then show ?thesis using quiet_turn [OF ok p, of ph] GetCalled by simp
  next
    case (GetLoaded g)
    then have g: "g = G" using phs by simp
    show ?thesis
    proof (cases "lz_cache z = Some (G, V)")
      case True
      then have "ph = GetReturned V" "z' = z" using t GetLoaded g by simp_all
      then show ?thesis using quiet_turn [OF ok p, of ph] GetLoaded True by simp
    next
      case False
      then have "\<forall>g' v. lz_cache z = Some (g', v) \<longrightarrow> g' \<noteq> G" using cached_value [OF ok c0] by blast
      then have "ph = GetWaiting G" "z' = z" using t GetLoaded g by (auto split: option.splits if_splits)
      then show ?thesis using quiet_turn [OF ok p, of ph] GetLoaded by simp
    qed
  next
    case (GetWaiting g)
    then have "g = G" using phs by simp
    moreover have "\<not> lz_locked z" using t GetWaiting by (simp split: if_splits)
    moreover have "ph = GetHolding g" "z' = z\<lparr>lz_locked := True\<rparr>" using t GetWaiting by (simp_all split: if_splits)
    ultimately show ?thesis using acquire_turn [OF ok p] GetWaiting by simp
  next
    case (GetHolding g)
    then have g: "g = G" using phs by simp
    show ?thesis
    proof (cases "lz_cache z = Some (G, V)")
      case True
      then have "ph = GetReturned V" "z' = z\<lparr>lz_locked := False\<rparr>" using t GetHolding g by simp_all
      then show ?thesis using release_turn [OF ok p] GetHolding g True by simp
    next
      case False
      then have "\<forall>g' v. lz_cache z = Some (g', v) \<longrightarrow> g' \<noteq> G" using cached_value [OF ok c0] by blast
      then have "ph = GetBuilt G V" "z' = z\<lparr>lz_builds := lz_builds z @ [G]\<rparr>"
        using t GetHolding g gen by (auto split: option.splits if_splits)
      then show ?thesis using build_turn [OF ok p] GetHolding g False by simp
    qed
  next
    case (GetBuilt g v)
    then have "g = G" "v = V" using phs by simp_all
    moreover from this have "ph = GetReturned V" "z' = z\<lparr>lz_cache := Some (G, V), lz_locked := False\<rparr>"
      using t GetBuilt by simp_all
    ultimately show ?thesis using store_turn [OF ok p] GetBuilt by simp
  next
    case (GetReturned v)
    then show ?thesis using t by simp
  qed
qed

lemma step_ok:
  assumes "gets_step s s'" and "lazy_ok G V c0 s" and "\<And>v. c0 \<noteq> Some (G, v)"
  shows "lazy_ok G V c0 s'"
  using assms(1)
proof cases
  case (call z ps)
  then show ?thesis using assms(2) by (auto simp: lazy_ok_def exclusive_def)
next
  case (turn p ps z ph z')
  then show ?thesis using turn_ok assms(2,3) by blast
qed

lemma gets_ok:
  assumes "gets_step\<^sup>*\<^sup>* s s'" and "lazy_ok G V c0 s" and "\<And>v. c0 \<noteq> Some (G, v)"
  shows "lazy_ok G V c0 s'"
  using assms(1)
proof (induction rule: rtranclp_induct)
  case base
  then show ?case by (rule assms(2))
next
  case (step y z)
  then show ?case using step_ok assms(3) by blast
qed

section \<open>Properties\<close>


lemma demo_gets:
  "gets_step\<^sup>*\<^sup>* (\<lparr>lz_gen = 1, lz_provider = 7, lz_cache = None, lz_locked = False, lz_builds = []\<rparr>, [])
    (\<lparr>lz_gen = 1, lz_provider = 7, lz_cache = None, lz_locked = True, lz_builds = []\<rparr>, [GetHolding 1, GetLoaded 1])"
proof -
  let ?z = "\<lambda>l. \<lparr>lz_gen = 1, lz_provider = 7, lz_cache = None, lz_locked = l, lz_builds = []\<rparr> :: lazy_state"
  have c: "gets_step (?z False, []) (?z False, [GetCalled])"
    using gets_step.call [of "?z False" "[]"] by simp
  have c2: "gets_step (?z False, [GetCalled]) (?z False, [GetCalled, GetCalled])"
    using gets_step.call [of "?z False" "[GetCalled]"] by simp
  have t1: "gets_step (?z False, [GetCalled, GetCalled]) (?z False, [GetLoaded 1, GetCalled])"
    using gets_step.turn [of 0 "[GetCalled, GetCalled]" "?z False"] by simp
  have t2: "gets_step (?z False, [GetLoaded 1, GetCalled]) (?z False, [GetLoaded 1, GetLoaded 1])"
    using gets_step.turn [of 1 "[GetLoaded 1, GetCalled]" "?z False"] by simp
  have t3: "gets_step (?z False, [GetLoaded 1, GetLoaded 1]) (?z False, [GetWaiting 1, GetLoaded 1])"
    using gets_step.turn [of 0 "[GetLoaded 1, GetLoaded 1]" "?z False"] by simp
  have t4: "gets_step (?z False, [GetWaiting 1, GetLoaded 1]) (?z True, [GetHolding 1, GetLoaded 1])"
    using gets_step.turn [of 0 "[GetWaiting 1, GetLoaded 1]" "?z False"] by simp
  show ?thesis using c c2 t1 t2 t3 t4 by (meson converse_rtranclp_into_rtranclp rtranclp.rtrancl_refl)
qed


text \<open>
  A \<open>get\<close> that falls between the two halves of a \<open>Start\<close> caches instruments of the old provider
  under the new generation, and later \<open>get\<close>s keep returning them.
\<close>

theorem instruments_may_stay_stale:
  assumes "\<not> lz_locked z" and "lz_cache z = None"
  shows "\<exists>z1 z2 z3. start_step z z1 \<and> gets_step\<^sup>*\<^sup>* (z1, []) (z2, [GetReturned (lz_provider z)]) \<and>
    start_step z2 z3 \<and> lz_provider z3 = v \<and>
    gets_step\<^sup>*\<^sup>* (z3, [GetReturned (lz_provider z)]) (z3, [GetReturned (lz_provider z), GetReturned (lz_provider z)])"
proof -
  let ?g = "lz_gen z + 1" and ?w = "lz_provider z"
  let ?z1 = "z\<lparr>lz_gen := ?g\<rparr>"
  let ?z2 = "z\<lparr>lz_gen := ?g, lz_builds := lz_builds z @ [?g], lz_cache := Some (?g, ?w), lz_locked := False\<rparr>"
  let ?z3 = "?z2\<lparr>lz_provider := v\<rparr>"
  let ?R = "GetReturned ?w"
  have t: "gets_step (y, [a]) (y', [b])" if "get_turn a y = Some (b, y')" for y y' a b
    using gets_step.turn [of 0 "[a]" y b y'] that by simp
  have call: "gets_step (y, ps) (y, ps @ [GetCalled])" for y ps by (rule gets_step.call)
  have s1: "gets_step (?z1, []) (?z1, [GetCalled])" using call [of ?z1 "[]"] by simp
  have s2: "gets_step (?z1, [GetCalled]) (?z1, [GetLoaded ?g])" by (rule t) simp
  have s3: "gets_step (?z1, [GetLoaded ?g]) (?z1, [GetWaiting ?g])" by (rule t) (simp add: assms)
  have s4: "gets_step (?z1, [GetWaiting ?g]) (?z1\<lparr>lz_locked := True\<rparr>, [GetHolding ?g])"
    by (rule t) (simp add: assms)
  have s5: "gets_step (?z1\<lparr>lz_locked := True\<rparr>, [GetHolding ?g])
      (?z1\<lparr>lz_locked := True, lz_builds := lz_builds z @ [?g]\<rparr>, [GetBuilt ?g ?w])"
    by (rule t) (simp add: assms)
  have s6: "gets_step (?z1\<lparr>lz_locked := True, lz_builds := lz_builds z @ [?g]\<rparr>, [GetBuilt ?g ?w]) (?z2, [?R])"
    by (rule t) simp
  have built: "gets_step\<^sup>*\<^sup>* (?z1, []) (?z2, [?R])"
    using s1 s2 s3 s4 s5 s6 by (meson converse_rtranclp_into_rtranclp rtranclp.rtrancl_refl)
  have u1: "gets_step (?z3, [?R]) (?z3, [?R, GetCalled])" using call [of ?z3 "[?R]"] by simp
  have u2: "gets_step (?z3, [?R, GetCalled]) (?z3, [?R, GetLoaded ?g])"
    using gets_step.turn [of 1 "[?R, GetCalled]" ?z3] by simp
  have u3: "gets_step (?z3, [?R, GetLoaded ?g]) (?z3, [?R, ?R])"
    using gets_step.turn [of 1 "[?R, GetLoaded ?g]" ?z3] by simp
  have again: "gets_step\<^sup>*\<^sup>* (?z3, [?R]) (?z3, [?R, ?R])"
    using u1 u2 u3 by (meson converse_rtranclp_into_rtranclp rtranclp.rtrancl_refl)
  show ?thesis
    by (intro exI [of _ ?z1] exI [of _ ?z2] exI [of _ ?z3] conjI start_step.bump start_step.set_provider
        built again) simp
qed

lemma resolve_scope_usable: "resolve_scope env s \<noteq> []" "CHR ''/'' \<notin> set (resolve_scope env s)"
  by (auto simp: resolve_scope_def default_scope_def Let_def)

text \<open>
  The log stream of a client can be browsed: the scope is never empty and has no slash,
  whatever the options and the environment are, so it is the name of a stream a path leads to, and
  resolving it again changes nothing.
\<close>

theorem scope_names_a_stream:
  assumes "slash_free ns" and "slash_free svc" and "ns \<noteq> []" and "svc \<noteq> []"
  shows "stream_wf \<lparr>sid_namespace = ns, sid_service = svc, sid_kind = Logs, sid_name = resolve_scope env s\<rparr> \<and>
    resolve_scope env (resolve_scope env s) = resolve_scope env s"
proof -
  let ?f = "map (\<lambda>c. if c = CHR ''/'' then CHR ''-'' else c)"
  note nonempty = resolve_scope_usable(1) [of env s] and free = resolve_scope_usable(2) [of env s]
  then have "?f (resolve_scope env s) = resolve_scope env s" by (intro map_idI) auto
  then have "resolve_scope env (resolve_scope env s) = resolve_scope env s"
    using nonempty by (simp add: resolve_scope_def [of env "resolve_scope env s"])
  then show ?thesis using assms nonempty free by (simp add: stream_wf_def slash_free_def)
qed

theorem scope_names_a_stream_witness:
  "resolve_scope [''OTEL_SERVICE_NAME'' \<mapsto> ''iam/api''] [] = ''iam-api'' \<and>
    stream_wf \<lparr>sid_namespace = ''iam'', sid_service = ''api'', sid_kind = Logs,
      sid_name = resolve_scope [''OTEL_SERVICE_NAME'' \<mapsto> ''iam/api''] []\<rparr>"
proof
  show "stream_wf \<lparr>sid_namespace = ''iam'', sid_service = ''api'', sid_kind = Logs,
      sid_name = resolve_scope [''OTEL_SERVICE_NAME'' \<mapsto> ''iam/api''] []\<rparr>"
    using scope_names_a_stream [of "''iam''" "''api''" "[''OTEL_SERVICE_NAME'' \<mapsto> ''iam/api'']" "[]"]
    by (simp add: slash_free_def)
  show "resolve_scope [''OTEL_SERVICE_NAME'' \<mapsto> ''iam/api''] [] = ''iam-api''"
    by (simp add: resolve_scope_def getenv_def)
qed

lemma create_counters_lookup:
  assumes "create_counters create prefix names cs = Inr cs'"
  shows "cs' name = (if name \<in> set names then Some (projr (create (prefix @ ''.'' @ name))) else cs name) \<and>
    list_all (\<lambda>n. n \<noteq> [] \<and> \<not> isl (create (prefix @ ''.'' @ n))) names"
  using assms
proof (induction names arbitrary: cs)
  case Nil
  then show ?case by simp
next
  case (Cons n names)
  then obtain c where c: "n \<noteq> []" "create (prefix @ ''.'' @ n) = Inr c"
    and rest: "create_counters create prefix names (cs(n \<mapsto> c)) = Inr cs'"
    by (auto split: if_splits sum.splits)
  show ?case using Cons.IH [OF rest] c by simp
qed

text \<open>
  A counter set counts by name: after it was made, every name it was made with has a counter of
  its own (if the meter gives different instruments different counters), an \<open>Add\<close> changes the
  count of its name only and by its amount, and one of an unknown name, or on no set, changes
  nothing.
\<close>

theorem counter_set_counts_by_name:
  assumes "new_counter_set create prefix names = Inr cs"
    and "\<And>m n c d. create m = Inr c \<Longrightarrow> create n = Inr d \<Longrightarrow> c = d \<Longrightarrow> m = n"
    and "m \<in> set names"
  shows "counter_set_add (Some cs) n k counts (the (cs m)) = counts (the (cs m)) + (if m = n then k else 0) \<and>
    (cs n = None \<longleftrightarrow> n \<notin> set names) \<and> counter_set_add None n k counts = counts \<and>
    list_all (\<lambda>x. x \<noteq> []) names \<and> prefix \<noteq> []"
proof -
  have cs: "create_counters create prefix names Map.empty = Inr cs" "prefix \<noteq> []"
    using assms(1) by (simp_all add: new_counter_set_def split: if_splits)
  have look: "cs x = (if x \<in> set names then Some (projr (create (prefix @ ''.'' @ x))) else None)" for x
    using create_counters_lookup [OF cs(1), of x] by simp
  have made: "list_all (\<lambda>n. n \<noteq> [] \<and> \<not> isl (create (prefix @ ''.'' @ n))) names"
    using create_counters_lookup [OF cs(1)] by blast
  have own: "x = y" if that: "x \<in> set names" "y \<in> set names"
    "projr (create (prefix @ ''.'' @ x)) = projr (create (prefix @ ''.'' @ y))" for x y
  proof -
    have "\<not> isl (create (prefix @ ''.'' @ x))" "\<not> isl (create (prefix @ ''.'' @ y))"
      using made that(1,2) by (simp_all add: list_all_iff)
    then obtain c d where "create (prefix @ ''.'' @ x) = Inr c" "create (prefix @ ''.'' @ y) = Inr d"
      by (metis sum.collapse(2))
    then show ?thesis using assms(2) [of "prefix @ ''.'' @ x" c "prefix @ ''.'' @ y" d] that(3) by simp
  qed
  show ?thesis
    using cs(2) made own [OF assms(3), of n] assms(3)
    by (auto simp: counter_set_add_def look list_all_iff)
qed

theorem counter_set_counts_by_name_witness:
  "\<exists>cs. new_counter_set (\<lambda>s. Inr s :: unit + string) ''rejects'' [''size'', ''auth''] = Inr cs \<and>
    counter_set_add (Some cs) ''auth'' 3 (\<lambda>_. 1) (the (cs ''size'')) = 1 \<and>
    counter_set_add (Some cs) ''auth'' 3 (\<lambda>_. 1) (the (cs ''auth'')) = 4"
proof -
  obtain cs where cs: "new_counter_set (\<lambda>s. Inr s :: unit + string) ''rejects'' [''size'', ''auth''] = Inr cs"
    by (simp add: new_counter_set_def)
  have "counter_set_add (Some cs) ''auth'' 3 (\<lambda>_. 1) (the (cs m)) = 1 + (if m = ''auth'' then 3 else 0)"
    if "m \<in> set [''size'', ''auth'']" for m
    using counter_set_counts_by_name [OF cs _ that, of "''auth''" 3 "\<lambda>_. 1"] by simp
  from this [of "''size''"] this [of "''auth''"] cs show ?thesis by auto
qed

end
