(* ===== verification/Log_Path.thy ===== *)
theory Log_Path
  imports Client_Setup Otlp Memstore
begin

text \<open>
  The way of a log line, across the components: a service logs through the client's fan-out, the
  OTLP exporter sends what the bridge emitted, the receiver decodes it, the ingester stores it, and
  \<open>cat\<close> shows it under the path the scope names. The exporter is not code of this repository:
  \<open>exported_as\<close> states what it is documented to do, put each record into a message with its
  severity text, its body as a string, and its time.
\<close>

section \<open>The message of an exporter\<close>

definition carries :: "'o log_record \<Rightarrow> otel_record \<Rightarrow> bool" where
  "carries lr rec \<longleftrightarrow> lr_text lr = ol_severity_text rec \<and> lr_body lr = Some (StringValue (ol_body rec)) \<and>
     lr_time lr \<noteq> 0 \<and> time_unix_nano (lr_time lr) = ol_time rec"

definition exported_as :: "string \<Rightarrow> string \<Rightarrow> string \<Rightarrow> otel_record list \<Rightarrow> 'o resource_logs \<Rightarrow> bool" where
  "exported_as ns svc scope recs rl \<longleftrightarrow> identity (rs_resource rl) = (ns, svc) \<and>
     (\<exists>lrs. rs_scopes rl = [\<lparr>sl_scope = Some scope, sl_records = lrs\<rparr>] \<and> list_all2 carries lrs recs)"

section \<open>The sink of a system of record\<close>

definition budgeted :: "(streams \<Rightarrow> stream_id list) \<Rightarrow> budget \<Rightarrow> store option sink" where
  \<comment> \<open>None after a panic\<close>
  "budgeted rng b i s acc =
     (case acc of None \<Rightarrow> None | Some st \<Rightarrow> ingester_ingest store_append store_count (store_drop_oldest rng) b i s st)"

section \<open>What a logger writes\<close>

definition log_through :: "(string \<Rightarrow> string) \<Rightarrow> time \<times> time \<Rightarrow> bridge fanout \<Rightarrow> slog_record list \<Rightarrow> otel_record list" where
  "log_through q now f rs =
     fold (\<lambda>r w. snd (fanout_handle (bridge_ops q now :: (_, _, unit) slog_handler) f r w)) rs []"

definition line_sample :: "(string \<Rightarrow> string) \<Rightarrow> (string \<Rightarrow> bool) \<Rightarrow> derivation list \<Rightarrow> slog_record \<Rightarrow> sample" where
  \<comment> \<open>severity, message and redacted attributes of a record with a time\<close>
  "line_sample q re ds r =
     \<lparr>smp_time = rec_time r,
      smp_value = snd (level_severity (rec_level r)) @ '' '' @ rec_msg r @ concat (map (render_leaf q)
        (map (redact_leaf re) (attached [] ds @ concat (map (leaves (open_prefix [] ds)) (rec_attrs r))))),
      smp_unit = []\<rparr>"

section \<open>Lemmas\<close>

lemma level_severity_text: "snd (level_severity l) \<noteq> []"
  by (simp add: level_severity_def)

definition emitted :: "(string \<Rightarrow> string) \<Rightarrow> time \<times> time \<Rightarrow> (string \<Rightarrow> bool) \<Rightarrow> derivation list \<Rightarrow> slog_record \<Rightarrow> otel_record" where
  "emitted q now re ds r =
     \<lparr>ol_time = (if time_is_zero (rec_time r) then fst now else rec_time r),
      ol_observed = snd now, ol_severity = fst (level_severity (rec_level r)),
      ol_severity_text = snd (level_severity (rec_level r)),
      ol_body = rec_msg r @ concat (map (render_leaf q)
        (map (redact_leaf re) (attached [] ds @ concat (map (leaves (open_prefix [] ds)) (rec_attrs r)))))\<rparr>"

lemma log_through_eq:
  "log_through q now (fanout_derived (bridge_ops q now :: (_, _, unit) slog_handler) ds (new_fanout re [new_bridge])) rs =
    map (emitted q now re ds) rs"
proof -
  have "fold (\<lambda>r w. snd (fanout_handle (bridge_ops q now :: (_, _, unit) slog_handler)
      (fanout_derived (bridge_ops q now :: (_, _, unit) slog_handler) ds (new_fanout re [new_bridge])) r w)) rs w =
      w @ map (emitted q now re ds) rs" for w
    by (induction rs arbitrary: w) (simp_all only: fold.simps list.map bridge_logs_line snd_conv emitted_def comp_apply id_apply append_Nil2 append_assoc append.simps)
  from this [of "[]"] show ?thesis by (simp add: log_through_def)
qed

lemma carried_sample:
  assumes "carries lr (emitted q now re ds r)" and "rec_time r \<noteq> 0"
  shows "record_sample t js lr = line_sample q re ds r"
  using assms level_severity_text [of "rec_level r"]
  by (simp add: carries_def emitted_def record_sample_def line_sample_def log_line_def severity_def time_is_zero_def)

lemma carried_samples:
  "list_all2 carries lrs (map (emitted q now re ds) rs) \<Longrightarrow> list_all (\<lambda>r. rec_time r \<noteq> 0) rs \<Longrightarrow>
    map (record_sample t js) lrs = map (line_sample q re ds) rs"
proof (induction rs arbitrary: lrs)
  case (Cons r rs)
  then obtain lr lrs' where "lrs = lr # lrs'" "carries lr (emitted q now re ds r)"
    "list_all2 carries lrs' (map (emitted q now re ds) rs)" by (auto simp: list_all2_Cons2)
  with Cons show ?case by (simp add: carried_sample)
qed simp

lemma ingest_with_room:
  assumes "store_inv st" and "max_samples b \<le> 0 \<or> store_count st < max_samples b"
  shows "ingester_ingest store_append store_count (store_drop_oldest rng) b i s st = Some (store_append i s st)"
proof -
  have "store_count (store_append i s st) = store_count st + 1"
    by (rule ordered.ss.count_append [OF assms(1)])
  with assms(2) show ?thesis by (auto simp: ingester_ingest_def excess_def Let_def)
qed

lemma ingest_all_with_room:
  assumes "store_inv st" and "max_samples b \<le> 0 \<or> store_count st + int (length xs) \<le> max_samples b"
  shows "\<exists>st'. ingest_samples (budgeted rng b) (map (Pair i) xs) (Some st) = Some st' \<and> store_inv st' \<and>
    mset (contents st' i) = mset (contents st i) + mset xs \<and> (\<forall>j. j \<noteq> i \<longrightarrow> contents st' j = contents st j)"
  using assms
proof (induction xs arbitrary: st)
  case (Cons x xs)
  have room: "max_samples b \<le> 0 \<or> store_count st < max_samples b" using Cons.prems(2) by auto
  have inv: "store_inv (store_append i x st)" by (rule store_append_inv [OF Cons.prems(1)])
  have "store_count (store_append i x st) = store_count st + 1" by (rule ordered.ss.count_append [OF Cons.prems(1)])
  then have "max_samples b \<le> 0 \<or> store_count (store_append i x st) + int (length xs) \<le> max_samples b"
    using Cons.prems(2) by auto
  from Cons.IH [OF inv this] show ?case
    by (auto simp: budgeted_def ingest_with_room [OF Cons.prems(1) room] contents_append [OF Cons.prems(1)]
        log_insert_apply mset_insert_sample)
qed simp

section \<open>Properties\<close>

text \<open>
  C8: What a service logs is what \<open>cat\<close> shows: with room in the budget, the records written
  through a derived logger are held after the export under the path of namespace, service and
  scope, oldest first, each as one line of severity, message and attributes with the secrets
  redacted, beside what was there, and no other stream has changed.
\<close>

theorem log_lines_reach_cat:
  assumes "store_inv st" and "max_samples b \<le> 0 \<or> store_count st + int (length rs) \<le> max_samples b"
    and "exported_as ns svc (resolve_scope env s)
      (log_through q now (fanout_derived (bridge_ops q now :: (_, _, unit) slog_handler) ds (new_fanout re [new_bridge])) rs) rl"
    and "slash_free ns" "slash_free svc" "ns \<noteq> []" "svc \<noteq> []" "rs \<noteq> []" "list_all (\<lambda>r. rec_time r \<noteq> 0) rs"
  shows "\<exists>st' ss. receive_logs (budgeted rng b) (Pair t) js [rl] (Some st) = Some st' \<and>
    browser_cat store_samples st' (''/'' @ ns @ ''/'' @ svc @ ''/logs/'' @ resolve_scope env s @ ''.dat'') = Inr ss \<and>
    sorted (map smp_time ss) \<and>
    (let i = \<lparr>sid_namespace = ns, sid_service = svc, sid_kind = Logs, sid_name = resolve_scope env s\<rparr> in
      mset ss = mset (contents st i) + mset (map (line_sample q re ds) rs) \<and>
      (\<forall>j. j \<noteq> i \<longrightarrow> contents st' j = contents st j))"
proof -
  let ?i = "\<lparr>sid_namespace = ns, sid_service = svc, sid_kind = Logs, sid_name = resolve_scope env s\<rparr>"
  obtain lrs where lrs: "identity (rs_resource rl) = (ns, svc)"
    "rs_scopes rl = [\<lparr>sl_scope = Some (resolve_scope env s), sl_records = lrs\<rparr>]"
    "list_all2 carries lrs (map (emitted q now re ds) rs)"
    using assms(3) unfolding exported_as_def log_through_eq by blast
  have "logs_samples t js [rl] = map (Pair ?i) (map (record_sample t js) lrs)"
    by (simp add: logs_samples_def lrs scope_stream_def resolve_scope_usable Let_def)
  also have "\<dots> = map (Pair ?i) (map (line_sample q re ds) rs)"
    by (simp only: carried_samples [OF lrs(3) assms(9)])
  finally have samples: "logs_samples t js [rl] = map (Pair ?i) (map (line_sample q re ds) rs)" .
  have clock: "still_clock (Pair t) t" by (simp add: still_clock_def)
  obtain st' where st': "receive_logs (budgeted rng b) (Pair t) js [rl] (Some st) = Some st'" "store_inv st'"
    "mset (contents st' ?i) = mset (contents st ?i) + mset (map (line_sample q re ds) rs)"
    "\<forall>j. j \<noteq> ?i \<longrightarrow> contents st' j = contents st j"
    using ingest_all_with_room [OF assms(1), of b "map (line_sample q re ds) rs" rng ?i] assms(2)
    by (auto simp: still_clock.logs_eq [OF clock] samples)
  have wf: "stream_wf ?i" using assms(4-7) resolve_scope_usable [of env s] by (simp add: stream_wf_def slash_free_def)
  have path: "path_string (stream_path ?i) = ''/'' @ ns @ ''/'' @ svc @ ''/logs/'' @ resolve_scope env s @ ''.dat''"
    using assms(6,7) resolve_scope_usable(1) [of env s] by (simp add: path_string_def stream_path_def dat_suffix_def)
  have "mset (contents st' ?i) \<noteq> {#}" using assms(8) st'(3) by simp
  then have "browser_cat store_samples st' (path_string (stream_path ?i)) = Inr (contents st' ?i)"
    by (simp only: ordered.rs.cat_stream [OF st'(2) wf] mset_zero_iff if_False)
  moreover have "sorted (map smp_time (contents st' ?i))"
    by (rule store_inv_contents_sorted [OF st'(2)])
  ultimately show ?thesis using st' unfolding path Let_def by blast
qed

definition demo_record :: slog_record where
  "demo_record = add_attrs [(''token'', Scalar ''s3cret'')] (new_record (time_unix_nano 1) 4 ''slow'' 0)"

definition demo_export :: "unit resource_logs" where
  "demo_export = \<lparr>rs_resource = Some [\<lparr>kv_key = ''service.namespace'', kv_value = Some (StringValue ''iam'')\<rparr>,
       \<lparr>kv_key = ''service.name'', kv_value = Some (StringValue ''api'')\<rparr>],
     rs_scopes = [\<lparr>sl_scope = Some ''web'', sl_records =
       [\<lparr>lr_time = 1, lr_observed = 0, lr_number = 13, lr_text = ''WARN'',
         lr_body = Some (StringValue ''slow token=[REDACTED]'')\<rparr>]\<rparr>]\<rparr>"

theorem log_lines_reach_cat_witness:
  "\<exists>st' ss. receive_logs (budgeted ascending_keys \<lparr>max_samples = 10\<rparr>) (Pair 9) (\<lambda>_. []) [demo_export] (Some new_store) = Some st' \<and>
    browser_cat store_samples st' ''/iam/api/logs/web.dat'' = Inr ss \<and>
    ss = [\<lparr>smp_time = time_unix_nano 1, smp_value = ''WARN slow token=[REDACTED]'', smp_unit = []\<rparr>]"
proof -
  let ?re = "\<lambda>k. k = ''token''"
  have scope: "resolve_scope Map.empty ''web'' = ''web''" by (simp add: resolve_scope_def)
  have line: "line_sample id ?re [] demo_record =
      \<lparr>smp_time = time_unix_nano 1, smp_value = ''WARN slow token=[REDACTED]'', smp_unit = []\<rparr>" by code_simp
  have "exported_as ''iam'' ''api'' ''web'' (map (emitted id (7, 8) ?re []) [demo_record]) demo_export"
  proof -
    have "identity (rs_resource demo_export) = (''iam'', ''api'')" by code_simp
    moreover have "ol_severity_text (emitted id (7, 8) ?re [] demo_record) = ''WARN''"
      "ol_body (emitted id (7, 8) ?re [] demo_record) = ''slow token=[REDACTED]''"
      "ol_time (emitted id (7, 8) ?re [] demo_record) = time_unix_nano 1" by code_simp+
    ultimately show ?thesis by (simp add: exported_as_def demo_export_def carries_def)
  qed
  then have sent: "exported_as ''iam'' ''api'' (resolve_scope Map.empty ''web'') (log_through id (7, 8)
      (fanout_derived (bridge_ops id (7, 8) :: (_, _, unit) slog_handler) [] (new_fanout ?re [new_bridge])) [demo_record]) demo_export"
    unfolding log_through_eq scope .
  have "contents new_store i = []" for i by (simp add: contents_def new_store_def)
  moreover have "rec_time demo_record \<noteq> 0" by code_simp
  moreover have "store_count new_store = 0" by (simp add: store_count_def new_store_def)
  ultimately show ?thesis
    using log_lines_reach_cat [OF store_inv_new _ sent, of "\<lparr>max_samples = 10\<rparr>" ascending_keys 9 "\<lambda>_. []"]
    by (simp add: scope line slash_free_def Let_def) blast
qed

end
