(* ===== verification/Test_Receiver.thy ===== *)
theory Test_Receiver
  imports Otlp_Http "HOL-Library.List_Lexorder"
begin

text \<open>
  \<open>client/clienttest/receiver.go\<close>: the recording sink clients are tested against. It keeps every
  sample under the printed path of its stream, in order of arrival; each operation is one step under
  its mutex. The loop of \<open>Wait\<close> polls a receiver that others write to meanwhile: \<open>polls k\<close> is
  what the \<open>k\<close>-th poll finds and the clock it reads, and the fuel bounds the number of polls.
  \<open>receiver_server\<close> is the handler of the test server; its listener is not modelled.
\<close>

section \<open>The receiver\<close>

type_synonym receiver = "string \<rightharpoonup> sample list"

definition new_receiver :: receiver where
  "new_receiver = Map.empty"

definition receiver_samples :: "receiver \<Rightarrow> string \<Rightarrow> sample list" where
  "receiver_samples rc p = (case rc p of None \<Rightarrow> [] | Some xs \<Rightarrow> xs)"

definition receiver_ingest :: "receiver sink" where
  "receiver_ingest i s rc =
     (let p = path_string (stream_path i) in rc(p \<mapsto> receiver_samples rc p @ [s]))"

definition receiver_server :: "'o otlp_codec \<Rightarrow> time \<Rightarrow> receiver handler" where
  \<comment> \<open>the OTLP receiver over the recording sink; \<open>now\<close> is what the clock shows meanwhile\<close>
  "receiver_server codec now = otlp_handler codec (\<lambda>i s rc. Some (receiver_ingest i s rc)) (Pair now)"

definition receiver_streams :: "(receiver \<Rightarrow> string list) \<Rightarrow> receiver \<Rightarrow> string list" where
  \<comment> \<open>\<open>visit\<close> is the order in which the map is visited\<close>
  "receiver_streams visit rc = sort (visit rc)"

definition receiver_reset :: "receiver \<Rightarrow> receiver" where
  "receiver_reset rc = Map.empty"

fun receiver_wait :: "nat \<Rightarrow> string \<Rightarrow> int \<Rightarrow> time \<Rightarrow> (nat \<Rightarrow> receiver \<times> time) \<Rightarrow> nat \<Rightarrow> sample list option" where
  "receiver_wait 0 p n deadline polls k = None"
| "receiver_wait (Suc fuel) p n deadline polls k =
     (case polls k of (rc, now) \<Rightarrow>
        let xs = receiver_samples rc p in
        if n \<le> int (length xs) \<or> time_before deadline now then Some xs
        else receiver_wait fuel p n deadline polls (Suc k))"

section \<open>Lemmas\<close>

definition samples_at :: "string \<Rightarrow> samples \<Rightarrow> sample list" where
  "samples_at p xs = map snd (filter (\<lambda>(i, s). path_string (stream_path i) = p) xs)"

lemma receiver_samples_ingest:
  "receiver_samples (receiver_ingest i s rc) p =
    receiver_samples rc p @ (if path_string (stream_path i) = p then [s] else [])"
  by (simp add: receiver_ingest_def receiver_samples_def Let_def)

lemma receiver_samples_all:
  "receiver_samples (ingest_samples receiver_ingest xs rc) p = receiver_samples rc p @ samples_at p xs"
  by (induction xs arbitrary: rc) (auto simp: samples_at_def receiver_samples_ingest)

lemma dom_receiver_all:
  "dom (ingest_samples receiver_ingest xs rc) = dom rc \<union> (\<lambda>(i, s). path_string (stream_path i)) ` set xs"
proof (induction xs arbitrary: rc)
  case (Cons x xs)
  obtain i s where x: "x = (i, s)" by (cases x)
  have "dom (receiver_ingest i s rc) = insert (path_string (stream_path i)) (dom rc)"
    by (simp add: receiver_ingest_def Let_def)
  then show ?case by (simp add: x Cons.IH)
qed simp

lemma receiver_wait_returns:
  assumes "\<And>k. snd (polls k) + 10 ^ 7 \<le> snd (polls (Suc k))"
    and "deadline < snd (polls k) + 10 ^ 7 * int fuel"
  shows "\<exists>j\<ge>k. receiver_wait (Suc fuel) p n deadline polls k = Some (receiver_samples (fst (polls j)) p) \<and>
    (n \<le> int (length (receiver_samples (fst (polls j)) p)) \<or> deadline < snd (polls j))"
  using assms(2)
proof (induction fuel arbitrary: k)
  case 0
  then show ?case by (intro exI [of _ k]) (auto simp: case_prod_beta Let_def time_before_def)
next
  case (Suc fuel)
  show ?case
  proof (cases "n \<le> int (length (receiver_samples (fst (polls k)) p)) \<or> deadline < snd (polls k)")
    case True
    then show ?thesis by (intro exI [of _ k]) (auto simp: case_prod_beta Let_def time_before_def)
  next
    case False
    have "deadline < snd (polls (Suc k)) + 10 ^ 7 * int fuel"
      using Suc.prems assms(1) [of k] by simp
    from Suc.IH [OF this] obtain j where "j \<ge> Suc k"
      "receiver_wait (Suc fuel) p n deadline polls (Suc k) = Some (receiver_samples (fst (polls j)) p)"
      "n \<le> int (length (receiver_samples (fst (polls j)) p)) \<or> deadline < snd (polls j)" by blast
    moreover have "receiver_wait (Suc (Suc fuel)) p n deadline polls k = receiver_wait (Suc fuel) p n deadline polls (Suc k)"
      using False by (simp add: case_prod_beta Let_def time_before_def)
    ultimately show ?thesis by (intro exI [of _ j]) simp
  qed
qed

section \<open>Properties\<close>

text \<open>
  The test receiver records what a client sends: after a request to its server, the samples under a
  path are the ones it held before and then exactly the samples of the message whose stream prints
  as that path, in the order of the message, and the paths listed are those and the ones before,
  sorted, whatever order the map is visited in. A request that is no accepted export leaves it as it was.
\<close>

theorem receiver_records_request:
  assumes "finite (dom rc)" and "\<And>rc. finite (dom rc) \<Longrightarrow> set (visit rc) = dom rc \<and> distinct (visit rc)"
  shows "\<exists>reply rc'. receiver_server codec t r rc = Some (reply, rc') \<and>
    receiver_samples rc' p = receiver_samples rc p @ samples_at p (request_samples codec t r) \<and>
    (let ls = receiver_streams visit rc' in
      set ls = dom rc \<union> (\<lambda>(i, s). path_string (stream_path i)) ` set (request_samples codec t r) \<and>
      sorted ls \<and> distinct ls)"
proof -
  let ?rc = "ingest_samples receiver_ingest (request_samples codec t r) rc"
  obtain reply where "receiver_server codec t r rc = Some (reply, ?rc)"
    using otlp_handler_eq [of codec "\<lambda>i s rc. Some (receiver_ingest i s rc)" t r rc]
    by (auto simp: receiver_server_def try_total)
  moreover have "finite (dom ?rc)" using assms(1) by (simp add: dom_receiver_all)
  from assms(2) [OF this] have "set (receiver_streams visit ?rc) = dom ?rc" "distinct (receiver_streams visit ?rc)"
    "sorted (receiver_streams visit ?rc)" by (simp_all add: receiver_streams_def)
  ultimately show ?thesis by (simp add: receiver_samples_all dom_receiver_all)
qed

text \<open>
  \<open>Wait\<close> always returns: with a sleep of at least ten milliseconds between two polls it takes at
  most one poll per ten milliseconds of the timeout and two more, and it returns what the receiver
  holds at its last poll, at least \<open>n\<close> samples if the deadline has not passed.
\<close>

theorem wait_always_returns:
  assumes "\<And>k. snd (polls k) + 10 ^ 7 \<le> snd (polls (Suc k))" and "start \<le> snd (polls 0)" and "0 \<le> sint timeout"
  shows "\<exists>k. receiver_wait (nat (sint timeout) div 10 ^ 7 + 2) p n (time_add start timeout) polls 0 =
      Some (receiver_samples (fst (polls k)) p) \<and>
    (n \<le> int (length (receiver_samples (fst (polls k)) p)) \<or> start + sint timeout < snd (polls k))"
proof -
  have "x < 10000000 * (x div 10000000 + 1)" for x :: int by presburger
  then have "sint timeout < 10 ^ 7 * (sint timeout div 10 ^ 7 + 1)" by simp
  moreover have "int (nat (sint timeout) div 10 ^ 7) = sint timeout div 10 ^ 7"
    using assms(3) by (simp add: nat_div_distrib)
  ultimately have "time_add start timeout < snd (polls 0) + 10 ^ 7 * int (nat (sint timeout) div 10 ^ 7 + 1)"
    using assms(2) by (simp add: time_add_def)
  from receiver_wait_returns [OF assms(1) this] show ?thesis by (auto simp: time_add_def numeral_2_eq_2)
qed

theorem receiver_records_request_witness:
  "\<exists>reply rc. receiver_server demo_codec 5 demo_post new_receiver = Some (reply, rc) \<and>
    receiver_samples rc ''/default/api/metrics/m.dat'' = [\<lparr>smp_time = 5, smp_value = ''7'', smp_unit = ''By''\<rparr>]"
proof -
  have "samples_at ''/default/api/metrics/m.dat'' (request_samples demo_codec 5 demo_post) =
      [\<lparr>smp_time = 5, smp_value = ''7'', smp_unit = ''By''\<rparr>]"
    by code_simp
  moreover have "receiver_samples new_receiver p = []" for p by (simp add: receiver_samples_def new_receiver_def)
  moreover have "set (ascending_keys rc) = dom rc \<and> distinct (ascending_keys rc)" if "finite (dom rc)" for rc :: receiver
    using that by (simp add: ascending_keys_def)
  ultimately show ?thesis
    using receiver_records_request [of new_receiver ascending_keys demo_codec 5 demo_post
        "''/default/api/metrics/m.dat''"]
    by (auto simp: new_receiver_def)
qed

theorem wait_always_returns_witness:
  "receiver_wait 3 ''p'' 1 (time_add 10 0) (\<lambda>k. (new_receiver, 10 + 20000000 * int k)) 0 = Some []"
  using wait_always_returns [of "\<lambda>k. (new_receiver, 10 + 20000000 * int k)" 10 0 "''p''" 1]
  by (auto simp: new_receiver_def receiver_samples_def receiver_wait.simps(2) numeral_2_eq_2 Let_def time_before_def time_add_def numeral_3_eq_3)

end
