(* ===== verification/Spec2Isabelle.thy ===== *)
theory Spec2Isabelle
  imports Sor_Main Sample_Main Ingest_Concurrent Alerter_Concurrent Client_Rpc Client_Http Log_Path Test_Receiver
begin

text \<open>
  OTel Lite: a small system of record for OpenTelemetry metrics and logs, written in Go, with a
  command line, a client library and a traffic simulator. This is the root of its verification
  library; every other theory models one part of the code and opens with what it holds.

  The program. Services export OTLP over HTTP (\<open>internal/adapter/otlp\<close>). Each sample goes to
  the \<open>tee\<close> of \<open>cmd/sor/main.go\<close>: it is stored within a budget
  (\<open>usecase/ingest.go\<close> over \<open>adapter/memstore\<close>), published to live clients
  (\<open>usecase/feed.go\<close>) and shown to the alert rules (\<open>usecase/alert.go\<close> over the monitors of
  \<open>domain/alert.go\<close>), whose notifications go to Slack (\<open>adapter/slack\<close>) and to the feed.
  An evictor forgets what is older than the retention window. What is held is browsed as a virtual
  filesystem (\<open>usecase/browse.go\<close>, paths of \<open>domain/domain.go\<close>) over HTTP
  (\<open>adapter/fsapi\<close>, read by the shell of \<open>cmd/cli\<close>) and over gRPC (\<open>adapter/grpcapi\<close>).
  Alert rules come from \<open>alert.conf\<close> (\<open>adapter/alertconf\<close>). The client library
  (\<open>client\<close>) is what services log and count with.

  Go itself. \<open>Otel_Prelude\<close> has the conventions: a string is a list of bytes, a function that
  may fail returns a sum (\<open>Inl\<close> the error), one that may panic an option (\<open>None\<close> the panic), a
  map is a partial function, and the order a map is visited in is an argument restricted by the locale
  \<open>map_range\<close>. \<open>Go_Strings\<close>, \<open>Go_Time\<close>, \<open>Go_Duration\<close>, \<open>Go_Float\<close>,
  \<open>Float_Exact\<close>, \<open>Float_Text\<close>, \<open>Go_Format\<close>, \<open>Go_Url\<close>, \<open>Go_Http\<close> and \<open>Go_Flag\<close> model the
  parts of the standard library the code uses: durations are 64-bit words, times are integers since
  the zero Time, floats are exact IEEE values rounded in integer arithmetic, a handler is a function
  of a request and a state, the routes of a multiplexer and the flags of a command are tables.

  The system of record.
  \<open>Domain\<close>: kinds, paths, window, budget. The parser accepts exactly the printed forms.
  \<open>Monitor\<close>: operators, rules, the monitor; its state is a function of the history seen.
  \<open>Sample_Log\<close>: the abstract store, a log per stream. \<open>Memstore\<close> implements it
  (\<open>contents\<close> is the abstraction, \<open>store_inv\<close> the invariant).
  \<open>Ingest\<close>, \<open>Browse\<close>: the use cases, over the locales \<open>append_store\<close>, \<open>prune_store\<close>,
  \<open>read_store\<close>, which \<open>Memstore\<close> interprets.
  \<open>Ingest_Concurrent\<close>: the calls of several goroutines, with the three critical sections of
  \<open>Ingest\<close> apart; a measure of three steps a call shows that they end.
  \<open>Feed\<close>: subscribers in a heap with buffered channels. \<open>Alerter\<close>: monitors in a heap shared by
  two tables, and the list of notifiers (locale \<open>notifier\<close>). \<open>Alerter_Concurrent\<close>: \<open>Check\<close>
  and \<open>Observe\<close> calls of several goroutines, the evaluation under the mutex apart from the deliveries
  after it; a call takes at most two steps more than there are rules.
  \<open>Alertconf\<close>, \<open>Otlp\<close>, \<open>Otlp_Http\<close>, \<open>Slack\<close>, \<open>Fsapi\<close>, \<open>Grpcapi\<close>, \<open>Display\<close>,
  \<open>Shell\<close>: the adapters. \<open>Healthcheck\<close>, \<open>Sor\<close>, \<open>Sor_Http\<close>, \<open>Sor_Main\<close>, \<open>Cli\<close>: the
  commands. \<open>Sor\<close> is the whole system as one relation, \<open>sor_run\<close>: samples, rule checks,
  eviction and live clients in any order, each as one step; its theorem rests on the ones of the
  parts. \<open>Sor_Http\<close> is what it serves over HTTP, and shows that a request is a run and that
  the command line at the other end sees the store; \<open>Sor_Main\<close> is the command from its arguments
  to its exit code.

  The client side.
  \<open>Client_Log\<close>: fan-out, redaction, the bridge to OTLP (locale \<open>leaf_sink\<close>), the standard
  log package. \<open>Client_Setup\<close>: configuration, \<open>Start\<close>, lazily built instruments under
  interleaving, counter sets. \<open>Client_Rpc\<close>, \<open>Client_Http\<close>, \<open>Client_Process\<close>: what the
  interceptors, the middleware and the process gauges count. \<open>Test_Receiver\<close>: the recording
  receiver for tests. \<open>Log_Path\<close>: the way of a log line from a logger to \<open>cat\<close>.
  \<open>Sample_App\<close>, \<open>Simulator\<close>, \<open>Sample_Main\<close>: the traffic simulator.

  What the lemmas show. Every component has its invariant with a preservation lemma per operation,
  the result of each operation on every branch, errors included, and, where it has a contract, a
  refinement: of the store to a log, of the alerter to one monitor per rule, of a monitor to the
  history it saw, of the receiver to the samples of a message, of the remote browser and shell to the
  local ones over the store. The theorems of this file combine the store with the use cases.

  Bounds and fuel. Loops are structural or have a measure. \<open>resolve_value\<close> of \<open>Client_Log\<close>
  counts the hundred LogValuers that \<open>log/slog\<close> follows. \<open>receiver_wait\<close> has fuel for the
  polls of \<open>Wait\<close>; \<open>wait_always_returns\<close> shows how much is enough. \<open>walk\<close> goes four
  levels deep, the depth of the filesystem. \<open>http_follow\<close> makes the ten requests after which a
  Go client stops following redirects. \<open>max_token\<close> and \<open>max_body\<close> are the limits of
  the code and its scanner.

  Parameters. Code outside the repository is an argument: protobuf and JSON codecs, the network,
  the environment and files, the regular expressions a user gives, the OpenTelemetry SDK
  (instruments, exporters), time zones, the sine, randomness and clocks. Hypotheses about them are stated in the theorems that need them,
  and each has a witness with a concrete one.

  Not modelled: what the commands log, and the usage text of a flag error; TCP and the framing of HTTP;
  the inside of the SDK pipelines; \<open>Hijack\<close> of the middleware; the
  generated protobuf code apart from the message types; the web user interface, which is not Go.
  Memory exhaustion and data races inside the standard library are outside the model; counters of the
  client library and the sample count are unbounded integers.
\<close>

section \<open>Ingesting and forgetting\<close>

abbreviation sor_ingest :: "(streams \<Rightarrow> stream_id list) \<Rightarrow> budget \<Rightarrow> stream_id \<Rightarrow> sample \<Rightarrow> store \<Rightarrow> store option" where
  "sor_ingest rng \<equiv> ingester_ingest store_append store_count (store_drop_oldest rng)"

lemma log_samples_new: "log_samples (contents new_store) = {#}"
  using log_samples_empty by (simp add: log_samples_def)

text \<open>
  C2: A run of \<open>Ingest\<close> calls on a fresh store with a positive budget never panics, ends
  with \<open>min calls MaxSamples\<close> samples, and those are a newest part of all samples given:
  together with the ones gone they are the samples ingested (as multisets), and no sample gone is
  newer than one held, also when samples arrive out of order.
\<close>

theorem ingest_keeps_newest_samples:
  assumes "streams_range rng" and "0 < max_samples b"
  shows "\<exists>st gone. ingest_all (sor_ingest rng b) xs new_store = Some st \<and> store_inv st \<and>
    store_count st = min (int (length xs)) (max_samples b) \<and>
    mset xs = log_samples (contents st) + gone \<and>
    (\<forall>(i, x)\<in>#gone. \<forall>(j, y)\<in>#log_samples (contents st). smp_time x \<le> smp_time y)"
proof -
  have "store_count new_store = 0" by (simp add: store_count_def new_store_def)
  with assms(2) show ?thesis
    using streams_range.ingest_newest_on_store [OF assms(1) store_inv_new assms(2), of "{#}" "{#}" xs]
    by (simp add: log_samples_new)
qed

theorem ingest_keeps_newest_samples_witness:
  "\<exists>st. ingest_all (sor_ingest ascending_keys \<lparr>max_samples = 2\<rparr>)
      [(demo_id ''a'', demo_sample 3), (demo_id ''b'', demo_sample 1), (demo_id ''a'', demo_sample 2)] new_store =
    Some st \<and> store_count st = 2"
  using ingest_keeps_newest_samples [OF ordered.streams_range_axioms, of "\<lparr>max_samples = 2\<rparr>"
      "[(demo_id ''a'', demo_sample 3), (demo_id ''b'', demo_sample 1), (demo_id ''a'', demo_sample 2)]"]
  by auto

text \<open>
  C31: One pass of the evictor leaves, in every stream, exactly the samples not older than the
  retention window reaches back from now, and returns how many samples it forgot.
\<close>

theorem evictor_applies_retention:
  assumes "streams_range rng" and "store_inv st" and "sint (win_duration w) \<noteq> min_duration"
  shows "\<exists>st'. evictor_run (store_drop_before rng) w now st = (store_count st - store_count st', st') \<and>
    store_inv st' \<and>
    (\<forall>i. contents st' i = filter (\<lambda>x. now - smp_time x \<le> sint (win_duration w)) (contents st i))"
proof -
  have eq: "filter (\<lambda>x. now - sint (win_duration w) \<le> smp_time x) ss =
      filter (\<lambda>x. now - smp_time x \<le> sint (win_duration w)) ss" for ss
    by (rule filter_cong) auto
  then show ?thesis
    using streams_range.evict_on_store [OF assms(1,2), of w now] assms(2)
    by (auto simp: store_count_contents log_keep_def cutoff_eq [OF assms(3)] eq)
qed

theorem evictor_applies_retention_witness:
  "\<exists>st'. evictor_run (store_drop_before ascending_keys) \<lparr>win_duration = 2\<rparr> 4 demo_store =
      (3 - store_count st', st') \<and> contents st' (demo_id ''a'') = [demo_sample 2, demo_sample 3] \<and>
    contents st' (demo_id ''b'') = []"
  using evictor_applies_retention [OF ordered.streams_range_axioms demo_store_inv,
      of "\<lparr>win_duration = 2\<rparr>" 4]
  by (auto simp: demo_store_count demo_store_contents demo_sample_def min_duration_def)

section \<open>Browsing what is held\<close>

text \<open>
  C15: \<open>cat\<close> succeeds on a path exactly if it is the printed path of a stream that holds
  samples and whose namespace, service and name are not empty and contain no slash; it then returns
  that stream's samples, oldest first. A held stream with another name cannot be read at all.
\<close>

theorem cat_returns_held_samples:
  assumes "store_inv st"
  shows "sor_cat st pth = Inr ss \<longleftrightarrow>
    (\<exists>i. stream_wf i \<and> path_string (stream_path i) = pth \<and> contents st i = ss \<and> ss \<noteq> [])"
  unfolding streams_range.cat_on_store [OF ordered.streams_range_axioms assms]
  by (metis path_stream_inverse stream_wf_path)

theorem cat_returns_held_samples_witness:
  "sor_cat demo_store ''/iam/api/metrics/a.dat'' = Inr [demo_sample 2, demo_sample 3]"
proof -
  have "stream_wf (demo_id ''a'')" and "path_string (stream_path (demo_id ''a'')) = ''/iam/api/metrics/a.dat''"
    by (simp_all add: stream_wf_def demo_id_def slash_free_def path_string_def stream_path_def dat_suffix_def)
  then show ?thesis
    using cat_returns_held_samples [OF demo_store_inv, of "''/iam/api/metrics/a.dat''"
        "[demo_sample 2, demo_sample 3]"] demo_store_contents(1) by blast
qed

text \<open>
  C36: \<open>ls\<close> succeeds exactly on the root and on the directories above a held stream, where
  a service has both kind directories as soon as it has a stream of either kind.
\<close>

theorem ls_lists_directories_above_streams:
  assumes "streams_range rng" and "store_inv st"
  shows "(\<exists>es. sor_ls rng st pth = Inr es) \<longleftrightarrow>
    (\<exists>p. path_wf p \<and> path_string p = pth \<and> pth_name p = [] \<and>
      (p = empty_path \<or> (\<exists>i. contents st i \<noteq> [] \<and> holds_dir p i)))"
  by (rule streams_range.ls_on_store [OF assms])

theorem ls_lists_directories_above_streams_witness:
  "\<exists>es. sor_ls ascending_keys demo_store ''/iam/api/logs'' = Inr es"
proof -
  let ?p = "\<lparr>pth_namespace = ''iam'', pth_service = ''api'', pth_kind = Logs, pth_name = []\<rparr>"
  have "path_wf ?p" "path_string ?p = ''/iam/api/logs''" "pth_name ?p = []"
    by (simp_all add: path_wf_def path_string_def slash_free_def)
  moreover have "contents demo_store (demo_id ''a'') \<noteq> []" "holds_dir ?p (demo_id ''a'')"
    by (simp_all add: demo_store_contents) (simp add: holds_dir_def demo_id_def)
  ultimately show ?thesis
    using ls_lists_directories_above_streams [OF ordered.streams_range_axioms demo_store_inv,
        of "''/iam/api/logs''"] by blast
qed

text \<open>
  C14: Walking the tree with \<open>ls\<close> from the root, four levels deep, finds exactly the files of
  the streams that hold samples, when every held stream has names a path can carry.
\<close>

theorem walk_finds_every_stream:
  assumes "streams_range rng" and "store_inv st" and "\<And>i. contents st i \<noteq> [] \<Longrightarrow> stream_wf i"
  shows "set (walk (sor_ls rng st) 4 ''/'') = {path_string (stream_path i) |i. contents st i \<noteq> []}"
  by (rule streams_range.walk_on_store [OF assms])

lemma demo_store_held: "contents demo_store i \<noteq> [] \<longleftrightarrow> i = demo_id ''a'' \<or> i = demo_id ''b''"
  by (auto simp: demo_store_def contents_append store_append_inv log_insert_apply insert_sample_def)

theorem walk_finds_every_stream_witness:
  "set (walk (sor_ls ascending_keys demo_store) 4 ''/'') =
    {''/iam/api/metrics/a.dat'', ''/iam/api/metrics/b.dat''}"
proof -
  have "stream_wf i" if "contents demo_store i \<noteq> []" for i
    using that by (auto simp: demo_store_held stream_wf_def demo_id_def slash_free_def)
  then have "set (walk (sor_ls ascending_keys demo_store) 4 ''/'') =
      {path_string (stream_path i) |i. contents demo_store i \<noteq> []}"
    by (rule walk_finds_every_stream [OF ordered.streams_range_axioms demo_store_inv])
  also have "\<dots> = {path_string (stream_path (demo_id ''a'')), path_string (stream_path (demo_id ''b''))}"
    by (auto simp: demo_store_held)
  finally show ?thesis by (simp add: path_string_def stream_path_def demo_id_def dat_suffix_def)
qed

end
